(* ===== verification/Prelude.thy ===== *)
theory Prelude
  imports Main "HOL-Library.Monad_Syntax" "HOL-Library.Word"
begin

text \<open>
  Shared vocabulary of the development.

  Every operation of the C++ program that can abort the process (a failed \<open>assert\<close>) or
  whose behaviour C++ leaves undefined (an index out of range) is a function into
  \<open>'a option\<close>: \<open>None\<close> is that failure, and \<open>Some\<close> a normal return, whatever the
  \<open>bool\<close> the C++ function returns.  Operations on a state return the new state beside
  the result.  \<open>run_ops\<close> runs a list of such operations; the locale \<open>machine\<close> holds
  what follows, once and for all, from an invariant that every operation keeps, and
  \<open>refined_machine\<close> what follows from a simulation by an abstract machine.
\<close>

subsection \<open>Types and hints\<close>

type_synonym u64 = "64 word"

text \<open>\<open>contacts_defs\<close>, \<open>chat_defs\<close>: the operations of a component, to unfold together.\<close>

named_theorems contacts_defs
named_theorems chat_defs
named_theorems window_defs

subsection \<open>Options and lists\<close>

lemma ex_bool [simp]: "\<exists>r. r" "\<exists>r. \<not> r"
  by blast+

lemma list_update_eq_map_index:
  assumes "i < length xs"
  shows "map f (xs[i := y]) = (map f xs)[i := f y]"
  by (simp add: map_update)

lemma nth_append_last [simp]: "(xs @ [y]) ! length xs = y"
  by simp

lemma all_nth_append1:
  "(\<forall>i < length (xs @ [y]). P i ((xs @ [y]) ! i)) \<longleftrightarrow>
   (\<forall>i < length xs. P i (xs ! i)) \<and> P (length xs) y"
  by (auto simp: nth_append less_Suc_eq)

lemma take_Suc_snoc: "n < length xs \<Longrightarrow> take n xs @ [xs ! n] = take (Suc n) xs"
  by (simp add: take_Suc_conv_app_nth)

lemma list_all2_set:
  "list_all2 P xs ys \<Longrightarrow> \<forall>x \<in> set xs. Q x \<Longrightarrow> (\<And>x y. P x y \<Longrightarrow> Q x \<Longrightarrow> R y) \<Longrightarrow> \<forall>y \<in> set ys. R y"
  by (induction rule: list_all2_induct) auto

subsection \<open>Running operations\<close>

fun run_ops :: "('s \<Rightarrow> 'o \<Rightarrow> ('r \<times> 's) option) \<Rightarrow> 's \<Rightarrow> 'o list \<Rightarrow> ('r list \<times> 's) option" where
  "run_ops step s [] = Some ([], s)"
| "run_ops step s (x # xs) =
     (case step s x of
        None \<Rightarrow> None
      | Some (r, s1) \<Rightarrow>
          (case run_ops step s1 xs of
             None \<Rightarrow> None
           | Some (rs, s2) \<Rightarrow> Some (r # rs, s2)))"

lemma run_ops_append:
  "run_ops step s (xs @ ys) =
     (case run_ops step s xs of
        None \<Rightarrow> None
      | Some (rs, s1) \<Rightarrow>
          (case run_ops step s1 ys of
             None \<Rightarrow> None
           | Some (rs', s2) \<Rightarrow> Some (rs @ rs', s2)))"
  by (induction xs arbitrary: s) (auto split: option.splits)

text \<open>
  A machine whose operations keep an invariant when they are possible at all: \<open>None\<close> is a step
  that cannot be made.
\<close>

locale partial_machine =
  fixes step :: "'s \<Rightarrow> 'o \<Rightarrow> ('r \<times> 's) option"
    and inv :: "'s \<Rightarrow> bool"
    and ok :: "'o \<Rightarrow> bool"
  assumes step_keeps: "inv s \<Longrightarrow> ok x \<Longrightarrow> step s x = Some (r, s') \<Longrightarrow> inv s'"
begin

lemma run_inv:
  "inv s \<Longrightarrow> list_all ok xs \<Longrightarrow> run_ops step s xs = Some (rs, s') \<Longrightarrow> inv s'"
proof (induction xs arbitrary: s rs)
  case (Cons x xs)
  then obtain r s1 rs1 where s: "step s x = Some (r, s1)" "run_ops step s1 xs = Some (rs1, s')"
    by (auto split: option.splits)
  moreover have "inv s1"
    using step_keeps[OF Cons.prems(1) _ s(1)] Cons.prems(2) by simp
  ultimately show ?case
    using Cons.IH[of s1 rs1] Cons.prems(2) by simp
qed simp

end

text \<open>
  A machine whose operations keep an invariant and, from a state that satisfies it,
  never fail.  \<open>ok\<close> says which calls the machine's clients make.
\<close>

locale machine =
  fixes step :: "'s \<Rightarrow> 'o \<Rightarrow> ('r \<times> 's) option"
    and inv :: "'s \<Rightarrow> bool"
    and ok :: "'o \<Rightarrow> bool"
  assumes step_ok: "inv s \<Longrightarrow> ok x \<Longrightarrow> \<exists>r s'. step s x = Some (r, s') \<and> inv s'"
begin

lemma step_inv: "inv s \<Longrightarrow> ok x \<Longrightarrow> step s x = Some (r, s') \<Longrightarrow> inv s'"
  using step_ok by fastforce

lemma run_total:
  "inv s \<Longrightarrow> list_all ok xs \<Longrightarrow> \<exists>rs s'. run_ops step s xs = Some (rs, s') \<and> inv s'"
proof (induction xs arbitrary: s)
  case Nil
  then show ?case by simp
next
  case (Cons x xs)
  then obtain r s1 where "step s x = Some (r, s1)" "inv s1"
    using step_ok by fastforce
  moreover from this(2) Cons.prems(2) obtain rs s2 where "run_ops step s1 xs = Some (rs, s2)" "inv s2"
    using Cons.IH[of s1] by auto
  ultimately show ?case by simp
qed

end

sublocale machine \<subseteq> partial_machine step inv ok
  by unfold_locales (rule step_inv)

text \<open>An abstract machine is total: its operations never fail.\<close>

fun arun :: "('a \<Rightarrow> 'o \<Rightarrow> 'r \<times> 'a) \<Rightarrow> 'a \<Rightarrow> 'o list \<Rightarrow> 'r list \<times> 'a" where
  "arun astep a [] = ([], a)"
| "arun astep a (x # xs) =
     (let (r, a1) = astep a x; (rs, a2) = arun astep a1 xs in (r # rs, a2))"

text \<open>
  A machine refined by an abstract one: \<open>abs\<close> reads the abstract state off a concrete
  one, and each concrete operation answers as the abstract operation does and ends in a
  state whose reading is the abstract result.
\<close>

locale refined_machine = machine step inv ok
  for step :: "'s \<Rightarrow> 'o \<Rightarrow> ('r \<times> 's) option" and inv and ok +
  fixes astep :: "'a \<Rightarrow> 'o \<Rightarrow> 'r \<times> 'a"
    and abs :: "'s \<Rightarrow> 'a"
  assumes simulate: "inv s \<Longrightarrow> ok x \<Longrightarrow> step s x = Some (r, s') \<Longrightarrow> astep (abs s) x = (r, abs s')"
begin

lemma run_refines:
  "inv s \<Longrightarrow> list_all ok xs \<Longrightarrow> run_ops step s xs = Some (rs, s') \<Longrightarrow>
   arun astep (abs s) xs = (rs, abs s')"
proof (induction xs arbitrary: s rs)
  case Nil
  then show ?case by simp
next
  case (Cons x xs)
  then obtain r s1 rs1 where
    "step s x = Some (r, s1)" "run_ops step s1 xs = Some (rs1, s')" "rs = r # rs1"
    by (auto split: option.splits)
  moreover from calculation Cons.prems have "inv s1"
    using step_inv[of s x r s1] by simp
  moreover from calculation Cons.prems have "astep (abs s) x = (r, abs s1)"
    using simulate by simp
  ultimately show ?case
    using Cons.IH[of s1 rs1] Cons.prems by (simp add: Let_def)
qed

end

end
