(* ===== verification/Cxx_Text.thy ===== *)
theory Cxx_Text
  imports Prelude
begin

text \<open>
  The parts of the C++ standard library on text that the program calls, on \<open>string\<close>
  (a list of bytes): \<open>std::to_string\<close> of a \<open>size_t\<close>, \<open>std::from_chars\<close> and
  \<open>operator>>\<close> into a \<open>size_t\<close>, \<open>isdigit\<close>, and \<open>std::getline\<close> with a delimiter.
  The lemmas give the round trip between printing and reading a number, and the
  bounds of what is read.
\<close>

subsection \<open>Characters\<close>

definition is_digit :: "char \<Rightarrow> bool" where
  "is_digit c \<longleftrightarrow> 48 \<le> (of_char c :: nat) \<and> (of_char c :: nat) \<le> 57"

definition digit_value :: "char \<Rightarrow> nat" where
  "digit_value c = of_char c - 48"

definition digit_char :: "nat \<Rightarrow> char" where
  "digit_char d = char_of (48 + d)"

lemma of_char_digit [simp]: "d < 10 \<Longrightarrow> (of_char (digit_char d) :: nat) = 48 + d"
  by (simp add: digit_char_def)

lemma is_digit_char [simp]: "d < 10 \<Longrightarrow> is_digit (digit_char d)"
  by (simp add: is_digit_def)

lemma digit_value_char [simp]: "d < 10 \<Longrightarrow> digit_value (digit_char d) = d"
  by (simp add: digit_value_def)

lemma digit_value_less: "is_digit c \<Longrightarrow> digit_value c < 10"
  by (auto simp: is_digit_def digit_value_def)

lemma digit_char_value [simp]: "is_digit c \<Longrightarrow> digit_char (digit_value c) = c"
  by (simp add: is_digit_def digit_value_def digit_char_def)

subsection \<open>Decimal numbers\<close>

fun to_string :: "nat \<Rightarrow> string" where
  "to_string n =
     (if n < 10 then [digit_char n] else to_string (n div 10) @ [digit_char (n mod 10)])"

declare to_string.simps [simp del]

definition decimal :: "string \<Rightarrow> nat" where
  "decimal s = foldl (\<lambda>a c. 10 * a + digit_value c) 0 s"

lemma decimal_Nil [simp]: "decimal [] = 0"
  by (simp add: decimal_def)

lemma decimal_snoc [simp]: "decimal (s @ [c]) = 10 * decimal s + digit_value c"
  by (simp add: decimal_def)

lemma to_string_digits: "list_all is_digit (to_string n)"
proof (induction n rule: to_string.induct)
  case (1 n)
  then show ?case
    by (subst to_string.simps) auto
qed

lemma to_string_nonempty [simp]: "to_string n \<noteq> []"
  by (subst to_string.simps) simp

lemma decimal_to_string [simp]: "decimal (to_string n) = n"
proof (induction n rule: to_string.induct)
  case (1 n)
  show ?case
  proof (cases "n < 10")
    case True
    then show ?thesis
      using decimal_snoc[of "[]"] by (subst to_string.simps) simp
  next
    case False
    with 1 show ?thesis
      by (subst to_string.simps) simp
  qed
qed

lemma to_string_inject: "to_string m = to_string n \<Longrightarrow> m = n"
  by (metis decimal_to_string)

lemma decimal_bound: "list_all is_digit s \<Longrightarrow> decimal s < 10 ^ length s"
proof (induction s rule: rev_induct)
  case Nil
  then show ?case by simp
next
  case (snoc c s)
  then have "decimal s < 10 ^ length s" "digit_value c < 10"
    by (auto intro: digit_value_less)
  then show ?case by simp
qed

subsection \<open>\<open>std::from_chars\<close> into a \<open>size_t\<close>\<close>

datatype errc = invalid_argument | result_out_of_range

definition SIZE_MAX1 :: nat where
  "SIZE_MAX1 = 18446744073709551616"

text \<open>
  Reads the longest prefix of digits, takes no sign and skips no space; what follows the
  digits is left unread and is no error.
\<close>

definition from_chars :: "string \<Rightarrow> errc + nat" where
  "from_chars s =
     (let ds = takeWhile is_digit s in
      if ds = [] then Inl invalid_argument
      else if decimal ds < SIZE_MAX1 then Inr (decimal ds)
      else Inl result_out_of_range)"

lemma takeWhile_digits: "list_all is_digit s \<Longrightarrow> takeWhile is_digit s = s"
  by (simp add: list_all_iff takeWhile_eq_all_conv)

lemma from_chars_to_string: "n < SIZE_MAX1 \<Longrightarrow> from_chars (to_string n) = Inr n"
  by (simp add: from_chars_def takeWhile_digits to_string_digits)

lemma from_chars_bound: "from_chars s = Inr n \<Longrightarrow> n < SIZE_MAX1"
  by (auto simp: from_chars_def Let_def split: if_splits)

lemma from_chars_Nil [simp]: "from_chars [] = Inl invalid_argument"
  by (simp add: from_chars_def)

lemma from_chars_short:
  assumes "list_all is_digit s" "s \<noteq> []" "length s \<le> 19"
  shows "from_chars s = Inr (decimal s)"
proof -
  have "decimal s < 10 ^ length s"
    using assms(1) by (rule decimal_bound)
  also have "\<dots> \<le> (10::nat) ^ 19"
    using assms(3) by (intro power_increasing) auto
  finally show ?thesis
    using assms by (simp add: from_chars_def takeWhile_digits SIZE_MAX1_def)
qed

subsection \<open>\<open>operator>>\<close> of a string stream into a \<open>size_t\<close>\<close>

text \<open>The white space of the C locale, which \<open>operator>>\<close> skips first.\<close>

definition is_space :: "char \<Rightarrow> bool" where
  "is_space c \<longleftrightarrow> (of_char c :: nat) \<in> {9, 10, 11, 12, 13, 32}"

text \<open>
  A sign is accepted and a negative number is negated modulo \<open>2^64\<close>; no digits or a
  number out of range set the fail bit (\<open>None\<close>).
\<close>

definition stream_size :: "string \<Rightarrow> u64 option" where
  "stream_size s =
     (let t = dropWhile is_space s;
          neg = (t \<noteq> [] \<and> hd t = CHR ''-'');
          u = (if t \<noteq> [] \<and> (hd t = CHR ''-'' \<or> hd t = CHR ''+'') then tl t else t);
          ds = takeWhile is_digit u
      in if ds = [] \<or> SIZE_MAX1 \<le> decimal ds then None
         else Some (if neg then - of_nat (decimal ds) else of_nat (decimal ds)))"

subsection \<open>\<open>std::getline\<close> with a delimiter, until it fails\<close>

text \<open>
  \<open>while (std::getline(input, arg, d)) args.push_back(arg);\<close> on a string stream: the pieces
  between delimiters, without an empty piece after a delimiter that ends the input.
\<close>

function split_on :: "char \<Rightarrow> string \<Rightarrow> string list" where
  "split_on d [] = []"
| "split_on d (c # s) =
     takeWhile (\<lambda>x. x \<noteq> d) (c # s) # split_on d (drop 1 (dropWhile (\<lambda>x. x \<noteq> d) (c # s)))"
  by pat_completeness auto
termination
proof (relation "measure (\<lambda>(d, s). length s)")
  fix d c :: char and s :: string
  have "length (dropWhile (\<lambda>x. x \<noteq> d) (c # s)) \<le> Suc (length s)"
    using length_dropWhile_le[of "\<lambda>x. x \<noteq> d" "c # s"] by simp
  then show "((d, drop 1 (dropWhile (\<lambda>x. x \<noteq> d) (c # s))), d, c # s)
      \<in> measure (\<lambda>(d, s). length s)"
    by auto
qed simp

lemma split_on_no_delimiter: "a \<in> set (split_on d s) \<Longrightarrow> d \<notin> set a"
proof (induction d s rule: split_on.induct)
  case (2 d c s)
  then show ?case
    using set_takeWhileD[of d "\<lambda>x. x \<noteq> d"] by (auto split: if_splits)
qed simp

lemma split_on_unfold:
  "s \<noteq> [] \<Longrightarrow>
   split_on d s = takeWhile (\<lambda>x. x \<noteq> d) s # split_on d (drop 1 (dropWhile (\<lambda>x. x \<noteq> d) s))"
  by (cases s) (simp_all only: split_on.simps list.distinct simp_thms)

lemma split_on_single:
  assumes "d \<notin> set s" "s \<noteq> []"
  shows "split_on d s = [s]"
proof -
  have "\<forall>x \<in> set s. x \<noteq> d"
    using assms(1) by blast
  then have "takeWhile (\<lambda>x. x \<noteq> d) s = s" "dropWhile (\<lambda>x. x \<noteq> d) s = []"
    by (auto simp: takeWhile_eq_all_conv dropWhile_eq_Nil_conv)
  with split_on_unfold[OF assms(2), of d] show ?thesis
    by simp
qed

lemma split_on_piece:
  assumes "d \<notin> set a"
  shows "split_on d (a @ d # s) = a # split_on d s"
proof -
  have "\<forall>x \<in> set a. x \<noteq> d"
    using assms by blast
  then have "takeWhile (\<lambda>x. x \<noteq> d) (a @ d # s) = a"
    and "dropWhile (\<lambda>x. x \<noteq> d) (a @ d # s) = d # s"
    by (auto simp: takeWhile_append2 dropWhile_append2)
  with split_on_unfold[of "a @ d # s" d] show ?thesis
    by simp
qed

text \<open>A split into one piece: the piece alone, or with one delimiter at its end.\<close>

lemma split_on_one:
  assumes "a \<noteq> []" "d \<notin> set a"
  shows "split_on d s = [a] \<longleftrightarrow> s = a \<or> s = a @ [d]"
proof
  assume r: "split_on d s = [a]"
  then have "s \<noteq> []"
    by auto
  let ?t = "takeWhile (\<lambda>x. x \<noteq> d) s" and ?u = "dropWhile (\<lambda>x. x \<noteq> d) s"
  have a: "?t = a" and u: "split_on d (drop 1 ?u) = []"
    using r split_on_unfold[OF \<open>s \<noteq> []\<close>, of d] by simp_all
  have "drop 1 ?u = []"
  proof (rule ccontr)
    assume n: "drop 1 ?u \<noteq> []"
    show False
      using split_on_unfold[OF n, of d] unfolding u by simp
  qed
  then have "?u = [] \<or> (\<exists>x. ?u = [x])"
    by (cases ?u) auto
  moreover have "x = d" if "?u = [x]" for x
    using hd_dropWhile[of "\<lambda>x. x \<noteq> d" s] unfolding that by simp
  ultimately have end_cases: "?u = [] \<or> ?u = [d]"
    by blast
  have "?t @ ?u = s"
    by (rule takeWhile_dropWhile_id)
  then have whole: "a @ ?u = s"
    unfolding a .
  from end_cases show "s = a \<or> s = a @ [d]"
  proof
    assume "?u = []"
    then show ?thesis
      using whole by (metis append_Nil2)
  next
    assume "?u = [d]"
    then show ?thesis
      using whole by metis
  qed
next
  assume "s = a \<or> s = a @ [d]"
  then show "split_on d s = [a]"
    using assms split_on_single split_on_piece[of d a "[]"] by auto
qed

subsection \<open>The terminal\<close>

text \<open>
  \<open>TTUtilsOutputStream\<close> on standard output: what \<open>clear\<close> and \<open>endl\<close> write.  The terminal of a
  process is the string of everything it printed.
\<close>

definition CLEAR_SCREEN :: string where
  "CLEAR_SCREEN = [CHR 0x1B] @ ''[2J'' @ [CHR 0x1B] @ ''[1;1H''"

definition NEWLINE :: string where
  "NEWLINE = [CHR 0x0A]"

end
