(* ===== verification/Contacts_Data.thy ===== *)
theory Contacts_Data
  imports Cxx_Text
begin

text \<open>
  The data of the contacts bundle: \<open>TTContactsState\<close>, \<open>TTContactsStatus\<close>,
  \<open>TTContactsMessage\<close> (the message passed through shared memory),
  \<open>TTContactsEntry\<close> (a row of the contacts window) and \<open>TTContactsHandlerEntry\<close>
  (a contact the engine knows), with their comparison and printing operators.
\<close>

subsection \<open>\<open>TTContactsState\<close>\<close>

datatype contacts_state =
    ACTIVE | INACTIVE | SELECTED_ACTIVE | SELECTED_INACTIVE
  | UNREAD_MSG_ACTIVE | UNREAD_MSG_INACTIVE
  | PENDING_MSG_INACTIVE | SELECTED_PENDING_MSG_INACTIVE

primrec state_value :: "contacts_state \<Rightarrow> nat" where
  "state_value ACTIVE = 0"
| "state_value INACTIVE = 1"
| "state_value SELECTED_ACTIVE = 2"
| "state_value SELECTED_INACTIVE = 3"
| "state_value UNREAD_MSG_ACTIVE = 4"
| "state_value UNREAD_MSG_INACTIVE = 5"
| "state_value PENDING_MSG_INACTIVE = 6"
| "state_value SELECTED_PENDING_MSG_INACTIVE = 7"

definition isActive :: "contacts_state \<Rightarrow> bool" where
  "isActive s \<longleftrightarrow> s = ACTIVE \<or> s = SELECTED_ACTIVE \<or> s = UNREAD_MSG_ACTIVE"

definition isInactive :: "contacts_state \<Rightarrow> bool" where
  "isInactive s \<longleftrightarrow> \<not> isActive s"

definition isSelected :: "contacts_state \<Rightarrow> bool" where
  "isSelected s \<longleftrightarrow>
     s = SELECTED_ACTIVE \<or> s = SELECTED_INACTIVE \<or> s = SELECTED_PENDING_MSG_INACTIVE"

primrec show_state :: "contacts_state \<Rightarrow> string" where
  "show_state ACTIVE = ''ACTIVE''"
| "show_state INACTIVE = ''INACTIVE''"
| "show_state SELECTED_ACTIVE = ''SELECTED_ACTIVE''"
| "show_state SELECTED_INACTIVE = ''SELECTED_INACTIVE''"
| "show_state UNREAD_MSG_ACTIVE = ''UNREAD_MSG_ACTIVE''"
| "show_state UNREAD_MSG_INACTIVE = ''UNREAD_MSG_INACTIVE''"
| "show_state PENDING_MSG_INACTIVE = ''PENDING_MSG_INACTIVE''"
| "show_state SELECTED_PENDING_MSG_INACTIVE = ''SELECTED_PENDING_MSG_INACTIVE''"

lemma state_value_less: "state_value s < 8"
  by (cases s) simp_all

lemma state_value_inject: "state_value s = state_value t \<Longrightarrow> s = t"
  by (cases s; cases t) simp_all

instantiation contacts_state :: linorder
begin

definition less_eq_contacts_state :: "contacts_state \<Rightarrow> contacts_state \<Rightarrow> bool" where
  "s \<le> t \<longleftrightarrow> state_value s \<le> state_value t"

definition less_contacts_state :: "contacts_state \<Rightarrow> contacts_state \<Rightarrow> bool" where
  "s < t \<longleftrightarrow> state_value s < state_value t"

instance
  by standard
    (auto simp: less_eq_contacts_state_def less_contacts_state_def intro: state_value_inject)

end

subsection \<open>\<open>TTContactsStatus\<close>\<close>

text \<open>\<open>STATUS_OTHER\<close> stands for the values of the underlying \<open>int\<close> that name no enumerator.\<close>

datatype contacts_status = STATE | CONTACTS_HEARTBEAT | CONTACTS_GOODBYE | STATUS_OTHER int

primrec show_status :: "contacts_status \<Rightarrow> string" where
  "show_status STATE = ''STATE''"
| "show_status CONTACTS_HEARTBEAT = ''HEARTBEAT''"
| "show_status CONTACTS_GOODBYE = ''GOODBYE''"
| "show_status (STATUS_OTHER n) = ''UNKNOWN''"

subsection \<open>\<open>TTContactsMessage\<close>\<close>

definition TTCONTACTS_DATA_MAX_LENGTH :: nat where
  "TTCONTACTS_DATA_MAX_LENGTH = 256"

record contacts_message =
  mStatus :: contacts_status
  mState :: contacts_state
  mIdentity :: nat
  mDataLength :: nat
  mData :: string

text \<open>
  A default-constructed message.  C++ leaves its fields uninitialised; the values here are
  never read before a setter writes them.
\<close>

definition blank_message :: contacts_message where
  "blank_message = \<lparr>mStatus = CONTACTS_HEARTBEAT, mState = ACTIVE, mIdentity = 0,
     mDataLength = 0, mData = replicate TTCONTACTS_DATA_MAX_LENGTH (CHR 0x00)\<rparr>"

text \<open>
  \<open>assert(nickname.size() < TTCONTACTS_DATA_MAX_LENGTH)\<close> fails with \<open>None\<close>; otherwise the
  buffer is zeroed and the nickname copied to its start.
\<close>

definition setNickname :: "string \<Rightarrow> contacts_message \<Rightarrow> contacts_message option" where
  "setNickname nickname m =
     (if length nickname < TTCONTACTS_DATA_MAX_LENGTH
      then Some (m\<lparr>mDataLength := length nickname,
                   mData := nickname @
                     replicate (TTCONTACTS_DATA_MAX_LENGTH - length nickname) (CHR 0x00)\<rparr>)
      else None)"

definition getNickname :: "contacts_message \<Rightarrow> string" where
  "getNickname m = take (mDataLength m) (mData m)"

definition show_contacts_message :: "contacts_message \<Rightarrow> string" where
  "show_contacts_message m = ''{'' @
     (case mStatus m of
        STATE \<Rightarrow> ''status: '' @ show_status (mStatus m) @ '', '' @
                 ''state: '' @ show_state (mState m) @ '', '' @
                 ''identity: '' @ to_string (mIdentity m) @ '', '' @
                 ''nickname: '' @ getNickname m
      | CONTACTS_HEARTBEAT \<Rightarrow> ''status: '' @ show_status (mStatus m)
      | CONTACTS_GOODBYE \<Rightarrow> ''status: '' @ show_status (mStatus m)
      | STATUS_OTHER n \<Rightarrow> '''') @ ''}''"

definition contacts_message_eq :: "contacts_message \<Rightarrow> contacts_message \<Rightarrow> bool" where
  "contacts_message_eq lhs rhs =
     (if mStatus lhs \<noteq> mStatus rhs then False
      else case mStatus lhs of
        STATE \<Rightarrow> mState lhs = mState rhs \<and> mIdentity lhs = mIdentity rhs
                 \<and> getNickname lhs = getNickname rhs
      | CONTACTS_HEARTBEAT \<Rightarrow> True
      | CONTACTS_GOODBYE \<Rightarrow> True
      | STATUS_OTHER n \<Rightarrow> False)"

text \<open>The class invariant of a message that went through \<open>setNickname\<close>.\<close>

definition message_wf :: "contacts_message \<Rightarrow> bool" where
  "message_wf m \<longleftrightarrow> mDataLength m < TTCONTACTS_DATA_MAX_LENGTH
     \<and> length (mData m) = TTCONTACTS_DATA_MAX_LENGTH
     \<and> drop (mDataLength m) (mData m) =
         replicate (TTCONTACTS_DATA_MAX_LENGTH - mDataLength m) (CHR 0x00)"

lemma setNickname_None_iff:
  "setNickname nickname m = None \<longleftrightarrow> TTCONTACTS_DATA_MAX_LENGTH \<le> length nickname"
  by (auto simp: setNickname_def)

lemma setNickname_getNickname:
  "setNickname nickname m = Some m' \<Longrightarrow> getNickname m' = nickname"
  by (auto simp: setNickname_def getNickname_def split: if_splits)

lemma setNickname_wf: "setNickname nickname m = Some m' \<Longrightarrow> message_wf m'"
  by (auto simp: setNickname_def message_wf_def split: if_splits)

lemma setNickname_frame:
  "setNickname nickname m = Some m' \<Longrightarrow>
   mStatus m' = mStatus m \<and> mState m' = mState m \<and> mIdentity m' = mIdentity m"
  by (auto simp: setNickname_def split: if_splits)

subsection \<open>\<open>TTContactsEntry\<close> and \<open>TTContactsHandlerEntry\<close>\<close>

record contacts_entry =
  ce_identity :: nat
  ce_state :: contacts_state
  ce_nickname :: string

definition show_contacts_entry :: "contacts_entry \<Rightarrow> string" where
  "show_contacts_entry e = ''{'' @ ''nickname: '' @ ce_nickname e @ '', '' @
     ''identity: '' @ to_string (ce_identity e) @ '', '' @
     ''state: '' @ show_state (ce_state e) @ '', '' @ ''}''"

record handler_entry =
  nickname :: string
  identity :: string
  ipAddressAndPort :: string
  sentMessages :: u64
  receivedMessages :: u64
  state :: contacts_state

definition new_handler_entry :: "string \<Rightarrow> string \<Rightarrow> string \<Rightarrow> handler_entry" where
  "new_handler_entry n i a = \<lparr>nickname = n, identity = i, ipAddressAndPort = a,
     sentMessages = 0, receivedMessages = 0, state = ACTIVE\<rparr>"

lemma new_handler_entry_simps [simp]:
  "nickname (new_handler_entry n i a) = n"
  "identity (new_handler_entry n i a) = i"
  "ipAddressAndPort (new_handler_entry n i a) = a"
  "sentMessages (new_handler_entry n i a) = 0"
  "receivedMessages (new_handler_entry n i a) = 0"
  "state (new_handler_entry n i a) = ACTIVE"
  by (simp_all add: new_handler_entry_def)

definition show_handler_entry :: "handler_entry \<Rightarrow> string" where
  "show_handler_entry e = ''{'' @ ''nickname: '' @ nickname e @ '', '' @
     ''identity: '' @ identity e @ '', '' @
     ''state: '' @ show_state (state e) @ '', '' @
     ''IP address and port: '' @ ipAddressAndPort e @ '', '' @
     ''sent messages: '' @ to_string (unat (sentMessages e)) @ '', '' @
     ''received messages: '' @ to_string (unat (receivedMessages e)) @ ''}''"

definition handler_entry_eq :: "handler_entry \<Rightarrow> handler_entry \<Rightarrow> bool" where
  "handler_entry_eq lhs rhs \<longleftrightarrow>
     nickname lhs = nickname rhs \<and> identity lhs = identity rhs
     \<and> ipAddressAndPort lhs = ipAddressAndPort rhs
     \<and> sentMessages lhs = sentMessages rhs \<and> receivedMessages lhs = receivedMessages rhs
     \<and> state lhs = state rhs"

lemma handler_entry_eq_iff: "handler_entry_eq lhs rhs \<longleftrightarrow> lhs = rhs"
  by (auto simp: handler_entry_eq_def)

subsection \<open>The abstract reading of a state\<close>

text \<open>
  What the eight states say about a contact: reachable or not, shown in the chat window or
  not, with messages not yet read, with messages not yet delivered.
\<close>

record contact_flags =
  online :: bool
  selected :: bool
  unread :: bool
  pending :: bool

primrec flags_of :: "contacts_state \<Rightarrow> contact_flags" where
  "flags_of ACTIVE = \<lparr>online = True, selected = False, unread = False, pending = False\<rparr>"
| "flags_of INACTIVE = \<lparr>online = False, selected = False, unread = False, pending = False\<rparr>"
| "flags_of SELECTED_ACTIVE = \<lparr>online = True, selected = True, unread = False, pending = False\<rparr>"
| "flags_of SELECTED_INACTIVE = \<lparr>online = False, selected = True, unread = False, pending = False\<rparr>"
| "flags_of UNREAD_MSG_ACTIVE = \<lparr>online = True, selected = False, unread = True, pending = False\<rparr>"
| "flags_of UNREAD_MSG_INACTIVE = \<lparr>online = False, selected = False, unread = True, pending = False\<rparr>"
| "flags_of PENDING_MSG_INACTIVE = \<lparr>online = False, selected = False, unread = False, pending = True\<rparr>"
| "flags_of SELECTED_PENDING_MSG_INACTIVE =
     \<lparr>online = False, selected = True, unread = False, pending = True\<rparr>"

text \<open>The combinations the header comments call impossible are excluded.\<close>

definition flags_possible :: "contact_flags \<Rightarrow> bool" where
  "flags_possible f \<longleftrightarrow>
     \<not> (pending f \<and> online f) \<and> \<not> (pending f \<and> unread f) \<and> \<not> (selected f \<and> unread f)"

lemma flags_of_inject: "flags_of s = flags_of t \<Longrightarrow> s = t"
  by (cases s; cases t) simp_all

lemma flags_of_possible: "flags_possible (flags_of s)"
  by (cases s) (simp_all add: flags_possible_def)

lemma flags_of_predicates:
  "isActive s = online (flags_of s)"
  "isInactive s = (\<not> online (flags_of s))"
  "isSelected s = selected (flags_of s)"
  by (cases s; simp add: isActive_def isInactive_def isSelected_def)+

lemma flags_of_surj: "flags_possible f \<Longrightarrow> \<exists>s. flags_of s = f"
proof -
  assume p: "flags_possible f"
  obtain o1 s1 u1 p1 where f: "f = \<lparr>online = o1, selected = s1, unread = u1, pending = p1\<rparr>"
    by (cases f) auto
  show ?thesis
  proof (rule exI)
    show "flags_of (if p1 then if s1 then SELECTED_PENDING_MSG_INACTIVE else PENDING_MSG_INACTIVE
        else if u1 then if o1 then UNREAD_MSG_ACTIVE else UNREAD_MSG_INACTIVE
        else if s1 then if o1 then SELECTED_ACTIVE else SELECTED_INACTIVE
        else if o1 then ACTIVE else INACTIVE) = f"
      using p by (auto simp: f flags_possible_def)
  qed
qed

end
