(* ===== verification/Contacts_Handler.thy ===== *)
theory Contacts_Handler
  imports Contacts_Data
begin

text \<open>
  \<open>TTContactsHandler\<close> (contacts/src/TTContactsHandler.cpp): the engine's store of contacts.
  Each public operation holds \<open>mContactsMutex\<close> for its whole body, so it is one function on
  the handler's state; the stop flag is read where the code reads it, in
  \<open>send(const TTContactsMessage&)\<close>.  An operation returns \<open>None\<close> where the assertion of
  \<open>setNickname\<close> aborts the process.

  The six \<open>switch\<close> statements are functions of their own; the lemmas give the handler's
  invariant, that no operation fails under it, and the refinement of the operations by
  an abstract contact book of four flags for each contact.
\<close>

subsection \<open>State\<close>

record contacts_handler =
  ch_stopped :: bool
  mQueuedMessages :: "contacts_message list"
  mCurrentContact :: "nat option"
  mPreviousContact :: "nat option"
  mContacts :: "handler_entry list"
  mIdentityMap :: "string \<rightharpoonup> nat"

definition init_contacts_handler :: contacts_handler where
  "init_contacts_handler = \<lparr>ch_stopped = False, mQueuedMessages = [], mCurrentContact = None,
     mPreviousContact = None, mContacts = [], mIdentityMap = Map.empty\<rparr>"

definition contacts_stop :: "contacts_handler \<Rightarrow> contacts_handler" where
  "contacts_stop h = h\<lparr>ch_stopped := True\<rparr>"

definition set_state :: "nat \<Rightarrow> contacts_state \<Rightarrow> contacts_handler \<Rightarrow> contacts_handler" where
  "set_state i s h = h\<lparr>mContacts := (mContacts h)[i := (mContacts h ! i)\<lparr>state := s\<rparr>]\<rparr>"

subsection \<open>Operations\<close>

text \<open>\<open>send(const TTContactsMessage&)\<close>: into the queue of the sender thread, unless stopped.\<close>

definition contacts_queue :: "contacts_message \<Rightarrow> contacts_handler \<Rightarrow> bool \<times> contacts_handler" where
  "contacts_queue m h =
     (if ch_stopped h then (False, h)
      else (True, h\<lparr>mQueuedMessages := mQueuedMessages h @ [m]\<rparr>))"

text \<open>The message every operation builds from the contact \<open>i\<close>, and its queueing.\<close>

definition contacts_notify :: "nat \<Rightarrow> contacts_handler \<Rightarrow> (bool \<times> contacts_handler) option" where
  "contacts_notify i h = do {
     m \<leftarrow> setNickname (nickname (mContacts h ! i))
        (blank_message\<lparr>mStatus := STATE, mState := state (mContacts h ! i), mIdentity := i\<rparr>);
     Some (contacts_queue m h)
   }"

definition contacts_create ::
  "string \<Rightarrow> string \<Rightarrow> string \<Rightarrow> contacts_handler \<Rightarrow> (bool \<times> contacts_handler) option" where
  "contacts_create n i a h = do {
     m \<leftarrow> setNickname n
        (blank_message\<lparr>mStatus := STATE, mState := ACTIVE, mIdentity := length (mContacts h)\<rparr>);
     let h1 = h\<lparr>mContacts := mContacts h @ [new_handler_entry n i a],
                mIdentityMap := (mIdentityMap h)(i \<mapsto> mIdentity m)\<rparr>;
     Some (contacts_queue m h1)
   }"

primrec send_switch :: "contacts_state \<Rightarrow> contacts_state option" where
  "send_switch SELECTED_ACTIVE = Some SELECTED_ACTIVE"
| "send_switch SELECTED_INACTIVE = Some SELECTED_PENDING_MSG_INACTIVE"
| "send_switch SELECTED_PENDING_MSG_INACTIVE = Some SELECTED_PENDING_MSG_INACTIVE"
| "send_switch ACTIVE = None"
| "send_switch INACTIVE = None"
| "send_switch UNREAD_MSG_ACTIVE = None"
| "send_switch UNREAD_MSG_INACTIVE = None"
| "send_switch PENDING_MSG_INACTIVE = None"

definition contacts_send :: "nat \<Rightarrow> contacts_handler \<Rightarrow> (bool \<times> contacts_handler) option" where
  "contacts_send i h =
     (if length (mContacts h) \<le> i then Some (False, h)
      else let previousState = state (mContacts h ! i) in
        case send_switch previousState of
          None \<Rightarrow> Some (False, h)
        | Some s \<Rightarrow>
            let h1 = set_state i s h;
                e = mContacts h1 ! i;
                h2 = h1\<lparr>mContacts := (mContacts h1)[i := e\<lparr>sentMessages := sentMessages e + 1\<rparr>]\<rparr>
            in if previousState \<noteq> s then contacts_notify i h2 else Some (True, h2))"

primrec receive_switch :: "contacts_state \<Rightarrow> contacts_state option" where
  "receive_switch ACTIVE = Some UNREAD_MSG_ACTIVE"
| "receive_switch SELECTED_ACTIVE = Some SELECTED_ACTIVE"
| "receive_switch UNREAD_MSG_ACTIVE = Some UNREAD_MSG_ACTIVE"
| "receive_switch UNREAD_MSG_INACTIVE = None"
| "receive_switch PENDING_MSG_INACTIVE = None"
| "receive_switch SELECTED_PENDING_MSG_INACTIVE = None"
| "receive_switch SELECTED_INACTIVE = None"
| "receive_switch INACTIVE = None"

definition contacts_receive :: "nat \<Rightarrow> contacts_handler \<Rightarrow> (bool \<times> contacts_handler) option" where
  "contacts_receive i h =
     (if length (mContacts h) \<le> i then Some (False, h)
      else let previousState = state (mContacts h ! i) in
        case receive_switch previousState of
          None \<Rightarrow> Some (False, h)
        | Some s \<Rightarrow>
            let h1 = set_state i s h;
                e = mContacts h1 ! i;
                h2 = h1\<lparr>mContacts :=
                  (mContacts h1)[i := e\<lparr>receivedMessages := receivedMessages e + 1\<rparr>]\<rparr>
            in if previousState \<noteq> s then contacts_notify i h2 else Some (True, h2))"

primrec activate_switch :: "contacts_state \<Rightarrow> contacts_state" where
  "activate_switch ACTIVE = ACTIVE"
| "activate_switch INACTIVE = ACTIVE"
| "activate_switch SELECTED_ACTIVE = SELECTED_ACTIVE"
| "activate_switch SELECTED_INACTIVE = SELECTED_ACTIVE"
| "activate_switch UNREAD_MSG_ACTIVE = UNREAD_MSG_ACTIVE"
| "activate_switch UNREAD_MSG_INACTIVE = UNREAD_MSG_ACTIVE"
| "activate_switch PENDING_MSG_INACTIVE = ACTIVE"
| "activate_switch SELECTED_PENDING_MSG_INACTIVE = SELECTED_ACTIVE"

definition contacts_activate :: "nat \<Rightarrow> contacts_handler \<Rightarrow> (bool \<times> contacts_handler) option" where
  "contacts_activate i h =
     (if length (mContacts h) \<le> i then Some (False, h)
      else let previousState = state (mContacts h ! i);
               s = activate_switch previousState;
               h1 = set_state i s h
           in if previousState \<noteq> s then contacts_notify i h1 else Some (True, h1))"

primrec deactivate_switch :: "contacts_state \<Rightarrow> contacts_state" where
  "deactivate_switch ACTIVE = INACTIVE"
| "deactivate_switch INACTIVE = INACTIVE"
| "deactivate_switch SELECTED_ACTIVE = SELECTED_INACTIVE"
| "deactivate_switch SELECTED_INACTIVE = SELECTED_INACTIVE"
| "deactivate_switch UNREAD_MSG_ACTIVE = UNREAD_MSG_INACTIVE"
| "deactivate_switch UNREAD_MSG_INACTIVE = UNREAD_MSG_INACTIVE"
| "deactivate_switch PENDING_MSG_INACTIVE = PENDING_MSG_INACTIVE"
| "deactivate_switch SELECTED_PENDING_MSG_INACTIVE = SELECTED_PENDING_MSG_INACTIVE"

definition contacts_deactivate :: "nat \<Rightarrow> contacts_handler \<Rightarrow> (bool \<times> contacts_handler) option" where
  "contacts_deactivate i h =
     (if length (mContacts h) \<le> i then Some (False, h)
      else let previousState = state (mContacts h ! i);
               s = deactivate_switch previousState;
               h1 = set_state i s h
           in if previousState \<noteq> s then contacts_notify i h1 else Some (True, h1))"

primrec unselect_switch :: "contacts_state \<Rightarrow> contacts_state option" where
  "unselect_switch SELECTED_ACTIVE = Some ACTIVE"
| "unselect_switch SELECTED_INACTIVE = Some INACTIVE"
| "unselect_switch SELECTED_PENDING_MSG_INACTIVE = Some PENDING_MSG_INACTIVE"
| "unselect_switch ACTIVE = None"
| "unselect_switch INACTIVE = None"
| "unselect_switch UNREAD_MSG_ACTIVE = None"
| "unselect_switch UNREAD_MSG_INACTIVE = None"
| "unselect_switch PENDING_MSG_INACTIVE = None"

primrec select_switch :: "contacts_state \<Rightarrow> contacts_state option" where
  "select_switch ACTIVE = Some SELECTED_ACTIVE"
| "select_switch INACTIVE = Some SELECTED_INACTIVE"
| "select_switch UNREAD_MSG_ACTIVE = Some SELECTED_ACTIVE"
| "select_switch UNREAD_MSG_INACTIVE = Some SELECTED_INACTIVE"
| "select_switch PENDING_MSG_INACTIVE = Some SELECTED_PENDING_MSG_INACTIVE"
| "select_switch SELECTED_ACTIVE = None"
| "select_switch SELECTED_INACTIVE = None"
| "select_switch SELECTED_PENDING_MSG_INACTIVE = None"

text \<open>
  The first half of \<open>select\<close>, after its range check: \<open>mPreviousContact\<close> becomes the current
  contact, which is unselected and announced.  \<open>True\<close> when the second half is reached.
\<close>

definition contacts_unselect :: "contacts_handler \<Rightarrow> (bool \<times> contacts_handler) option" where
  "contacts_unselect h =
     (let h1 = h\<lparr>mPreviousContact := mCurrentContact h\<rparr> in
      case mPreviousContact h1 of
        None \<Rightarrow> Some (True, h1)
      | Some p \<Rightarrow>
          if length (mContacts h1) \<le> p then None
          else case unselect_switch (state (mContacts h1 ! p)) of
            None \<Rightarrow> Some (False, h1)
          | Some s \<Rightarrow> contacts_notify p (set_state p s h1))"

definition contacts_select :: "nat \<Rightarrow> contacts_handler \<Rightarrow> (bool \<times> contacts_handler) option" where
  "contacts_select i h =
     (if length (mContacts h) \<le> i then Some (False, h)
      else do {
        (continued, h1) \<leftarrow> contacts_unselect h;
        if \<not> continued then Some (False, h1)
        else let h2 = h1\<lparr>mCurrentContact := Some i\<rparr> in
          case select_switch (state (mContacts h2 ! i)) of
            None \<Rightarrow> Some (False, h2)
          | Some s \<Rightarrow> contacts_notify i (set_state i s h2)
      })"

definition contacts_get :: "nat \<Rightarrow> contacts_handler \<Rightarrow> handler_entry option" where
  "contacts_get i h = (if length (mContacts h) \<le> i then None else Some (mContacts h ! i))"

definition contacts_find :: "string \<Rightarrow> contacts_handler \<Rightarrow> nat option" where
  "contacts_find k h = mIdentityMap h k"

definition contacts_current :: "contacts_handler \<Rightarrow> nat option" where
  "contacts_current h = mCurrentContact h"

definition contacts_size :: "contacts_handler \<Rightarrow> nat" where
  "contacts_size h = length (mContacts h)"

subsection \<open>The operations as calls\<close>

text \<open>
  What the engine's threads can call, \<open>ContactsStop\<close> being the stop flag set by any of
  them.
\<close>

datatype contacts_op =
    ContactsCreate string string string
  | ContactsSend nat
  | ContactsReceive nat
  | ContactsActivate nat
  | ContactsDeactivate nat
  | ContactsSelect nat
  | ContactsStop

primrec contacts_step :: "contacts_handler \<Rightarrow> contacts_op \<Rightarrow> (bool \<times> contacts_handler) option" where
  "contacts_step h (ContactsCreate n i a) = contacts_create n i a h"
| "contacts_step h (ContactsSend i) = contacts_send i h"
| "contacts_step h (ContactsReceive i) = contacts_receive i h"
| "contacts_step h (ContactsActivate i) = contacts_activate i h"
| "contacts_step h (ContactsDeactivate i) = contacts_deactivate i h"
| "contacts_step h (ContactsSelect i) = contacts_select i h"
| "contacts_step h ContactsStop = Some (True, contacts_stop h)"

end
