(* ===== verification/Contacts_Book.thy ===== *)
theory Contacts_Book
  imports Contacts_Handler
begin

text \<open>
  The contract of \<open>TTContactsHandler\<close>: its invariant, the abstract contact book it
  implements, and the proof that every operation keeps the first and refines the second.
\<close>

subsection \<open>The invariant\<close>

definition names_ok :: "contacts_handler \<Rightarrow> bool" where
  "names_ok h \<longleftrightarrow> (\<forall>e \<in> set (mContacts h). length (nickname e) < TTCONTACTS_DATA_MAX_LENGTH)"

text \<open>The map sends an identity to the last contact created with it, and misses none.\<close>

definition identities_ok :: "contacts_handler \<Rightarrow> bool" where
  "identities_ok h \<longleftrightarrow>
     (\<forall>k i. mIdentityMap h k = Some i \<longrightarrow>
        i < length (mContacts h) \<and> identity (mContacts h ! i) = k) \<and>
     (\<forall>j < length (mContacts h). \<exists>i. mIdentityMap h (identity (mContacts h ! j)) = Some i \<and> j \<le> i)"

text \<open>At most one contact is selected, it is the current one, and the current one is selected
  unless the handler was stopped.\<close>

definition selection_ok :: "contacts_handler \<Rightarrow> bool" where
  "selection_ok h \<longleftrightarrow>
     (\<forall>i < length (mContacts h). isSelected (state (mContacts h ! i)) \<longrightarrow>
        mCurrentContact h = Some i) \<and>
     (\<forall>i. mCurrentContact h = Some i \<longrightarrow> i < length (mContacts h) \<and>
        (isSelected (state (mContacts h ! i)) \<or> ch_stopped h))"

lemma selection_okI:
  assumes "\<And>i. i < length (mContacts h) \<Longrightarrow> isSelected (state (mContacts h ! i)) \<Longrightarrow>
      mCurrentContact h = Some i"
    and "\<And>i. mCurrentContact h = Some i \<Longrightarrow> i < length (mContacts h)"
    and "\<And>i. mCurrentContact h = Some i \<Longrightarrow> \<not> ch_stopped h \<Longrightarrow> isSelected (state (mContacts h ! i))"
  shows "selection_ok h"
  using assms unfolding selection_ok_def by blast

lemma selection_okD:
  assumes "selection_ok h"
  shows "i < length (mContacts h) \<Longrightarrow> isSelected (state (mContacts h ! i)) \<Longrightarrow>
      mCurrentContact h = Some i"
    and "mCurrentContact h = Some i \<Longrightarrow> i < length (mContacts h)"
    and "mCurrentContact h = Some i \<Longrightarrow> \<not> ch_stopped h \<Longrightarrow> isSelected (state (mContacts h ! i))"
  using assms unfolding selection_ok_def by blast+

lemma selection_ok_stop: "selection_ok h \<Longrightarrow> selection_ok (contacts_stop h)"
  by (rule selection_okI) (simp_all add: contacts_stop_def, (blast dest: selection_okD)+)

definition contacts_inv :: "contacts_handler \<Rightarrow> bool" where
  "contacts_inv h \<longleftrightarrow> names_ok h \<and> identities_ok h \<and> selection_ok h"

text \<open>The only call that can abort is a creation with too long a nickname.\<close>

primrec contacts_op_ok :: "contacts_op \<Rightarrow> bool" where
  "contacts_op_ok (ContactsCreate n i a) = (length n < TTCONTACTS_DATA_MAX_LENGTH)"
| "contacts_op_ok (ContactsSend i) = True"
| "contacts_op_ok (ContactsReceive i) = True"
| "contacts_op_ok (ContactsActivate i) = True"
| "contacts_op_ok (ContactsDeactivate i) = True"
| "contacts_op_ok (ContactsSelect i) = True"
| "contacts_op_ok ContactsStop = True"

subsection \<open>The abstract contact book\<close>

record contact_book =
  book_stopped :: bool
  book_flags :: "contact_flags list"
  book_current :: "nat option"

definition book_of :: "contacts_handler \<Rightarrow> contact_book" where
  "book_of h = \<lparr>book_stopped = ch_stopped h,
     book_flags = map (flags_of \<circ> state) (mContacts h), book_current = mCurrentContact h\<rparr>"

text \<open>
  Changing the flags of one contact: a change that alters nothing succeeds, one that does
  is announced and so succeeds when the book is not stopped.
\<close>

definition book_update :: "nat \<Rightarrow> contact_flags \<Rightarrow> contact_book \<Rightarrow> bool \<times> contact_book" where
  "book_update i f b =
     (book_flags b ! i = f \<or> \<not> book_stopped b, b\<lparr>book_flags := (book_flags b)[i := f]\<rparr>)"

definition book_select :: "nat \<Rightarrow> contact_book \<Rightarrow> bool \<times> contact_book" where
  "book_select i b =
     (let b1 = b\<lparr>book_current := Some i\<rparr>; f = book_flags b ! i in
      if selected f then (False, b1)
      else book_update i (f\<lparr>selected := True, unread := False\<rparr>) b1)"

primrec book_step :: "contact_book \<Rightarrow> contacts_op \<Rightarrow> bool \<times> contact_book" where
  "book_step b (ContactsCreate n k a) =
     (\<not> book_stopped b, b\<lparr>book_flags := book_flags b @
        [\<lparr>online = True, selected = False, unread = False, pending = False\<rparr>]\<rparr>)"
| "book_step b (ContactsSend i) =
     (if i < length (book_flags b) \<and> selected (book_flags b ! i)
      then let f = book_flags b ! i
           in book_update i (f\<lparr>pending := pending f \<or> \<not> online f\<rparr>) b
      else (False, b))"
| "book_step b (ContactsReceive i) =
     (if i < length (book_flags b) \<and> online (book_flags b ! i)
      then let f = book_flags b ! i in book_update i (f\<lparr>unread := \<not> selected f\<rparr>) b
      else (False, b))"
| "book_step b (ContactsActivate i) =
     (if i < length (book_flags b)
      then book_update i ((book_flags b ! i)\<lparr>online := True, pending := False\<rparr>) b
      else (False, b))"
| "book_step b (ContactsDeactivate i) =
     (if i < length (book_flags b)
      then book_update i ((book_flags b ! i)\<lparr>online := False\<rparr>) b
      else (False, b))"
| "book_step b (ContactsSelect i) =
     (if i < length (book_flags b)
      then case book_current b of
          None \<Rightarrow> book_select i b
        | Some p \<Rightarrow>
            if selected (book_flags b ! p)
            then let (r, b1) = book_update p ((book_flags b ! p)\<lparr>selected := False\<rparr>) b
                 in if r then book_select i b1 else (False, b1)
            else (False, b)
      else (False, b))"
| "book_step b ContactsStop = (True, b\<lparr>book_stopped := True\<rparr>)"

subsection \<open>The switches on flags\<close>

lemma send_switch_Some:
  "send_switch s = Some t \<longleftrightarrow> selected (flags_of s) \<and>
     flags_of t = (flags_of s)\<lparr>pending := pending (flags_of s) \<or> \<not> online (flags_of s)\<rparr>"
  by (cases s; cases t) simp_all

lemma receive_switch_Some:
  "receive_switch s = Some t \<longleftrightarrow> online (flags_of s) \<and>
     flags_of t = (flags_of s)\<lparr>unread := \<not> selected (flags_of s)\<rparr>"
  by (cases s; cases t) simp_all

lemma unselect_switch_Some:
  "unselect_switch s = Some t \<longleftrightarrow> selected (flags_of s) \<and>
     flags_of t = (flags_of s)\<lparr>selected := False\<rparr>"
  by (cases s; cases t) simp_all

lemma select_switch_Some:
  "select_switch s = Some t \<longleftrightarrow> \<not> selected (flags_of s) \<and>
     flags_of t = (flags_of s)\<lparr>selected := True, unread := False\<rparr>"
  by (cases s; cases t) simp_all

lemma switch_None:
  "send_switch s = None \<longleftrightarrow> \<not> selected (flags_of s)"
  "receive_switch s = None \<longleftrightarrow> \<not> online (flags_of s)"
  "unselect_switch s = None \<longleftrightarrow> \<not> selected (flags_of s)"
  "select_switch s = None \<longleftrightarrow> selected (flags_of s)"
  by (cases s; simp)+

lemma activate_switch_flags:
  "flags_of (activate_switch s) = (flags_of s)\<lparr>online := True, pending := False\<rparr>"
  by (cases s) simp_all

lemma deactivate_switch_flags:
  "flags_of (deactivate_switch s) = (flags_of s)\<lparr>online := False\<rparr>"
  by (cases s) simp_all

lemma selecting_changes:
  "unselect_switch s = Some t \<Longrightarrow> s \<noteq> t"
  "select_switch s = Some t \<Longrightarrow> s \<noteq> t"
  by (cases s; auto)+

lemmas switch_flags =
  send_switch_Some receive_switch_Some unselect_switch_Some select_switch_Some switch_None
  activate_switch_flags deactivate_switch_flags

subsection \<open>Queueing and announcing\<close>

definition state_message :: "nat \<Rightarrow> handler_entry \<Rightarrow> contacts_message" where
  "state_message i e = blank_message\<lparr>mStatus := STATE, mState := state e, mIdentity := i,
     mDataLength := length (nickname e),
     mData := nickname e @
       replicate (TTCONTACTS_DATA_MAX_LENGTH - length (nickname e)) (CHR 0x00)\<rparr>"

lemma state_message_simps [simp]:
  "mStatus (state_message i e) = STATE"
  "mState (state_message i e) = state e"
  "mIdentity (state_message i e) = i"
  "getNickname (state_message i e) = nickname e"
  by (simp_all add: state_message_def getNickname_def)

lemma contacts_queue_simps [simp]:
  "fst (contacts_queue m h) = (\<not> ch_stopped h)"
  "ch_stopped (snd (contacts_queue m h)) = ch_stopped h"
  "mContacts (snd (contacts_queue m h)) = mContacts h"
  "mIdentityMap (snd (contacts_queue m h)) = mIdentityMap h"
  "mCurrentContact (snd (contacts_queue m h)) = mCurrentContact h"
  "mPreviousContact (snd (contacts_queue m h)) = mPreviousContact h"
  "mQueuedMessages (snd (contacts_queue m h)) =
     mQueuedMessages h @ (if ch_stopped h then [] else [m])"
  by (simp_all add: contacts_queue_def)

lemma contacts_queue_pair: "contacts_queue m h = (\<not> ch_stopped h, snd (contacts_queue m h))"
  by (simp add: prod_eq_iff)

lemma inv_frames [simp]:
  "names_ok (snd (contacts_queue m h)) = names_ok h"
  "identities_ok (snd (contacts_queue m h)) = identities_ok h"
  "selection_ok (snd (contacts_queue m h)) = selection_ok h"
  "names_ok (h\<lparr>mPreviousContact := p\<rparr>) = names_ok h"
  "identities_ok (h\<lparr>mPreviousContact := p\<rparr>) = identities_ok h"
  "selection_ok (h\<lparr>mPreviousContact := p\<rparr>) = selection_ok h"
  "names_ok (h\<lparr>mQueuedMessages := q\<rparr>) = names_ok h"
  "identities_ok (h\<lparr>mQueuedMessages := q\<rparr>) = identities_ok h"
  "selection_ok (h\<lparr>mQueuedMessages := q\<rparr>) = selection_ok h"
  "names_ok (h\<lparr>mCurrentContact := p\<rparr>) = names_ok h"
  "identities_ok (h\<lparr>mCurrentContact := p\<rparr>) = identities_ok h"
  "names_ok (h\<lparr>ch_stopped := b\<rparr>) = names_ok h"
  "identities_ok (h\<lparr>ch_stopped := b\<rparr>) = identities_ok h"
  by (simp_all add: names_ok_def identities_ok_def selection_ok_def)

lemma contacts_inv_queue [simp]: "contacts_inv (snd (contacts_queue m h)) = contacts_inv h"
  by (simp add: contacts_inv_def)

lemma book_of_queue [simp]: "book_of (snd (contacts_queue m h)) = book_of h"
  by (simp add: book_of_def)

lemma contacts_notify_eq:
  assumes "names_ok h" "i < length (mContacts h)"
  shows "contacts_notify i h =
    Some (\<not> ch_stopped h, snd (contacts_queue (state_message i (mContacts h ! i)) h))"
proof -
  have "length (nickname (mContacts h ! i)) < TTCONTACTS_DATA_MAX_LENGTH"
    using assms by (simp add: names_ok_def)
  then show ?thesis
    by (simp add: contacts_notify_def setNickname_def state_message_def contacts_queue_pair[symmetric])
qed

subsection \<open>Rewriting one contact\<close>

text \<open>
  All of \<open>send\<close>, \<open>receive\<close>, \<open>activate\<close> and \<open>deactivate\<close> end alike: the contact \<open>i\<close> is
  replaced by one with the same names, and announced when its state changed.
\<close>

definition put_entry :: "nat \<Rightarrow> handler_entry \<Rightarrow> contacts_handler \<Rightarrow> contacts_handler" where
  "put_entry i e h = h\<lparr>mContacts := (mContacts h)[i := e]\<rparr>"

definition put_and_notify ::
  "nat \<Rightarrow> handler_entry \<Rightarrow> contacts_handler \<Rightarrow> bool \<times> contacts_handler" where
  "put_and_notify i e h =
     (let h1 = put_entry i e h in
      if state (mContacts h ! i) = state e then (True, h1)
      else (\<not> ch_stopped h, snd (contacts_queue (state_message i e) h1)))"

lemma put_entry_simps [simp]:
  "mContacts (put_entry i e h) = (mContacts h)[i := e]"
  "ch_stopped (put_entry i e h) = ch_stopped h"
  "mCurrentContact (put_entry i e h) = mCurrentContact h"
  "mPreviousContact (put_entry i e h) = mPreviousContact h"
  "mIdentityMap (put_entry i e h) = mIdentityMap h"
  "mQueuedMessages (put_entry i e h) = mQueuedMessages h"
  by (simp_all add: put_entry_def)

definition same_names :: "handler_entry \<Rightarrow> handler_entry \<Rightarrow> bool" where
  "same_names e f \<longleftrightarrow> nickname e = nickname f \<and> identity e = identity f"

lemma names_ok_put [simp]:
  assumes "same_names e (mContacts h ! i)" "i < length (mContacts h)" "names_ok h"
  shows "names_ok (put_entry i e h)"
proof -
  have "length (nickname e) < TTCONTACTS_DATA_MAX_LENGTH"
    using assms by (simp add: names_ok_def same_names_def)
  with assms(3) show ?thesis
    by (auto simp: names_ok_def dest!: subsetD[OF set_update_subset_insert])
qed

lemma identity_put:
  "same_names e (mContacts h ! i) \<Longrightarrow> j < length (mContacts h) \<Longrightarrow>
   identity ((mContacts h)[i := e] ! j) = identity (mContacts h ! j)"
  by (cases "i = j") (simp_all add: same_names_def)

lemma identities_ok_put [simp]:
  "same_names e (mContacts h ! i) \<Longrightarrow> identities_ok h \<Longrightarrow> identities_ok (put_entry i e h)"
  by (auto simp: identities_ok_def identity_put)

lemma selected_put:
  "isSelected (state e) = isSelected (state (mContacts h ! i)) \<Longrightarrow> j < length (mContacts h) \<Longrightarrow>
   isSelected (state ((mContacts h)[i := e] ! j)) = isSelected (state (mContacts h ! j))"
  by (cases "i = j") simp_all

lemma selection_ok_put:
  assumes "isSelected (state e) = isSelected (state (mContacts h ! i))" "selection_ok h"
  shows "selection_ok (put_entry i e h)"
  unfolding selection_ok_def put_entry_simps length_list_update
proof (intro conjI allI impI)
  fix j assume "j < length (mContacts h)" "isSelected (state ((mContacts h)[i := e] ! j))"
  then show "mCurrentContact h = Some j"
    using assms selected_put[of e h i j] unfolding selection_ok_def by blast
next
  fix j assume "mCurrentContact h = Some j"
  then show "j < length (mContacts h)"
    using assms(2) unfolding selection_ok_def by blast
  then show "isSelected (state ((mContacts h)[i := e] ! j)) \<or> ch_stopped h"
    using assms selected_put[of e h i j] \<open>mCurrentContact h = Some j\<close>
    unfolding selection_ok_def by blast
qed

lemma contacts_inv_put:
  "same_names e (mContacts h ! i) \<Longrightarrow> i < length (mContacts h) \<Longrightarrow>
   isSelected (state e) = isSelected (state (mContacts h ! i)) \<Longrightarrow>
   contacts_inv h \<Longrightarrow> contacts_inv (put_entry i e h)"
  by (simp add: contacts_inv_def selection_ok_put)

lemma book_of_put: "book_of (put_entry i e h) =
    (book_of h)\<lparr>book_flags := (book_flags (book_of h))[i := flags_of (state e)]\<rparr>"
  by (simp add: book_of_def map_update)

lemma put_and_notify_inv:
  assumes "same_names e (mContacts h ! i)" "i < length (mContacts h)" "contacts_inv h"
    and "isSelected (state e) = isSelected (state (mContacts h ! i))"
  shows "contacts_inv (snd (put_and_notify i e h))"
proof -
  have "contacts_inv (put_entry i e h)"
    using assms by (intro contacts_inv_put)
  then show ?thesis
    by (simp add: put_and_notify_def Let_def)
qed

lemma put_and_notify_book:
  assumes "i < length (mContacts h)"
  shows "book_update i (flags_of (state e)) (book_of h) =
    (fst (put_and_notify i e h), book_of (snd (put_and_notify i e h)))"
proof -
  have "flags_of (state (mContacts h ! i)) = flags_of (state e) \<longleftrightarrow>
      state (mContacts h ! i) = state e"
    using flags_of_inject by auto
  then show ?thesis
    using assms
    by (simp add: put_and_notify_def book_update_def Let_def book_of_put) (simp add: book_of_def)
qed

subsection \<open>The operations in this form\<close>

lemma notify_put:
  assumes "names_ok h" "i < length (mContacts h)" "same_names e (mContacts h ! i)"
  shows "contacts_notify i (put_entry i e h) =
    Some (\<not> ch_stopped h, snd (contacts_queue (state_message i e) (put_entry i e h)))"
  using assms contacts_notify_eq[of "put_entry i e h" i] by simp

lemma contacts_send_eq:
  assumes "names_ok h"
  shows "contacts_send i h = Some
    (if i < length (mContacts h)
     then case send_switch (state (mContacts h ! i)) of
         None \<Rightarrow> (False, h)
       | Some s \<Rightarrow> put_and_notify i ((mContacts h ! i)
           \<lparr>state := s, sentMessages := sentMessages (mContacts h ! i) + 1\<rparr>) h
     else (False, h))"
proof (cases "i < length (mContacts h)")
  case True
  let ?e = "\<lambda>s. (mContacts h ! i)\<lparr>state := s, sentMessages := sentMessages (mContacts h ! i) + 1\<rparr>"
  have "contacts_notify i (put_entry i (?e s) h) =
      Some (\<not> ch_stopped h, snd (contacts_queue (state_message i (?e s)) (put_entry i (?e s) h)))" for s
    using assms True by (intro notify_put) (simp_all add: same_names_def)
  with True show ?thesis
    by (auto simp: contacts_send_def put_and_notify_def set_state_def put_entry_def Let_def
        split: option.split)
qed (simp add: contacts_send_def)

lemma contacts_receive_eq:
  assumes "names_ok h"
  shows "contacts_receive i h = Some
    (if i < length (mContacts h)
     then case receive_switch (state (mContacts h ! i)) of
         None \<Rightarrow> (False, h)
       | Some s \<Rightarrow> put_and_notify i ((mContacts h ! i)
           \<lparr>state := s, receivedMessages := receivedMessages (mContacts h ! i) + 1\<rparr>) h
     else (False, h))"
proof (cases "i < length (mContacts h)")
  case True
  let ?e = "\<lambda>s. (mContacts h ! i)
    \<lparr>state := s, receivedMessages := receivedMessages (mContacts h ! i) + 1\<rparr>"
  have "contacts_notify i (put_entry i (?e s) h) =
      Some (\<not> ch_stopped h, snd (contacts_queue (state_message i (?e s)) (put_entry i (?e s) h)))" for s
    using assms True by (intro notify_put) (simp_all add: same_names_def)
  with True show ?thesis
    by (auto simp: contacts_receive_def put_and_notify_def set_state_def put_entry_def Let_def
        split: option.split)
qed (simp add: contacts_receive_def)

lemma set_state_put: "set_state i s h = put_entry i ((mContacts h ! i)\<lparr>state := s\<rparr>) h"
  by (simp add: set_state_def put_entry_def)

lemma notify_set_state:
  assumes "names_ok h" "i < length (mContacts h)"
  shows "contacts_notify i (set_state i s h) = Some (\<not> ch_stopped h,
    snd (contacts_queue (state_message i ((mContacts h ! i)\<lparr>state := s\<rparr>)) (set_state i s h)))"
  using assms unfolding set_state_put by (intro notify_put) (simp_all add: same_names_def)

lemma contacts_activate_eq:
  assumes "names_ok h"
  shows "contacts_activate i h = Some
    (if i < length (mContacts h)
     then put_and_notify i ((mContacts h ! i)
       \<lparr>state := activate_switch (state (mContacts h ! i))\<rparr>) h
     else (False, h))"
  using notify_set_state[OF assms]
  by (simp add: contacts_activate_def put_and_notify_def set_state_put Let_def)

lemma contacts_deactivate_eq:
  assumes "names_ok h"
  shows "contacts_deactivate i h = Some
    (if i < length (mContacts h)
     then put_and_notify i ((mContacts h ! i)
       \<lparr>state := deactivate_switch (state (mContacts h ! i))\<rparr>) h
     else (False, h))"
  using notify_set_state[OF assms]
  by (simp add: contacts_deactivate_def put_and_notify_def set_state_put Let_def)

text \<open>The first half of \<open>select\<close>: what is unselected, and what it leaves.\<close>

lemma contacts_unselect_eq:
  assumes "names_ok h" "selection_ok h"
  shows "contacts_unselect h = Some
    (let h1 = h\<lparr>mPreviousContact := mCurrentContact h\<rparr> in
     case mCurrentContact h of
       None \<Rightarrow> (True, h1)
     | Some p \<Rightarrow>
         (case unselect_switch (state (mContacts h ! p)) of
            None \<Rightarrow> (False, h1)
          | Some s \<Rightarrow> put_and_notify p ((mContacts h ! p)\<lparr>state := s\<rparr>) h1))"
proof (cases "mCurrentContact h")
  case None
  then show ?thesis by (simp add: contacts_unselect_def)
next
  case (Some p)
  let ?h1 = "h\<lparr>mPreviousContact := mCurrentContact h\<rparr>"
  have p: "p < length (mContacts h)"
    using assms(2) Some by (simp add: selection_ok_def)
  have "names_ok ?h1"
    using assms(1) by (simp add: names_ok_def)
  then have n: "contacts_notify p (set_state p s ?h1) = Some (\<not> ch_stopped h,
      snd (contacts_queue (state_message p ((mContacts h ! p)\<lparr>state := s\<rparr>)) (set_state p s ?h1)))" for s
    using notify_set_state[of ?h1 p s] p by simp
  with p Some show ?thesis
    by (auto dest: selecting_changes simp: contacts_unselect_def put_and_notify_def set_state_put Let_def split: option.split)
qed

subsection \<open>Selection\<close>

definition none_selected :: "contacts_handler \<Rightarrow> bool" where
  "none_selected h \<longleftrightarrow> (\<forall>i < length (mContacts h). \<not> isSelected (state (mContacts h ! i)))"

lemma none_selected_queue [simp]: "none_selected (snd (contacts_queue m h)) = none_selected h"
  by (simp add: none_selected_def)

lemma selection_ok_choose:
  assumes "none_selected h" "i < length (mContacts h)" "isSelected (state e)"
    and "mCurrentContact h = Some i"
  shows "selection_ok (put_entry i e h)"
  using assms by (auto simp: selection_ok_def none_selected_def nth_list_update)

lemma contacts_unselect_step:
  assumes "contacts_inv h" "contacts_unselect h = Some (r, h1)"
  shows "names_ok h1 \<and> identities_ok h1 \<and> length (mContacts h1) = length (mContacts h)
    \<and> ch_stopped h1 = ch_stopped h \<and> mCurrentContact h1 = mCurrentContact h
    \<and> mPreviousContact h1 = mCurrentContact h
    \<and> (if r then none_selected h1 else contacts_inv h1)"
proof -
  let ?h = "h\<lparr>mPreviousContact := mCurrentContact h\<rparr>"
  have inv: "contacts_inv ?h"
    using assms(1) by (simp add: contacts_inv_def)
  have "names_ok h" "selection_ok h"
    using assms(1) by (simp_all add: contacts_inv_def)
  then have eq: "(r, h1) = (case mCurrentContact h of
       None \<Rightarrow> (True, ?h)
     | Some p \<Rightarrow>
         (case unselect_switch (state (mContacts h ! p)) of
            None \<Rightarrow> (False, ?h)
          | Some s \<Rightarrow> put_and_notify p ((mContacts h ! p)\<lparr>state := s\<rparr>) ?h))"
    using contacts_unselect_eq[of h] assms(2) unfolding Let_def by simp
  show ?thesis
  proof (cases "mCurrentContact h")
    case None
    then have "r" "h1 = ?h" "none_selected h"
      using eq assms(1) by (auto simp: contacts_inv_def selection_ok_def none_selected_def)
    then show ?thesis
      using inv by (simp add: contacts_inv_def none_selected_def)
  next
    case (Some p)
    have p: "p < length (mContacts h)" and sel: "isSelected (state (mContacts h ! p)) \<or> ch_stopped h"
      and others: "\<And>j. j < length (mContacts h) \<Longrightarrow> j \<noteq> p \<Longrightarrow> \<not> isSelected (state (mContacts h ! j))"
      using assms(1) Some by (auto simp: contacts_inv_def selection_ok_def)
    show ?thesis
    proof (cases "unselect_switch (state (mContacts h ! p))")
      case None
      then have "\<not> r" "h1 = ?h"
        using eq Some by simp_all
      then show ?thesis
        using inv by (simp add: contacts_inv_def)
    next
      case (Some s)
      let ?e = "(mContacts h ! p)\<lparr>state := s\<rparr>"
      have ns: "\<not> isSelected s" and neq: "state (mContacts h ! p) \<noteq> s"
        using Some selecting_changes by (auto simp: switch_flags flags_of_predicates)
      have r: "r = (\<not> ch_stopped h)" and h1: "h1 = snd (contacts_queue (state_message p ?e) (put_entry p ?e ?h))"
        using eq Some \<open>mCurrentContact h = Some p\<close> neq
        by (simp_all add: put_and_notify_def Let_def)
      have free: "none_selected h1"
      proof -
        have "\<not> isSelected (state ((mContacts h)[p := ?e] ! j))" if "j < length (mContacts h)" for j
          using ns others[of j] that by (cases "j = p") simp_all
        then show ?thesis
          by (simp add: h1 none_selected_def)
      qed
      then have "ch_stopped h \<Longrightarrow> selection_ok h1"
        using p \<open>mCurrentContact h = Some p\<close> by (auto simp: selection_ok_def none_selected_def h1)
      moreover have "names_ok h1 \<and> identities_ok h1"
      proof -
        have "names_ok (put_entry p ?e ?h)" "identities_ok (put_entry p ?e ?h)"
          using inv p by (auto simp: contacts_inv_def same_names_def)
        then show ?thesis
          by (simp add: h1)
      qed
      ultimately show ?thesis
        using r free \<open>mCurrentContact h = Some p\<close> by (simp add: contacts_inv_def) (simp add: h1)
    qed
  qed
qed

lemma contacts_select_chosen:
  assumes "names_ok h" "identities_ok h" "none_selected h" "i < length (mContacts h)"
    and "mCurrentContact h = Some i"
  shows "\<exists>s h'. select_switch (state (mContacts h ! i)) = Some s \<and>
    contacts_notify i (set_state i s h) = Some (\<not> ch_stopped h, h') \<and> contacts_inv h' \<and>
    h' = snd (contacts_queue (state_message i ((mContacts h ! i)\<lparr>state := s\<rparr>))
           (put_entry i ((mContacts h ! i)\<lparr>state := s\<rparr>) h))"
proof -
  obtain s where s: "select_switch (state (mContacts h ! i)) = Some s"
    using assms(3,4) by (cases "select_switch (state (mContacts h ! i))")
      (auto simp: switch_flags none_selected_def flags_of_predicates)
  then have "isSelected s"
    by (simp add: switch_flags flags_of_predicates)
  with assms have "contacts_inv (put_entry i ((mContacts h ! i)\<lparr>state := s\<rparr>) h)"
    by (simp add: contacts_inv_def selection_ok_choose same_names_def)
  with s notify_set_state[OF assms(1,4), of s] show ?thesis
    by (simp add: set_state_put)
qed

lemma contacts_select_total:
  assumes "contacts_inv h"
  shows "\<exists>r h'. contacts_select i h = Some (r, h') \<and> contacts_inv h'"
proof (cases "i < length (mContacts h)")
  case True
  obtain x where "contacts_unselect h = Some x"
    using assms contacts_unselect_eq[of h] by (simp add: contacts_inv_def)
  then obtain c h1 where u: "contacts_unselect h = Some (c, h1)"
    by (cases x) simp
  note st = contacts_unselect_step[OF assms u]
  show ?thesis
  proof (cases c)
    case c: True
    let ?h2 = "h1\<lparr>mCurrentContact := Some i\<rparr>"
    have "names_ok ?h2" "identities_ok ?h2" "none_selected ?h2" "i < length (mContacts ?h2)"
      using st c True by (simp_all add: none_selected_def)
    then obtain s h' where "select_switch (state (mContacts ?h2 ! i)) = Some s"
      "contacts_notify i (set_state i s ?h2) = Some (\<not> ch_stopped ?h2, h')" "contacts_inv h'"
      using contacts_select_chosen[of ?h2 i] by auto
    with True u c show ?thesis
      by (simp add: contacts_select_def)
  next
    case False
    with True u have "contacts_select i h = Some (False, h1)"
      by (simp add: contacts_select_def)
    with st False show ?thesis
      by auto
  qed
qed (use assms in \<open>auto simp: contacts_select_def\<close>)

lemma book_unselect_refines:
  assumes "contacts_inv h" "contacts_unselect h = Some (c, h1)"
  shows "(case book_current (book_of h) of
      None \<Rightarrow> (True, book_of h)
    | Some p \<Rightarrow> if selected (book_flags (book_of h) ! p)
        then book_update p ((book_flags (book_of h) ! p)\<lparr>selected := False\<rparr>) (book_of h)
        else (False, book_of h)) = (c, book_of h1)"
proof (cases "mCurrentContact h")
  case None
  with assms show ?thesis
    by (auto simp: contacts_unselect_def book_of_def)
next
  case (Some p)
  let ?h = "h\<lparr>mPreviousContact := mCurrentContact h\<rparr>"
  have p: "p < length (mContacts h)"
    using assms(1) Some by (simp add: contacts_inv_def selection_ok_def)
  have h: "book_of ?h = book_of h"
    by (simp add: book_of_def)
  have eq: "(c, h1) = (case unselect_switch (state (mContacts h ! p)) of
            None \<Rightarrow> (False, ?h)
          | Some s \<Rightarrow> put_and_notify p ((mContacts h ! p)\<lparr>state := s\<rparr>) ?h)"
    using contacts_unselect_eq[of h] assms Some unfolding contacts_inv_def Let_def by simp
  have f: "book_flags (book_of h) ! p = flags_of (state (mContacts h ! p))"
    using p by (simp add: book_of_def)
  show ?thesis
  proof (cases "unselect_switch (state (mContacts h ! p))")
    case None
    with eq f Some h show ?thesis
      by (simp add: switch_flags) (simp add: book_of_def)
  next
    case s: (Some s)
    then have "selected (book_flags (book_of h) ! p)"
      "flags_of s = (book_flags (book_of h) ! p)\<lparr>selected := False\<rparr>"
      by (simp_all add: f switch_flags)
    moreover have "book_current (book_of h) = Some p"
      using Some by (simp add: book_of_def)
    moreover have "book_update p (flags_of s) (book_of h) = (c, book_of h1)"
      using put_and_notify_book[of p ?h "(mContacts h ! p)\<lparr>state := s\<rparr>"] eq s p h
      by (cases "put_and_notify p ((mContacts h ! p)\<lparr>state := s\<rparr>) ?h") simp
    ultimately show ?thesis
      by simp
  qed
qed

lemma book_select_refines:
  assumes "names_ok h" "identities_ok h" "none_selected h" "i < length (mContacts h)"
    and "\<exists>s. select_switch (state (mContacts h ! i)) = Some s \<and>
      contacts_notify i (set_state i s (h\<lparr>mCurrentContact := Some i\<rparr>)) = Some (r, h')"
  shows "book_select i (book_of h) = (r, book_of h')"
proof -
  let ?h = "h\<lparr>mCurrentContact := Some i\<rparr>"
  obtain s where s: "select_switch (state (mContacts h ! i)) = Some s"
    and n: "contacts_notify i (set_state i s ?h) = Some (r, h')"
    using assms(5) by blast
  have h': "r = (\<not> ch_stopped h)" "book_of h' = book_of (set_state i s ?h)"
    using notify_set_state[of ?h i s] n assms(1,4) by auto
  have "flags_of (state (mContacts h ! i)) \<noteq> flags_of s"
    using s selecting_changes(2) flags_of_inject by blast
  with s h' assms(4) show ?thesis
    by (simp add: book_select_def book_update_def Let_def set_state_put book_of_put)
      (simp add: switch_flags book_of_def)
qed

lemma contacts_select_refines:
  assumes "contacts_inv h" "contacts_select i h = Some (r, h')"
  shows "book_step (book_of h) (ContactsSelect i) = (r, book_of h')"
proof (cases "i < length (mContacts h)")
  case False
  with assms(2) show ?thesis
    by (auto simp: contacts_select_def book_of_def)
next
  case True
  obtain x where "contacts_unselect h = Some x"
    using assms(1) contacts_unselect_eq[of h] by (simp add: contacts_inv_def)
  then obtain c h1 where u: "contacts_unselect h = Some (c, h1)"
    by (cases x) simp
  note st = contacts_unselect_step[OF assms(1) u]
  have un: "(case book_current (book_of h) of
      None \<Rightarrow> (True, book_of h)
    | Some p \<Rightarrow> if selected (book_flags (book_of h) ! p)
        then book_update p ((book_flags (book_of h) ! p)\<lparr>selected := False\<rparr>) (book_of h)
        else (False, book_of h)) = (c, book_of h1)"
    using assms(1) u by (rule book_unselect_refines)
  have sel: "book_select i (book_of h1) = (r, book_of h')" if c
  proof (rule book_select_refines)
    show "names_ok h1" "identities_ok h1" "none_selected h1" "i < length (mContacts h1)"
      using st that True by simp_all
    show "\<exists>s. select_switch (state (mContacts h1 ! i)) = Some s \<and>
      contacts_notify i (set_state i s (h1\<lparr>mCurrentContact := Some i\<rparr>)) = Some (r, h')"
      using assms(2) True u that st contacts_select_chosen[of "h1\<lparr>mCurrentContact := Some i\<rparr>" i]
      by (auto simp: contacts_select_def none_selected_def)
  qed
  have "i < length (book_flags (book_of h))"
    using True by (simp add: book_of_def)
  moreover have "\<not> c \<Longrightarrow> \<not> r \<and> h' = h1"
    using assms(2) True u by (simp add: contacts_select_def)
  ultimately show ?thesis
    using un sel by (cases "book_current (book_of h)"; cases c)
      (auto split: if_splits)
qed

subsection \<open>Creation\<close>

lemma contacts_create_eq:
  assumes "length n < TTCONTACTS_DATA_MAX_LENGTH"
  shows "contacts_create n k a h = Some (\<not> ch_stopped h,
    snd (contacts_queue (state_message (length (mContacts h)) (new_handler_entry n k a))
      (h\<lparr>mContacts := mContacts h @ [new_handler_entry n k a],
         mIdentityMap := (mIdentityMap h)(k \<mapsto> length (mContacts h))\<rparr>)))"
  using assms
  by (simp add: contacts_create_def setNickname_def state_message_def blank_message_def
      contacts_queue_def)

lemma identities_ok_create:
  assumes "identities_ok h"
  shows "identities_ok (h\<lparr>mContacts := mContacts h @ [new_handler_entry n k a],
         mIdentityMap := (mIdentityMap h)(k \<mapsto> length (mContacts h))\<rparr>)"
proof -
  let ?cs = "mContacts h" and ?e = "new_handler_entry n k a"
  have known: "\<And>l i. mIdentityMap h l = Some i \<Longrightarrow> i < length ?cs \<and> identity (?cs ! i) = l"
    and listed: "\<And>j. j < length ?cs \<Longrightarrow>
      \<exists>i. mIdentityMap h (identity (?cs ! j)) = Some i \<and> j \<le> i"
    using assms unfolding identities_ok_def by blast+
  have "i < Suc (length ?cs) \<and> identity ((?cs @ [?e]) ! i) = l"
    if "((mIdentityMap h)(k \<mapsto> length ?cs)) l = Some i" for l i
    using that known[of l i] by (auto simp: nth_append split: if_splits)
  moreover have "\<exists>i. ((mIdentityMap h)(k \<mapsto> length ?cs)) (identity ((?cs @ [?e]) ! j)) = Some i \<and> j \<le> i"
    if "j < Suc (length ?cs)" for j
  proof (cases "j < length ?cs")
    case True
    with listed[of j] known show ?thesis
      by (auto simp: nth_append)
  next
    case False
    with that have "j = length ?cs"
      by simp
    then show ?thesis
      by (simp add: nth_append)
  qed
  ultimately show ?thesis
    unfolding identities_ok_def by (intro conjI allI impI) simp_all
qed

lemma selection_ok_create:
  assumes "selection_ok h"
  shows "selection_ok (h\<lparr>mContacts := mContacts h @ [new_handler_entry n k a], mIdentityMap := m\<rparr>)"
proof (rule selection_okI)
  let ?h = "h\<lparr>mContacts := mContacts h @ [new_handler_entry n k a], mIdentityMap := m\<rparr>"
  fix i assume i: "i < length (mContacts ?h)" "isSelected (state (mContacts ?h ! i))"
  then have "i < length (mContacts h)"
    by (cases "i = length (mContacts h)") (simp_all add: isSelected_def)
  with i show "mCurrentContact ?h = Some i"
    using selection_okD(1)[OF assms] by (simp add: nth_append)
next
  let ?h = "h\<lparr>mContacts := mContacts h @ [new_handler_entry n k a], mIdentityMap := m\<rparr>"
  fix i assume "mCurrentContact ?h = Some i"
  then have "i < length (mContacts h)"
    using selection_okD(2)[OF assms] by simp
  then show "i < length (mContacts ?h)"
    by simp
  show "isSelected (state (mContacts ?h ! i))" if "\<not> ch_stopped ?h"
    using that \<open>i < length (mContacts h)\<close> \<open>mCurrentContact ?h = Some i\<close> selection_okD(3)[OF assms]
    by (simp add: nth_append)
qed

lemma contacts_create_inv:
  assumes "contacts_inv h" "length n < TTCONTACTS_DATA_MAX_LENGTH"
    and "contacts_create n k a h = Some (r, h')"
  shows "contacts_inv h'"
proof -
  let ?h = "h\<lparr>mContacts := mContacts h @ [new_handler_entry n k a],
         mIdentityMap := (mIdentityMap h)(k \<mapsto> length (mContacts h))\<rparr>"
  have "names_ok ?h" "identities_ok ?h" "selection_ok ?h"
    using assms(1,2) by (auto simp: contacts_inv_def names_ok_def
        intro!: identities_ok_create selection_ok_create)
  with assms(2,3) show ?thesis
    by (auto simp: contacts_create_eq contacts_inv_def)
qed

subsection \<open>The handler is a machine that refines the contact book\<close>

lemma switched_selected:
  "send_switch s = Some t \<Longrightarrow> isSelected t = isSelected s"
  "receive_switch s = Some t \<Longrightarrow> isSelected t = isSelected s"
  "isSelected (activate_switch s) = isSelected s"
  "isSelected (deactivate_switch s) = isSelected s"
  by (cases s; auto simp: isSelected_def)+

lemma put_and_notify_some:
  assumes "same_names e (mContacts h ! i)" "i < length (mContacts h)" "contacts_inv h"
    and "isSelected (state e) = isSelected (state (mContacts h ! i))"
  shows "\<exists>r h'. put_and_notify i e h = (r, h') \<and> contacts_inv h'"
  using put_and_notify_inv[OF assms] by (cases "put_and_notify i e h") simp

lemma contacts_step_total:
  assumes inv: "contacts_inv h" and ok: "contacts_op_ok x"
  shows "\<exists>r h'. contacts_step h x = Some (r, h') \<and> contacts_inv h'"
proof -
  have n: "names_ok h"
    using inv by (simp add: contacts_inv_def)
  show ?thesis
  proof (cases x)
    case (ContactsCreate n k a)
    with ok inv show ?thesis
      using contacts_create_inv[OF inv] by (simp add: contacts_create_eq)
  next
    case (ContactsSend i)
    then show ?thesis
      using put_and_notify_some[of _ h i, OF _ _ inv] inv
      by (auto simp: contacts_send_eq[OF n] same_names_def switched_selected split: option.split)
  next
    case (ContactsReceive i)
    then show ?thesis
      using put_and_notify_some[of _ h i, OF _ _ inv] inv
      by (auto simp: contacts_receive_eq[OF n] same_names_def switched_selected split: option.split)
  next
    case (ContactsActivate i)
    then show ?thesis
      using inv put_and_notify_some[OF _ _ inv]
      by (auto simp: contacts_activate_eq[OF n] same_names_def switched_selected)
  next
    case (ContactsDeactivate i)
    then show ?thesis
      using inv put_and_notify_some[OF _ _ inv]
      by (auto simp: contacts_deactivate_eq[OF n] same_names_def switched_selected)
  next
    case (ContactsSelect i)
    with contacts_select_total[OF inv] show ?thesis
      by simp
  next
    case ContactsStop
    have "selection_ok (contacts_stop h)"
      using inv selection_ok_stop by (simp add: contacts_inv_def)
    then have "contacts_inv (contacts_stop h)"
      using inv by (simp add: contacts_inv_def contacts_stop_def)
    with ContactsStop show ?thesis
      by auto
  qed
qed

lemma refine_put:
  "i < length (mContacts h) \<Longrightarrow> put_and_notify i e h = (r, h') \<Longrightarrow>
   book_update i (flags_of (state e)) (book_of h) = (r, book_of h')"
  using put_and_notify_book[of i h e] by simp

lemma contacts_step_refines:
  assumes inv: "contacts_inv h" and ok: "contacts_op_ok x" and st: "contacts_step h x = Some (r, h')"
  shows "book_step (book_of h) x = (r, book_of h')"
proof -
  have n: "names_ok h"
    using inv by (simp add: contacts_inv_def)
  have flags: "i < length (mContacts h) \<Longrightarrow>
      book_flags (book_of h) ! i = flags_of (state (mContacts h ! i))" for i
    by (simp add: book_of_def)
  have len: "length (book_flags (book_of h)) = length (mContacts h)"
    by (simp add: book_of_def)
  show ?thesis
  proof (cases x)
    case (ContactsCreate n k a)
    with ok st show ?thesis
      by (auto simp: contacts_create_eq) (simp_all add: book_of_def)
  next
    case (ContactsSend i)
    show ?thesis
    proof (cases "i < length (mContacts h)")
      case True
      show ?thesis
      proof (cases "send_switch (state (mContacts h ! i))")
        case None
        then have "book_step (book_of h) x = (False, book_of h)"
          using flags[OF True] by (simp add: ContactsSend switch_flags)
        with None ContactsSend True st show ?thesis
          by (simp add: contacts_send_eq[OF n])
      next
        case (Some t)
        with ContactsSend True st refine_put[OF True] show ?thesis
          by (fastforce simp: contacts_send_eq[OF n] len flags switch_flags Let_def)
      qed
    next
      case False
      then have "book_step (book_of h) x = (False, book_of h)"
        by (simp add: ContactsSend len)
      with False ContactsSend st show ?thesis
        by (simp add: contacts_send_eq[OF n])
    qed
  next
    case (ContactsReceive i)
    show ?thesis
    proof (cases "i < length (mContacts h)")
      case True
      show ?thesis
      proof (cases "receive_switch (state (mContacts h ! i))")
        case None
        then have "book_step (book_of h) x = (False, book_of h)"
          using flags[OF True] by (simp add: ContactsReceive switch_flags)
        with None ContactsReceive True st show ?thesis
          by (simp add: contacts_receive_eq[OF n])
      next
        case (Some t)
        with ContactsReceive True st refine_put[OF True] show ?thesis
          by (fastforce simp: contacts_receive_eq[OF n] len flags switch_flags Let_def)
      qed
    next
      case False
      then have "book_step (book_of h) x = (False, book_of h)"
        by (simp add: ContactsReceive len)
      with False ContactsReceive st show ?thesis
        by (simp add: contacts_receive_eq[OF n])
    qed
  next
    case (ContactsActivate i)
    with st show ?thesis
      by (auto simp: contacts_activate_eq[OF n] len flags switch_flags dest!: refine_put split: if_splits)
  next
    case (ContactsDeactivate i)
    with st show ?thesis
      by (auto simp: contacts_deactivate_eq[OF n] len flags switch_flags dest!: refine_put split: if_splits)
  next
    case (ContactsSelect i)
    with contacts_select_refines[OF inv] st show ?thesis
      by simp
  next
    case ContactsStop
    with st show ?thesis
      by (auto simp: book_of_def contacts_stop_def)
  qed
qed

interpretation contacts: refined_machine contacts_step contacts_inv contacts_op_ok book_step book_of
  by unfold_locales (use contacts_step_total contacts_step_refines in blast)+

lemma contacts_inv_init: "contacts_inv init_contacts_handler"
  by (simp add: contacts_inv_def names_ok_def identities_ok_def selection_ok_def
      init_contacts_handler_def)

subsection \<open>Properties\<close>

text \<open>C7: Whatever sequence of calls the engine makes on a fresh contacts handler (creations
  with nicknames under 256 bytes, sends, receptions, activations, deactivations, selections
  and a stop, with any indices), no call aborts, each answers as the abstract contact book of
  four flags for each contact does, and the eight-valued states of the handler read as that
  book's flags at the end.\<close>

theorem contacts_refine_book:
  assumes "list_all contacts_op_ok xs"
  shows "\<exists>rs h. run_ops contacts_step init_contacts_handler xs = Some (rs, h) \<and>
    arun book_step (book_of init_contacts_handler) xs = (rs, book_of h)"
  using contacts.run_total[OF contacts_inv_init assms] contacts.run_refines[OF contacts_inv_init assms]
  by blast

theorem contacts_refine_book_witness:
  "\<exists>rs h. run_ops contacts_step init_contacts_handler
      [ContactsCreate ''bob'' ''b'' ''10.0.0.2:80'', ContactsSelect 0, ContactsDeactivate 0,
       ContactsSend 0, ContactsReceive 7] = Some (rs, h) \<and>
    arun book_step (book_of init_contacts_handler)
      [ContactsCreate ''bob'' ''b'' ''10.0.0.2:80'', ContactsSelect 0, ContactsDeactivate 0,
       ContactsSend 0, ContactsReceive 7] = (rs, book_of h)"
  by (rule contacts_refine_book) (simp add: TTCONTACTS_DATA_MAX_LENGTH_def)

text \<open>After any such sequence of calls at most one contact is in a selected state, it is
  the handler's current contact, and while the handler is not stopped the current contact is
  selected.\<close>

theorem contacts_one_selected:
  assumes "list_all contacts_op_ok xs"
    and "run_ops contacts_step init_contacts_handler xs = Some (rs, h)"
  shows "(\<forall>i e. contacts_get i h = Some e \<and> isSelected (state e) \<longrightarrow> contacts_current h = Some i) \<and>
    (\<forall>i. contacts_current h = Some i \<longrightarrow>
       (\<exists>e. contacts_get i h = Some e \<and> (isSelected (state e) \<or> ch_stopped h)))"
proof -
  have "selection_ok h"
    using contacts.run_inv[OF contacts_inv_init assms] by (simp add: contacts_inv_def)
  note sel = selection_okD[OF this]
  show ?thesis
  proof (intro conjI allI impI)
    fix i e assume "contacts_get i h = Some e \<and> isSelected (state e)"
    then show "contacts_current h = Some i"
      using sel(1) by (auto simp: contacts_get_def contacts_current_def split: if_splits)
  next
    fix i assume "contacts_current h = Some i"
    then show "\<exists>e. contacts_get i h = Some e \<and> (isSelected (state e) \<or> ch_stopped h)"
      using sel(2,3) by (auto simp: contacts_get_def contacts_current_def)
  qed
qed

theorem contacts_one_selected_witness:
  "let xs = [ContactsCreate ''ann'' ''a'' ''x'', ContactsCreate ''bob'' ''b'' ''y'',
       ContactsSelect 0, ContactsSelect 1]
   in \<exists>rs h. run_ops contacts_step init_contacts_handler xs = Some (rs, h) \<and>
     (\<forall>i e. contacts_get i h = Some e \<and> isSelected (state e) \<longrightarrow> contacts_current h = Some i) \<and>
     contacts_current h = Some 1"
proof -
  let ?xs = "[ContactsCreate ''ann'' ''a'' ''x'', ContactsCreate ''bob'' ''b'' ''y'',
       ContactsSelect 0, ContactsSelect 1]"
  have ok: "list_all contacts_op_ok ?xs"
    by (simp add: TTCONTACTS_DATA_MAX_LENGTH_def)
  obtain rs h where run: "run_ops contacts_step init_contacts_handler ?xs = Some (rs, h)"
    using contacts.run_total[OF contacts_inv_init ok] by blast
  have "arun book_step (book_of init_contacts_handler) ?xs = (rs, book_of h)"
    using contacts.run_refines[OF contacts_inv_init ok run] .
  then have "book_current (book_of h) = Some 1"
    by (auto simp: book_of_def init_contacts_handler_def book_select_def book_update_def Let_def)
  with contacts_one_selected[OF ok run] run show ?thesis
    unfolding Let_def by (auto simp: book_of_def contacts_current_def)
qed

text \<open>After any such sequence of calls looking an identity up gives the index of a contact
  with that identity, and every stored contact's identity is found, at the contact itself or
  at one created after it with the same identity.\<close>

theorem contacts_find_get:
  assumes "list_all contacts_op_ok xs"
    and "run_ops contacts_step init_contacts_handler xs = Some (rs, h)"
  shows "(\<forall>k i. contacts_find k h = Some i \<longrightarrow> (\<exists>e. contacts_get i h = Some e \<and> identity e = k)) \<and>
    (\<forall>j e. contacts_get j h = Some e \<longrightarrow> (\<exists>i \<ge> j. contacts_find (identity e) h = Some i))"
proof -
  have "identities_ok h"
    using contacts.run_inv[OF contacts_inv_init assms] by (simp add: contacts_inv_def)
  then have known: "\<And>k i. mIdentityMap h k = Some i \<Longrightarrow>
        i < length (mContacts h) \<and> identity (mContacts h ! i) = k"
    and listed: "\<And>j. j < length (mContacts h) \<Longrightarrow>
        \<exists>i. mIdentityMap h (identity (mContacts h ! j)) = Some i \<and> j \<le> i"
    unfolding identities_ok_def by blast+
  show ?thesis
  proof (intro conjI allI impI)
    fix k i assume "contacts_find k h = Some i"
    with known show "\<exists>e. contacts_get i h = Some e \<and> identity e = k"
      by (auto simp: contacts_find_def contacts_get_def not_le)
  next
    fix j e assume "contacts_get j h = Some e"
    with listed show "\<exists>i \<ge> j. contacts_find (identity e) h = Some i"
      by (fastforce simp: contacts_find_def contacts_get_def not_le split: if_splits)
  qed
qed

theorem contacts_find_get_witness:
  "let xs = [ContactsCreate ''ann'' ''a'' ''x'', ContactsCreate ''bob'' ''a'' ''y'']
   in \<exists>rs h. run_ops contacts_step init_contacts_handler xs = Some (rs, h) \<and>
     (\<forall>k i. contacts_find k h = Some i \<longrightarrow> (\<exists>e. contacts_get i h = Some e \<and> identity e = k))"
proof -
  let ?xs = "[ContactsCreate ''ann'' ''a'' ''x'', ContactsCreate ''bob'' ''a'' ''y'']"
  have ok: "list_all contacts_op_ok ?xs"
    by (simp add: TTCONTACTS_DATA_MAX_LENGTH_def)
  obtain rs h where run: "run_ops contacts_step init_contacts_handler ?xs = Some (rs, h)"
    using contacts.run_total[OF contacts_inv_init ok] by blast
  with contacts_find_get[OF ok run] show ?thesis
    unfolding Let_def by blast
qed

end
