(* ===== verification/Contacts_Window.thy ===== *)
theory Contacts_Window
  imports Contacts_Book
begin

text \<open>
  \<open>TTContacts\<close> (contacts/src/TTContacts.cpp): the process that shows the contacts, fed by
  the handler's messages.  \<open>None\<close> is the out-of-range write \<open>mEntries[identity]\<close> that the
  code leaves undefined.  The terminal is the string of everything printed.

  The lemmas show that the handler and the window stay in step: whatever the engine does,
  delivering the queued messages in order never fails and leaves the window with exactly the
  handler's contacts.
\<close>

subsection \<open>The window\<close>

record contacts_window =
  cw_stopped :: bool
  mEntries :: "contacts_entry list"
  cw_out :: string

definition init_contacts_window :: contacts_window where
  "init_contacts_window = \<lparr>cw_stopped = False, mEntries = [], cw_out = ''''\<rparr>"

definition statuses :: "string list" where
  "statuses = ['''', ''?'', ''<'', ''<?'', ''@'', ''@?'', ''!?'', ''<!?'']"

definition entry_line :: "contacts_entry \<Rightarrow> string" where
  "entry_line e = ''#'' @ to_string (ce_identity e) @ '' '' @ ce_nickname e @ '' '' @
     (statuses ! state_value (ce_state e)) @ NEWLINE"

definition contacts_screen :: "contacts_entry list \<Rightarrow> string" where
  "contacts_screen es = CLEAR_SCREEN @ concat (map entry_line es)"

definition contacts_refresh :: "contacts_window \<Rightarrow> bool \<times> contacts_window" where
  "contacts_refresh w = (True, w\<lparr>cw_out := cw_out w @ contacts_screen (mEntries w)\<rparr>)"

definition contacts_handle :: "contacts_message \<Rightarrow> contacts_window \<Rightarrow> (bool \<times> contacts_window) option" where
  "contacts_handle m w =
     (case mStatus m of
        STATE \<Rightarrow>
          if mState m = ACTIVE \<and> length (mEntries w) \<le> mIdentity m then
            Some (contacts_refresh (w\<lparr>mEntries := mEntries w @
              [\<lparr>ce_identity = mIdentity m, ce_state = mState m, ce_nickname = getNickname m\<rparr>]\<rparr>))
          else if mIdentity m < length (mEntries w) then
            Some (contacts_refresh (w\<lparr>mEntries := (mEntries w)
              [mIdentity m := (mEntries w ! mIdentity m)\<lparr>ce_state := mState m\<rparr>]\<rparr>))
          else None
      | CONTACTS_HEARTBEAT \<Rightarrow> Some (True, w)
      | CONTACTS_GOODBYE \<Rightarrow> Some (False, w)
      | STATUS_OTHER n \<Rightarrow> Some (False, w))"

text \<open>
  The loop of \<open>run\<close> on what \<open>mSharedMem->receive\<close> returns (\<open>None\<close> for a failed receive);
  at the end of the list the loop waits for the next message.
\<close>

fun contacts_run :: "contacts_window \<Rightarrow> contacts_message option list \<Rightarrow> contacts_window option" where
  "contacts_run w [] = Some w"
| "contacts_run w (r # rs) =
     (if cw_stopped w then Some (w\<lparr>cw_stopped := True\<rparr>)
      else case r of
        None \<Rightarrow> Some (w\<lparr>cw_stopped := True\<rparr>)
      | Some m \<Rightarrow>
          (case contacts_handle m w of
             None \<Rightarrow> None
           | Some (False, w1) \<Rightarrow> Some (w1\<lparr>cw_stopped := True\<rparr>)
           | Some (True, w1) \<Rightarrow> contacts_run w1 rs))"

subsection \<open>The entries a list of messages leaves\<close>

definition entries_handle :: "contacts_entry list \<Rightarrow> contacts_message \<Rightarrow> contacts_entry list option" where
  "entries_handle es m = map_option (\<lambda>(r, w). mEntries w)
     (contacts_handle m \<lparr>cw_stopped = False, mEntries = es, cw_out = ''''\<rparr>)"

fun entries_after :: "contacts_entry list \<Rightarrow> contacts_message list \<Rightarrow> contacts_entry list option" where
  "entries_after es [] = Some es"
| "entries_after es (m # ms) =
     (case entries_handle es m of None \<Rightarrow> None | Some es1 \<Rightarrow> entries_after es1 ms)"

lemma entries_after_append:
  "entries_after es (ms @ ms') =
     (case entries_after es ms of None \<Rightarrow> None | Some es1 \<Rightarrow> entries_after es1 ms')"
  by (induction ms arbitrary: es) (auto split: option.splits)

lemma contacts_handle_entries:
  "contacts_handle m w = None \<longleftrightarrow> entries_handle (mEntries w) m = None"
  "contacts_handle m w = Some (r, w1) \<Longrightarrow> entries_handle (mEntries w) m = Some (mEntries w1)"
  by (auto simp: entries_handle_def contacts_handle_def contacts_refresh_def
      split: contacts_status.splits if_splits)

lemma contacts_handle_frame:
  "contacts_handle m w = Some (r, w1) \<Longrightarrow> cw_stopped w1 = cw_stopped w"
  by (auto simp: contacts_handle_def contacts_refresh_def split: contacts_status.splits if_splits)

lemma contacts_handle_screen:
  "contacts_handle m w = Some (r, w1) \<Longrightarrow> mStatus m = STATE \<Longrightarrow>
   cw_out w1 = cw_out w @ contacts_screen (mEntries w1)"
  by (auto simp: contacts_handle_def contacts_refresh_def split: if_splits)

subsection \<open>The handler's contacts as the window shows them\<close>

definition entry_of :: "nat \<Rightarrow> handler_entry \<Rightarrow> contacts_entry" where
  "entry_of i e = \<lparr>ce_identity = i, ce_state = state e, ce_nickname = nickname e\<rparr>"

definition mirror :: "contacts_handler \<Rightarrow> contacts_entry list" where
  "mirror h = map (\<lambda>(i, e). entry_of i e) (enumerate 0 (mContacts h))"

lemma length_mirror [simp]: "length (mirror h) = length (mContacts h)"
  by (simp add: mirror_def)

lemma nth_mirror [simp]:
  "i < length (mContacts h) \<Longrightarrow> mirror h ! i = entry_of i (mContacts h ! i)"
  by (simp add: mirror_def nth_enumerate_eq)

lemma mirror_queue [simp]: "mirror (snd (contacts_queue m h)) = mirror h"
  by (simp add: mirror_def)

lemma mirror_frames [simp]:
  "mirror (h\<lparr>mCurrentContact := c\<rparr>) = mirror h"
  "mirror (h\<lparr>mPreviousContact := c\<rparr>) = mirror h"
  "mirror (h\<lparr>mQueuedMessages := q\<rparr>) = mirror h"
  "mirror (contacts_stop h) = mirror h"
  by (simp_all add: mirror_def contacts_stop_def)

lemma mirror_put:
  "i < length (mContacts h) \<Longrightarrow> mirror (put_entry i e h) = (mirror h)[i := entry_of i e]"
  by (rule nth_equalityI) (auto simp: nth_list_update)

lemma mirror_put_same:
  assumes "i < length (mContacts h)" "state e = state (mContacts h ! i)"
    and "same_names e (mContacts h ! i)"
  shows "mirror (put_entry i e h) = mirror h"
proof -
  have "entry_of i e = mirror h ! i"
    using assms by (simp add: entry_of_def same_names_def)
  with assms(1) list_update_id[of "mirror h" i] show ?thesis
    by (simp add: mirror_put)
qed

lemma mirror_announce:
  assumes "i < length (mContacts h)" "same_names e (mContacts h ! i)"
  shows "entries_handle (mirror h) (state_message i e) = Some (mirror (put_entry i e h))"
proof -
  have "(mirror h ! i)\<lparr>ce_state := state e\<rparr> = entry_of i e"
    using assms by (simp add: entry_of_def same_names_def)
  with assms(1) show ?thesis
    by (simp add: entries_handle_def contacts_handle_def contacts_refresh_def mirror_put)
qed

lemma mirror_create:
  fixes k a m
  shows "entries_handle (mirror h) (state_message (length (mContacts h)) (new_handler_entry n k a)) =
    Some (mirror (h\<lparr>mContacts := mContacts h @ [new_handler_entry n k a], mIdentityMap := m\<rparr>))"
proof -
  let ?h = "h\<lparr>mContacts := mContacts h @ [new_handler_entry n k a], mIdentityMap := m\<rparr>"
  have "mirror ?h = mirror h @ [entry_of (length (mContacts h)) (new_handler_entry n k a)]"
    by (rule nth_equalityI) (auto simp: nth_append less_Suc_eq)
  then show ?thesis
    by (simp add: entries_handle_def contacts_handle_def contacts_refresh_def entry_of_def)
qed

subsection \<open>Every operation announces what it changes\<close>

text \<open>
  \<open>announces h h'\<close>: what was queued between the two states takes the window from the
  contacts of the first to those of the second, or nothing was queued and the handler is
  stopped.
\<close>

definition announces :: "contacts_handler \<Rightarrow> contacts_handler \<Rightarrow> bool" where
  "announces h h' \<longleftrightarrow> (\<exists>ms. mQueuedMessages h' = mQueuedMessages h @ ms \<and>
     (if ch_stopped h then ms = [] else entries_after (mirror h) ms = Some (mirror h')))"

lemma announces_silent:
  "mQueuedMessages h' = mQueuedMessages h \<Longrightarrow> mirror h' = mirror h \<Longrightarrow> announces h h'"
  by (auto simp: announces_def intro: exI[of _ "[]"])

lemma announces_trans:
  assumes "announces h h1" "announces h1 h2" "ch_stopped h1 = ch_stopped h"
  shows "announces h h2"
proof -
  obtain ms ms' where "mQueuedMessages h1 = mQueuedMessages h @ ms"
    "if ch_stopped h then ms = [] else entries_after (mirror h) ms = Some (mirror h1)"
    "mQueuedMessages h2 = mQueuedMessages h1 @ ms'"
    "if ch_stopped h then ms' = [] else entries_after (mirror h1) ms' = Some (mirror h2)"
    using assms unfolding announces_def by auto
  then show ?thesis
    unfolding announces_def by (intro exI[of _ "ms @ ms'"]) (auto simp: entries_after_append)
qed

lemma announces_put:
  assumes "i < length (mContacts h)" "same_names e (mContacts h ! i)"
    and "put_and_notify i e h = (r, h')"
  shows "announces h h'"
proof (cases "state (mContacts h ! i) = state e")
  case True
  with assms show ?thesis
    using mirror_put_same[of i h e]
    by (intro announces_silent) (auto simp: put_and_notify_def)
next
  case False
  with assms mirror_announce[OF assms(1,2)] show ?thesis
    unfolding announces_def
    by (intro exI[of _ "if ch_stopped h then [] else [state_message i e]"])
      (auto simp: put_and_notify_def)
qed

lemma announces_unselect:
  assumes "contacts_inv h" "contacts_unselect h = Some (r, h1)"
  shows "announces h h1"
proof -
  let ?h = "h\<lparr>mPreviousContact := mCurrentContact h\<rparr>"
  have silent: "announces h ?h"
    by (rule announces_silent) simp_all
  have eq: "(r, h1) = (case mCurrentContact h of
       None \<Rightarrow> (True, ?h)
     | Some p \<Rightarrow>
         (case unselect_switch (state (mContacts h ! p)) of
            None \<Rightarrow> (False, ?h)
          | Some s \<Rightarrow> put_and_notify p ((mContacts h ! p)\<lparr>state := s\<rparr>) ?h))"
    using contacts_unselect_eq[of h] assms unfolding contacts_inv_def Let_def by simp
  show ?thesis
  proof (cases "mCurrentContact h")
    case None
    with eq silent show ?thesis
      by simp
  next
    case (Some p)
    then have p: "p < length (mContacts ?h)"
      using assms(1) selection_okD(2) by (simp add: contacts_inv_def)
    show ?thesis
    proof (cases "unselect_switch (state (mContacts h ! p))")
      case None
      with eq Some silent show ?thesis
        by simp
    next
      case (Some s)
      with eq \<open>mCurrentContact h = Some p\<close>
      have "put_and_notify p ((mContacts h ! p)\<lparr>state := s\<rparr>) ?h = (r, h1)"
        by simp
      then have "announces ?h h1"
        by (rule announces_put[rotated 2]) (use p in \<open>simp_all add: same_names_def\<close>)
      with silent show ?thesis
        by (rule announces_trans) simp
    qed
  qed
qed

lemma announces_select:
  assumes "contacts_inv h" "contacts_select i h = Some (r, h')"
  shows "announces h h'"
proof (cases "i < length (mContacts h)")
  case False
  with assms(2) show ?thesis
    by (auto simp: contacts_select_def intro: announces_silent)
next
  case True
  obtain x where "contacts_unselect h = Some x"
    using assms(1) contacts_unselect_eq[of h] by (simp add: contacts_inv_def)
  then obtain c h1 where u: "contacts_unselect h = Some (c, h1)"
    by (cases x) simp
  note st = contacts_unselect_step[OF assms(1) u] and an = announces_unselect[OF assms(1) u]
  show ?thesis
  proof (cases c)
    case False
    with u True assms(2) an show ?thesis
      by (auto simp: contacts_select_def)
  next
    case c: True
    let ?h2 = "h1\<lparr>mCurrentContact := Some i\<rparr>"
    have "names_ok ?h2" "identities_ok ?h2" "none_selected ?h2" "i < length (mContacts ?h2)"
      using st c True by (simp_all add: none_selected_def)
    then obtain s where s: "select_switch (state (mContacts ?h2 ! i)) = Some s"
      and n: "contacts_notify i (set_state i s ?h2) = Some (r, h')"
      and h': "h' = snd (contacts_queue (state_message i ((mContacts ?h2 ! i)\<lparr>state := s\<rparr>))
           (put_entry i ((mContacts ?h2 ! i)\<lparr>state := s\<rparr>) ?h2))"
      using contacts_select_chosen[of ?h2 i] assms(2) u True c by (auto simp: contacts_select_def)
    have "put_and_notify i ((mContacts ?h2 ! i)\<lparr>state := s\<rparr>) ?h2 = (\<not> ch_stopped ?h2, h')"
      using selecting_changes(2)[OF s] h' by (simp add: put_and_notify_def)
    then have "announces ?h2 h'"
      by (rule announces_put[rotated 2]) (use st True in \<open>simp_all add: same_names_def\<close>)
    moreover have "announces h1 ?h2"
      by (rule announces_silent) simp_all
    ultimately have "announces h1 h'"
      using announces_trans[of h1 ?h2 h'] by simp
    with an show ?thesis
      using st by (intro announces_trans[of h h1 h']) auto
  qed
qed

lemma contacts_step_announces:
  assumes inv: "contacts_inv h" and ok: "contacts_op_ok x" and st: "contacts_step h x = Some (r, h')"
  shows "announces h h'"
proof -
  have n: "names_ok h"
    using inv by (simp add: contacts_inv_def)
  have silent: "announces h h"
    by (rule announces_silent) simp_all
  have put: "put_and_notify i e h = (r, h') \<Longrightarrow> i < length (mContacts h) \<Longrightarrow>
      same_names e (mContacts h ! i) \<Longrightarrow> announces h h'" for i e
    using announces_put by blast
  show ?thesis
  proof (cases x)
    case (ContactsCreate m k a)
    let ?h = "h\<lparr>mContacts := mContacts h @ [new_handler_entry m k a],
         mIdentityMap := (mIdentityMap h)(k \<mapsto> length (mContacts h))\<rparr>"
    let ?ms = "if ch_stopped h then []
        else [state_message (length (mContacts h)) (new_handler_entry m k a)]"
    have "h' = snd (contacts_queue (state_message (length (mContacts h)) (new_handler_entry m k a)) ?h)"
      using ContactsCreate ok st by (simp add: contacts_create_eq)
    then show ?thesis
      using mirror_create[of h m k a "(mIdentityMap h)(k \<mapsto> length (mContacts h))"]
      unfolding announces_def by (intro exI[of _ ?ms]) simp
  next
    case (ContactsSend i)
    with st silent put show ?thesis
      by (auto simp: contacts_send_eq[OF n] same_names_def split: if_splits option.splits)
  next
    case (ContactsReceive i)
    with st silent put show ?thesis
      by (auto simp: contacts_receive_eq[OF n] same_names_def split: if_splits option.splits)
  next
    case (ContactsActivate i)
    with st silent put show ?thesis
      by (auto simp: contacts_activate_eq[OF n] same_names_def split: if_splits)
  next
    case (ContactsDeactivate i)
    with st silent put show ?thesis
      by (auto simp: contacts_deactivate_eq[OF n] same_names_def split: if_splits)
  next
    case (ContactsSelect i)
    with announces_select[OF inv] st show ?thesis
      by simp
  next
    case ContactsStop
    with st show ?thesis
      by (intro announces_silent) (auto simp: contacts_stop_def mirror_def)
  qed
qed

subsection \<open>Handler and window together\<close>

text \<open>
  The engine's calls on the handler, interleaved in any order with the delivery of the oldest
  queued message, which the sender thread puts into shared memory and the window takes out.
\<close>

record contacts_system =
  sys_handler :: contacts_handler
  sys_window :: contacts_window

datatype contacts_event = Call contacts_op | Deliver

definition contacts_deliver :: "contacts_system \<Rightarrow> (bool \<times> contacts_system) option" where
  "contacts_deliver s =
     (case mQueuedMessages (sys_handler s) of
        [] \<Rightarrow> Some (False, s)
      | m # ms \<Rightarrow>
          (case contacts_handle m (sys_window s) of
             None \<Rightarrow> None
           | Some (r, w) \<Rightarrow>
               Some (r, \<lparr>sys_handler = (sys_handler s)\<lparr>mQueuedMessages := ms\<rparr>, sys_window = w\<rparr>)))"

primrec contacts_system_step :: "contacts_system \<Rightarrow> contacts_event \<Rightarrow> (bool \<times> contacts_system) option" where
  "contacts_system_step s (Call x) =
     (case contacts_step (sys_handler s) x of
        None \<Rightarrow> None
      | Some (r, h) \<Rightarrow> Some (r, s\<lparr>sys_handler := h\<rparr>))"
| "contacts_system_step s Deliver = contacts_deliver s"

definition init_contacts_system :: contacts_system where
  "init_contacts_system =
     \<lparr>sys_handler = init_contacts_handler, sys_window = init_contacts_window\<rparr>"

primrec contacts_event_ok :: "contacts_event \<Rightarrow> bool" where
  "contacts_event_ok (Call x) = contacts_op_ok x"
| "contacts_event_ok Deliver = True"

definition contacts_system_inv :: "contacts_system \<Rightarrow> bool" where
  "contacts_system_inv s \<longleftrightarrow> contacts_inv (sys_handler s) \<and>
     (\<exists>es. entries_after (mEntries (sys_window s)) (mQueuedMessages (sys_handler s)) = Some es \<and>
        (ch_stopped (sys_handler s) \<or> es = mirror (sys_handler s))) \<and>
     (mEntries (sys_window s) = [] \<or>
        (\<exists>p. cw_out (sys_window s) = p @ contacts_screen (mEntries (sys_window s))))"

lemma ch_stopped_step:
  assumes "contacts_inv h" "contacts_op_ok x" "contacts_step h x = Some (r, h')" "ch_stopped h"
  shows "ch_stopped h'"
proof -
  have "book_stopped (snd (book_step (book_of h) x))"
    using assms(4) by (cases x) (auto simp: book_of_def book_update_def book_select_def Let_def split: option.split)
  with contacts_step_refines[OF assms(1-3)] show ?thesis
    by (simp add: book_of_def)
qed

lemma entries_after_queue:
  assumes "contacts_inv h" "contacts_op_ok x" "contacts_step h x = Some (r, h')"
    and "entries_after es0 (mQueuedMessages h) = Some es" "ch_stopped h \<or> es = mirror h"
  shows "\<exists>es'. entries_after es0 (mQueuedMessages h') = Some es' \<and> (ch_stopped h' \<or> es' = mirror h')"
proof -
  obtain ms where ms: "mQueuedMessages h' = mQueuedMessages h @ ms"
    "if ch_stopped h then ms = [] else entries_after (mirror h) ms = Some (mirror h')"
    using contacts_step_announces[OF assms(1-3)] unfolding announces_def by blast
  show ?thesis
  proof (cases "ch_stopped h")
    case True
    with ms assms ch_stopped_step[OF assms(1-3)] show ?thesis
      by simp
  next
    case False
    with ms assms(4,5) show ?thesis
      by (simp add: entries_after_append)
  qed
qed

lemma contacts_deliver_ok:
  assumes "contacts_system_inv s"
  shows "\<exists>r s'. contacts_deliver s = Some (r, s') \<and> contacts_system_inv s'"
proof (cases "mQueuedMessages (sys_handler s)")
  case Nil
  with assms show ?thesis
    by (auto simp: contacts_deliver_def)
next
  case (Cons m ms)
  let ?h = "sys_handler s" and ?w = "sys_window s"
  obtain es es1 where es: "entries_handle (mEntries ?w) m = Some es1" "entries_after es1 ms = Some es"
    "ch_stopped ?h \<or> es = mirror ?h"
    using assms Cons by (auto simp: contacts_system_inv_def split: option.splits)
  then obtain r w1 where w1: "contacts_handle m ?w = Some (r, w1)"
    using contacts_handle_entries(1)[of m ?w] by (cases "contacts_handle m ?w") auto
  then have es1: "es1 = mEntries w1"
    using contacts_handle_entries(2)[OF w1] es by simp
  have screen: "mEntries w1 = [] \<or> (\<exists>p. cw_out w1 = p @ contacts_screen (mEntries w1))"
  proof (cases "mStatus m = STATE")
    case True
    with contacts_handle_screen[OF w1] show ?thesis
      by blast
  next
    case False
    with w1 have "w1 = ?w"
      by (auto simp: contacts_handle_def split: contacts_status.splits)
    with assms show ?thesis
      by (simp add: contacts_system_inv_def)
  qed
  have "contacts_inv (?h\<lparr>mQueuedMessages := ms\<rparr>)" "mirror (?h\<lparr>mQueuedMessages := ms\<rparr>) = mirror ?h"
    using assms by (simp_all add: contacts_system_inv_def contacts_inv_def)
  with Cons w1 es es1 screen show ?thesis
    by (simp add: contacts_deliver_def contacts_system_inv_def)
qed

interpretation contacts_pair: machine contacts_system_step contacts_system_inv contacts_event_ok
proof
  fix s x
  assume inv: "contacts_system_inv s" and ok: "contacts_event_ok x"
  show "\<exists>r s'. contacts_system_step s x = Some (r, s') \<and> contacts_system_inv s'"
  proof (cases x)
    case (Call y)
    have h: "contacts_inv (sys_handler s)" and y: "contacts_op_ok y"
      using inv ok Call by (simp_all add: contacts_system_inv_def)
    obtain r h' where st: "contacts_step (sys_handler s) y = Some (r, h')" "contacts_inv h'"
      using contacts_step_total[OF h y] by blast
    have "contacts_system_inv (s\<lparr>sys_handler := h'\<rparr>)"
      using inv st(2) entries_after_queue[OF h y st(1)] by (auto simp: contacts_system_inv_def)
    with Call st show ?thesis
      by simp
  next
    case Deliver
    with contacts_deliver_ok[OF inv] show ?thesis
      by simp
  qed
qed

lemma contacts_system_inv_init: "contacts_system_inv init_contacts_system"
  by (simp add: contacts_system_inv_def init_contacts_system_def contacts_inv_init
      init_contacts_window_def mirror_def) (simp add: init_contacts_handler_def)

subsection \<open>Properties\<close>

text \<open>C9: However the engine's calls on the contacts handler are interleaved with the
  delivery of the queued messages to the contacts process, no call aborts and the contacts
  process never writes outside its entries; and whenever the queue has been delivered while
  the handler is not stopped, the entries of the window are exactly the handler's contacts,
  in order, with their states and nicknames, and the last screen drawn shows them.\<close>

theorem contacts_window_in_step:
  assumes "list_all contacts_event_ok xs"
  shows "\<exists>rs s. run_ops contacts_system_step init_contacts_system xs = Some (rs, s) \<and>
    (mQueuedMessages (sys_handler s) = [] \<and> \<not> ch_stopped (sys_handler s) \<longrightarrow>
       mEntries (sys_window s) = mirror (sys_handler s) \<and>
       (mContacts (sys_handler s) = [] \<or>
          (\<exists>p. cw_out (sys_window s) = p @ contacts_screen (mirror (sys_handler s)))))"
proof -
  obtain rs s where run: "run_ops contacts_system_step init_contacts_system xs = Some (rs, s)"
    and inv: "contacts_system_inv s"
    using contacts_pair.run_total[OF contacts_system_inv_init assms] by blast
  have "mirror (sys_handler s) = [] \<Longrightarrow> mContacts (sys_handler s) = []"
    by (metis length_0_conv length_mirror)
  with inv run show ?thesis
    by (auto simp: contacts_system_inv_def)
qed

theorem contacts_window_in_step_witness:
  "let xs = [Call (ContactsCreate ''bob'' ''b'' ''y''), Deliver, Call (ContactsSelect 0), Deliver]
   in \<exists>rs s. run_ops contacts_system_step init_contacts_system xs = Some (rs, s) \<and>
     mEntries (sys_window s) = mirror (sys_handler s)"
proof -
  let ?xs = "[Call (ContactsCreate ''bob'' ''b'' ''y''), Deliver, Call (ContactsSelect 0), Deliver]"
  have ok: "list_all contacts_event_ok ?xs"
    by (simp add: TTCONTACTS_DATA_MAX_LENGTH_def)
  obtain rs s where run: "run_ops contacts_system_step init_contacts_system ?xs = Some (rs, s)"
    and res: "mQueuedMessages (sys_handler s) = [] \<and> \<not> ch_stopped (sys_handler s) \<longrightarrow>
       mEntries (sys_window s) = mirror (sys_handler s)"
    using contacts_window_in_step[OF ok] by blast
  have "mQueuedMessages (sys_handler s) = [] \<and> \<not> ch_stopped (sys_handler s)"
    using run by (auto simp: init_contacts_system_def init_contacts_handler_def
        init_contacts_window_def contacts_create_def setNickname_def contacts_queue_def
        blank_message_def TTCONTACTS_DATA_MAX_LENGTH_def contacts_deliver_def contacts_handle_def
        contacts_refresh_def contacts_select_def contacts_unselect_def contacts_notify_def
        set_state_def Let_def split: option.splits)
  with res run show ?thesis
    unfolding Let_def by blast
qed

end
