(* ===== verification/Pump_Spec.thy ===== *)
theory Pump_Spec
  imports Main "HOL-Library.Sublist"
begin

text \<open>
  What a sender thread promises.  Three classes of the program (\<open>TTContactsHandler\<close>,
  \<open>TTChatHandler\<close>, \<open>TTTextBox\<close>) own a thread that moves queued messages to another process
  while other threads fill the queue and may stop it.  The contract is a channel: messages are
  accepted at one end and delivered at the other in the order they were accepted, until the channel
  is closed, with one goodbye message at most as the last delivery.

  The locales hold what follows for every thread that implements it: \<open>worker\<close> is a thread with an
  invariant that it and everybody else keeps, \<open>pump\<close> a worker simulated by the channel, and
  \<open>stoppable\<close> a worker that leaves within a bounded number of its own steps once it is
  stopped.  Each sender thread interprets them on its model.
\<close>

subsection \<open>Runs of a thread among others\<close>

text \<open>Runs, counting the steps the thread itself takes in them.\<close>

inductive runs ::
  "('s \<Rightarrow> 's \<Rightarrow> bool) \<Rightarrow> ('s \<Rightarrow> 's \<Rightarrow> bool) \<Rightarrow> nat \<Rightarrow> 's \<Rightarrow> 's \<Rightarrow> bool" for own others where
  runs_nil: "runs own others 0 s s"
| runs_own: "runs own others n s t \<Longrightarrow> own t u \<Longrightarrow> runs own others (Suc n) s u"
| runs_others: "runs own others n s t \<Longrightarrow> others t u \<Longrightarrow> runs own others n s u"

locale worker =
  fixes own :: "'s \<Rightarrow> 's \<Rightarrow> bool"
    and others :: "'s \<Rightarrow> 's \<Rightarrow> bool"
    and init :: 's
    and inv :: "'s \<Rightarrow> bool"
  assumes inv_init: "inv init"
    and inv_own: "inv s \<Longrightarrow> own s t \<Longrightarrow> inv t"
    and inv_others: "inv s \<Longrightarrow> others s t \<Longrightarrow> inv t"
begin

lemma runs_inv: "runs own others n s t \<Longrightarrow> inv s \<Longrightarrow> inv t"
  by (induction rule: runs.induct) (auto dest: inv_own inv_others)

lemma reachable_inv: "runs own others n init s \<Longrightarrow> inv s"
  using runs_inv inv_init by blast

end

subsection \<open>The channel\<close>

record 'm channel =
  ch_accepted :: "'m list"
  ch_wire :: "'m list"
  ch_closed :: bool

definition open_channel :: "'m channel" where
  "open_channel = \<lparr>ch_accepted = [], ch_wire = [], ch_closed = False\<rparr>"

inductive channel_step :: "'m \<Rightarrow> 'm channel \<Rightarrow> 'm channel \<Rightarrow> bool" for bye where
  ch_accept: "channel_step bye \<lparr>ch_accepted = a, ch_wire = w, ch_closed = c\<rparr>
     \<lparr>ch_accepted = a @ [m], ch_wire = w, ch_closed = c\<rparr>"
| ch_deliver: "prefix (w @ [m]) a \<Longrightarrow>
     channel_step bye \<lparr>ch_accepted = a, ch_wire = w, ch_closed = False\<rparr>
       \<lparr>ch_accepted = a, ch_wire = w @ [m], ch_closed = False\<rparr>"
| ch_close: "channel_step bye \<lparr>ch_accepted = a, ch_wire = w, ch_closed = False\<rparr>
     \<lparr>ch_accepted = a, ch_wire = w, ch_closed = True\<rparr>"
| ch_goodbye: "channel_step bye \<lparr>ch_accepted = a, ch_wire = w, ch_closed = False\<rparr>
     \<lparr>ch_accepted = a, ch_wire = w @ [bye], ch_closed = True\<rparr>"

definition in_order :: "'m \<Rightarrow> 'm channel \<Rightarrow> bool" where
  "in_order bye c \<longleftrightarrow> (\<exists>sent g. ch_wire c = sent @ g \<and> prefix sent (ch_accepted c) \<and>
     (g = [] \<or> g = [bye] \<and> ch_closed c))"

lemma in_order_step: "channel_step bye c d \<Longrightarrow> in_order bye c \<Longrightarrow> in_order bye d"
proof (induction rule: channel_step.induct)
  case (ch_accept a w c m)
  then show ?case
    unfolding in_order_def by (auto intro: prefix_prefix)
next
  case (ch_deliver w m a)
  then show ?case
    unfolding in_order_def by (intro exI[of _ "w @ [m]"] exI[of _ "[]"]) simp
qed (auto simp: in_order_def)

lemma in_order_steps: "(channel_step bye)\<^sup>*\<^sup>* c d \<Longrightarrow> in_order bye c \<Longrightarrow> in_order bye d"
  by (induction rule: rtranclp_induct) (auto intro: in_order_step)

text \<open>A thread may deliver and close in one step; these are the moves a simulation proof needs.\<close>

lemma channel_moves:
  "(channel_step bye)\<^sup>*\<^sup>* c c"
  "(channel_step bye)\<^sup>*\<^sup>* \<lparr>ch_accepted = a, ch_wire = w, ch_closed = b\<rparr>
     \<lparr>ch_accepted = a @ ms, ch_wire = w, ch_closed = b\<rparr>"
  "prefix (w @ [m]) a \<Longrightarrow>
   (channel_step bye)\<^sup>*\<^sup>* \<lparr>ch_accepted = a, ch_wire = w, ch_closed = False\<rparr>
     \<lparr>ch_accepted = a, ch_wire = w @ [m], ch_closed = b\<rparr>"
  "(channel_step bye)\<^sup>*\<^sup>* \<lparr>ch_accepted = a, ch_wire = w, ch_closed = False\<rparr>
     \<lparr>ch_accepted = a, ch_wire = w, ch_closed = b\<rparr>"
  "(channel_step bye)\<^sup>*\<^sup>* \<lparr>ch_accepted = a, ch_wire = w, ch_closed = False\<rparr>
     \<lparr>ch_accepted = a, ch_wire = w @ [bye], ch_closed = True\<rparr>"
proof -
  show "(channel_step bye)\<^sup>*\<^sup>* \<lparr>ch_accepted = a, ch_wire = w, ch_closed = b\<rparr>
     \<lparr>ch_accepted = a @ ms, ch_wire = w, ch_closed = b\<rparr>"
  proof (induction ms rule: rev_induct)
    case (snoc m ms)
    then show ?case
      using ch_accept[of bye "a @ ms" w b m] by simp
  qed simp
next
  assume p: "prefix (w @ [m]) a"
  have "(channel_step bye)\<^sup>*\<^sup>* \<lparr>ch_accepted = a, ch_wire = w @ [m], ch_closed = False\<rparr>
     \<lparr>ch_accepted = a, ch_wire = w @ [m], ch_closed = b\<rparr>"
    by (cases b) (auto intro: ch_close)
  with ch_deliver[OF p] show "(channel_step bye)\<^sup>*\<^sup>* \<lparr>ch_accepted = a, ch_wire = w, ch_closed = False\<rparr>
     \<lparr>ch_accepted = a, ch_wire = w @ [m], ch_closed = b\<rparr>"
    by (rule converse_rtranclp_into_rtranclp)
next
  show "(channel_step bye)\<^sup>*\<^sup>* \<lparr>ch_accepted = a, ch_wire = w, ch_closed = False\<rparr>
     \<lparr>ch_accepted = a, ch_wire = w, ch_closed = b\<rparr>"
    by (cases b) (auto intro: ch_close)
qed (auto intro: ch_goodbye)

lemma channel_deliver:
  "w @ m # ms = a \<Longrightarrow>
   (channel_step bye)\<^sup>*\<^sup>* \<lparr>ch_accepted = a, ch_wire = w, ch_closed = False\<rparr>
     \<lparr>ch_accepted = a, ch_wire = w @ [m], ch_closed = b\<rparr>"
  by (rule channel_moves(3)) auto

subsection \<open>Pumps\<close>

locale pump = worker own others init inv
  for own :: "'s \<Rightarrow> 's \<Rightarrow> bool" and others and init and inv +
  fixes abs :: "'s \<Rightarrow> 'm channel"
    and bye :: 'm
  assumes abs_init: "abs init = open_channel"
    and sim_own: "inv s \<Longrightarrow> own s t \<Longrightarrow> (channel_step bye)\<^sup>*\<^sup>* (abs s) (abs t)"
    and sim_others: "inv s \<Longrightarrow> others s t \<Longrightarrow> (channel_step bye)\<^sup>*\<^sup>* (abs s) (abs t)"
begin

lemma channel_refined:
  "runs own others n s t \<Longrightarrow> inv s \<Longrightarrow> (channel_step bye)\<^sup>*\<^sup>* (abs s) (abs t)"
proof (induction rule: runs.induct)
  case (runs_own n s t u)
  then show ?case
    using runs_inv sim_own rtranclp_trans by metis
next
  case (runs_others n s t u)
  then show ?case
    using runs_inv sim_others rtranclp_trans by metis
qed simp

lemma pump_in_order: "runs own others n init s \<Longrightarrow> in_order bye (abs s)"
  using in_order_steps[OF channel_refined] inv_init by (simp add: abs_init open_channel_def in_order_def)

lemma pump_wire:
  assumes "runs own others n init s"
  shows "\<exists>sent g. ch_wire (abs s) = sent @ g \<and> prefix sent (ch_accepted (abs s)) \<and>
    (g = [] \<or> g = [bye] \<and> ch_closed (abs s))"
  using pump_in_order[OF assms] by (simp add: in_order_def)

end

subsection \<open>Threads that can be stopped\<close>

locale stoppable = worker own others init inv
  for own :: "'s \<Rightarrow> 's \<Rightarrow> bool" and others and init and inv +
  fixes stopped :: "'s \<Rightarrow> bool"
    and exited :: "'s \<Rightarrow> bool"
    and rank :: "'s \<Rightarrow> nat"
    and bound :: nat
  assumes rank_bound: "rank s \<le> bound"
    and own_stopped: "own s t \<Longrightarrow> stopped s \<Longrightarrow> stopped t \<and> rank t < rank s"
    and others_stopped: "others s t \<Longrightarrow> stopped s \<Longrightarrow> stopped t \<and> rank t = rank s"
    and own_enabled: "inv s \<Longrightarrow> stopped s \<Longrightarrow> \<not> exited s \<Longrightarrow> \<exists>t. own s t"
begin

lemma runs_rank: "runs own others n s t \<Longrightarrow> stopped s \<Longrightarrow> stopped t \<and> n + rank t \<le> rank s"
proof (induction rule: runs.induct)
  case (runs_own n s t u)
  then show ?case
    using own_stopped[of t u] by auto
next
  case (runs_others n s t u)
  then show ?case
    using others_stopped[of t u] by auto
qed simp

lemma leaves:
  assumes "inv s" "stopped s" "runs own others n s t"
  shows "n \<le> bound \<and> (exited t \<or> (\<exists>u. own t u))"
proof -
  have "inv t"
    using runs_inv[OF assms(3,1)] .
  with runs_rank[OF assms(3,2)] own_enabled rank_bound[of s] show ?thesis
    by fastforce
qed

end

end
