(* ===== verification/Contacts_Pump.thy ===== *)
theory Contacts_Pump
  imports Contacts_Handler Pump_Spec
begin

text \<open>
  The two threads of \<open>TTContactsHandler\<close>: \<open>main\<close>, which moves the queued messages to shared
  memory, and \<open>heartbeat\<close>, which queues a heartbeat now and then.  They run beside the callers
  of the public operations, so the steps are relations: \<open>pump_thread\<close>, one step for each place
  where \<open>main\<close> reads the stop flag, waits or calls the shared memory; \<open>heart_thread\<close> for
  \<open>heartbeat\<close>; and \<open>pump_callers\<close> for everybody else, who may queue a message or stop the handler
  at any point in between.

  The wait on the condition variable is modelled as C++ has it: \<open>main\<close> evaluates the predicate
  holding the queue's lock (\<open>Waiting\<close>), and if it is false blocks (\<open>Deciding\<close>, then \<open>Blocked\<close>)
  until it is notified.  Who queues a message needs the lock, so cannot do so while \<open>main\<close> is
  \<open>Deciding\<close>; \<open>stop\<close> sets its flag and notifies without the lock.

  \<open>pp_wire\<close> lists the messages handed to \<open>mSharedMem->send\<close> that reached the memory,
  \<open>pp_notifies\<close> counts the notifications under way, and \<open>pp_accepted\<close>, which no step reads, lists
  the messages ever queued.
\<close>

subsection \<open>State\<close>

datatype pump_pc =
    Waiting                            \<comment> \<open>at the predicate of \<open>mQueueCondition.wait\<close>\<close>
  | Deciding                           \<comment> \<open>the predicate was false, the lock is still held\<close>
  | Blocked                            \<comment> \<open>until notified\<close>
  | Sending "contacts_message list"    \<comment> \<open>at the head of the loop over the batch\<close>
  | Checked "contacts_message list"    \<comment> \<open>the stop flag was read as unset\<close>
  | SayGoodbye                         \<comment> \<open>at \<open>sendGoodbye\<close>\<close>
  | Leaving                            \<comment> \<open>after the loop, before \<open>destroy\<close> and \<open>stop\<close>\<close>
  | Exited

datatype heart_pc =
    Heart_Head                         \<comment> \<open>at the head of the loop\<close>
  | Heart_Send                         \<comment> \<open>in \<open>send\<close>, before it reads the stop flag\<close>
  | Heart_Queue                        \<comment> \<open>in \<open>send\<close>, after it read the stop flag as unset\<close>
  | Heart_Leaving
  | Heart_Exited

record pump =
  pp_stopped :: bool
  pp_queue :: "contacts_message list"
  pp_notifies :: nat
  pp_pc :: pump_pc
  pp_heart :: heart_pc
  pp_wire :: "contacts_message list"
  pp_destroyed :: bool
  pp_accepted :: "contacts_message list"

definition goodbye_message :: contacts_message where
  "goodbye_message = blank_message\<lparr>mStatus := CONTACTS_GOODBYE\<rparr>"

definition heartbeat_message :: contacts_message where
  "heartbeat_message = blank_message\<lparr>mStatus := CONTACTS_HEARTBEAT\<rparr>"

text \<open>
  After the constructor: \<open>establish\<close> has sent one heartbeat through the shared memory and both
  threads run.
\<close>

definition init_pump :: pump where
  "init_pump = \<lparr>pp_stopped = False, pp_queue = [], pp_notifies = 0, pp_pc = Waiting,
     pp_heart = Heart_Head, pp_wire = [], pp_destroyed = False, pp_accepted = []\<rparr>"

text \<open>The first \<open>stop\<close> notifies the subscribed condition variable, later ones do not.\<close>

definition pump_stop :: "pump \<Rightarrow> pump" where
  "pump_stop s = (if pp_stopped s then s
     else s\<lparr>pp_stopped := True, pp_notifies := Suc (pp_notifies s)\<rparr>)"

definition pump_push :: "contacts_message \<Rightarrow> pump \<Rightarrow> pump" where
  "pump_push m s = s\<lparr>pp_queue := pp_queue s @ [m], pp_accepted := pp_accepted s @ [m],
     pp_notifies := Suc (pp_notifies s)\<rparr>"

subsection \<open>Steps\<close>

inductive pump_thread :: "pump \<Rightarrow> pump \<Rightarrow> bool" where
  wait_stopped: "pp_pc s = Waiting \<Longrightarrow> pp_stopped s \<Longrightarrow>
     pump_thread s (s\<lparr>pp_pc := SayGoodbye\<rparr>)"
| drain: "pp_pc s = Waiting \<Longrightarrow> \<not> pp_stopped s \<Longrightarrow> pp_queue s \<noteq> [] \<Longrightarrow>
     pump_thread s (s\<lparr>pp_pc := Sending (pp_queue s), pp_queue := []\<rparr>)"
| decide: "pp_pc s = Waiting \<Longrightarrow> \<not> pp_stopped s \<Longrightarrow> pp_queue s = [] \<Longrightarrow>
     pump_thread s (s\<lparr>pp_pc := Deciding\<rparr>)"
| block: "pp_pc s = Deciding \<Longrightarrow> pump_thread s (s\<lparr>pp_pc := Blocked\<rparr>)"
| batch_end: "pp_pc s = Sending [] \<Longrightarrow> pump_thread s (s\<lparr>pp_pc := Waiting\<rparr>)"
| check_stopped: "pp_pc s = Sending (m # ms) \<Longrightarrow> pp_stopped s \<Longrightarrow>
     pump_thread s (s\<lparr>pp_pc := SayGoodbye\<rparr>)"
| check: "pp_pc s = Sending (m # ms) \<Longrightarrow> \<not> pp_stopped s \<Longrightarrow>
     pump_thread s (s\<lparr>pp_pc := Checked (m # ms)\<rparr>)"
| send_ok: "pp_pc s = Checked (m # ms) \<Longrightarrow>
     pump_thread s (s\<lparr>pp_pc := Sending ms, pp_wire := pp_wire s @ [m]\<rparr>)"
| send_unconfirmed: "pp_pc s = Checked (m # ms) \<Longrightarrow>
     pump_thread s (s\<lparr>pp_pc := Leaving, pp_wire := pp_wire s @ [m]\<rparr>)"
| send_refused: "pp_pc s = Checked (m # ms) \<Longrightarrow> pump_thread s (s\<lparr>pp_pc := Leaving\<rparr>)"
| goodbye_sent: "pp_pc s = SayGoodbye \<Longrightarrow>
     pump_thread s (s\<lparr>pp_pc := Leaving, pp_wire := pp_wire s @ [goodbye_message]\<rparr>)"
| goodbye_refused: "pp_pc s = SayGoodbye \<Longrightarrow> pump_thread s (s\<lparr>pp_pc := Leaving\<rparr>)"
| leave: "pp_pc s = Leaving \<Longrightarrow>
     pump_thread s (pump_stop (s\<lparr>pp_pc := Exited, pp_destroyed := True\<rparr>))"

inductive heart_thread :: "pump \<Rightarrow> pump \<Rightarrow> bool" where
  heart_stopped: "pp_heart s = Heart_Head \<Longrightarrow> pp_stopped s \<Longrightarrow>
     heart_thread s (s\<lparr>pp_heart := Heart_Leaving\<rparr>)"
| heart_turn: "pp_heart s = Heart_Head \<Longrightarrow> \<not> pp_stopped s \<Longrightarrow>
     heart_thread s (s\<lparr>pp_heart := Heart_Send\<rparr>)"
| heart_refused: "pp_heart s = Heart_Send \<Longrightarrow> pp_stopped s \<Longrightarrow>
     heart_thread s (s\<lparr>pp_heart := Heart_Leaving\<rparr>)"
| heart_checked: "pp_heart s = Heart_Send \<Longrightarrow> \<not> pp_stopped s \<Longrightarrow>
     heart_thread s (s\<lparr>pp_heart := Heart_Queue\<rparr>)"
| heart_beat: "pp_heart s = Heart_Queue \<Longrightarrow> pp_pc s \<noteq> Deciding \<Longrightarrow>
     heart_thread s (pump_push heartbeat_message (s\<lparr>pp_heart := Heart_Head\<rparr>))"
| heart_leave: "pp_heart s = Heart_Leaving \<Longrightarrow>
     heart_thread s (pump_stop (s\<lparr>pp_heart := Heart_Exited\<rparr>))"

text \<open>
  The callers read the stop flag before they take the queue's lock, so a message may still be
  queued after the handler was stopped; what they queue are states.  C++ allows a wait to end
  without a notification.
\<close>

inductive pump_callers :: "pump \<Rightarrow> pump \<Rightarrow> bool" where
  queue_state: "mStatus m = STATE \<Longrightarrow> pp_pc s \<noteq> Deciding \<Longrightarrow> pump_callers s (pump_push m s)"
| stop: "pump_callers s (pump_stop s)"
| notify: "pp_notifies s = Suc n \<Longrightarrow>
     pump_callers s (s\<lparr>pp_notifies := n, pp_pc := (if pp_pc s = Blocked then Waiting else pp_pc s)\<rparr>)"
| spurious_wakeup: "pp_pc s = Blocked \<Longrightarrow> pump_callers s (s\<lparr>pp_pc := Waiting\<rparr>)"

text \<open>Everybody but the thread \<open>main\<close>, and everybody but \<open>heartbeat\<close>.\<close>

definition pump_others :: "pump \<Rightarrow> pump \<Rightarrow> bool" where
  "pump_others s t \<longleftrightarrow> heart_thread s t \<or> pump_callers s t"

definition heart_others :: "pump \<Rightarrow> pump \<Rightarrow> bool" where
  "heart_others s t \<longleftrightarrow> pump_thread s t \<or> pump_callers s t"

subsection \<open>What the main thread holds\<close>

primrec in_flight :: "pump_pc \<Rightarrow> contacts_message list" where
  "in_flight Waiting = []"
| "in_flight Deciding = []"
| "in_flight Blocked = []"
| "in_flight (Sending ms) = ms"
| "in_flight (Checked ms) = ms"
| "in_flight SayGoodbye = []"
| "in_flight Leaving = []"
| "in_flight Exited = []"

definition pump_channel :: "pump \<Rightarrow> contacts_message channel" where
  "pump_channel s = \<lparr>ch_accepted = pp_accepted s, ch_wire = pp_wire s,
     ch_closed = (pp_pc s = Leaving \<or> pp_pc s = Exited)\<rparr>"

definition wire_ok :: "pump \<Rightarrow> bool" where
  "wire_ok s \<longleftrightarrow>
     (case pp_pc s of
        SayGoodbye \<Rightarrow> True
      | Leaving \<Rightarrow> True
      | Exited \<Rightarrow> pp_stopped s \<and> pp_destroyed s
      | pc \<Rightarrow> pc \<noteq> Checked [] \<and> pp_wire s @ in_flight pc @ pp_queue s = pp_accepted s)"

definition accepted_ok :: "pump \<Rightarrow> bool" where
  "accepted_ok s \<longleftrightarrow>
     (\<forall>m \<in> set (pp_accepted s). mStatus m = STATE \<or> mStatus m = CONTACTS_HEARTBEAT)"

text \<open>
  Whoever is neither \<open>Waiting\<close> nor \<open>Blocked\<close> reads the queue and the flag again before it blocks; a
  thread that is blocked while there is something in the queue will be notified.
\<close>

definition wakeup_ok :: "pump \<Rightarrow> bool" where
  "wakeup_ok s \<longleftrightarrow> (pp_pc s = Deciding \<longrightarrow> pp_queue s = []) \<and>
     (pp_pc s = Blocked \<and> pp_queue s \<noteq> [] \<longrightarrow> 0 < pp_notifies s)"

definition pump_inv :: "pump \<Rightarrow> bool" where
  "pump_inv s \<longleftrightarrow> wire_ok s \<and> accepted_ok s \<and> wakeup_ok s"

lemma pump_stop_simps [simp]:
  "pp_stopped (pump_stop s)" "pp_queue (pump_stop s) = pp_queue s" "pp_pc (pump_stop s) = pp_pc s"
  "pp_heart (pump_stop s) = pp_heart s" "pp_wire (pump_stop s) = pp_wire s"
  "pp_destroyed (pump_stop s) = pp_destroyed s" "pp_accepted (pump_stop s) = pp_accepted s"
  "pp_notifies s \<le> pp_notifies (pump_stop s)"
  by (simp_all add: pump_stop_def)

lemma pump_push_simps [simp]:
  "pp_stopped (pump_push m s) = pp_stopped s" "pp_queue (pump_push m s) = pp_queue s @ [m]"
  "pp_pc (pump_push m s) = pp_pc s" "pp_heart (pump_push m s) = pp_heart s"
  "pp_wire (pump_push m s) = pp_wire s" "pp_destroyed (pump_push m s) = pp_destroyed s"
  "pp_accepted (pump_push m s) = pp_accepted s @ [m]"
  "pp_notifies (pump_push m s) = Suc (pp_notifies s)"
  by (simp_all add: pump_push_def)

lemmas pump_inv_defs = pump_inv_def wire_ok_def accepted_ok_def wakeup_ok_def

lemma pump_inv_init: "pump_inv init_pump"
  by (simp add: pump_inv_defs init_pump_def)

lemma pump_inv_thread: "pump_thread s t \<Longrightarrow> pump_inv s \<Longrightarrow> pump_inv t"
  by (induction rule: pump_thread.induct) (auto simp: pump_inv_defs)

lemma pump_inv_push:
  "pump_inv s \<Longrightarrow> pp_pc s \<noteq> Deciding \<Longrightarrow> mStatus m = STATE \<or> mStatus m = CONTACTS_HEARTBEAT \<Longrightarrow>
   pump_inv (pump_push m s)"
  by (auto simp: pump_inv_defs split: pump_pc.splits)

lemma pump_inv_stop: "pump_inv s \<Longrightarrow> pump_inv (pump_stop s)"
  using pump_stop_simps(8)[of s] by (auto simp: pump_inv_defs simp del: pump_stop_simps(8) split: pump_pc.splits)

lemma pump_inv_heart_pc: "pump_inv (s\<lparr>pp_heart := h\<rparr>) = pump_inv s"
  by (simp add: pump_inv_defs split: pump_pc.splits)

lemma pump_inv_heart: "heart_thread s t \<Longrightarrow> pump_inv s \<Longrightarrow> pump_inv t"
  by (induction rule: heart_thread.induct)
    (simp_all add: pump_inv_heart_pc pump_inv_stop pump_inv_push heartbeat_message_def)

lemma pump_inv_wake: "pump_inv s \<Longrightarrow> pp_pc s = Blocked \<Longrightarrow> pump_inv (s\<lparr>pp_notifies := n, pp_pc := Waiting\<rparr>)"
  by (simp add: pump_inv_defs)

lemma pump_inv_notified: "pump_inv s \<Longrightarrow> pp_pc s \<noteq> Blocked \<Longrightarrow> pump_inv (s\<lparr>pp_notifies := n\<rparr>)"
  by (auto simp: pump_inv_defs split: pump_pc.splits)

lemma pump_inv_callers: "pump_callers s t \<Longrightarrow> pump_inv s \<Longrightarrow> pump_inv t"
proof (induction rule: pump_callers.induct)
  case (notify s n)
  then show ?case
    using pump_inv_wake[of s n] pump_inv_notified[of s n] by simp
next
  case (spurious_wakeup s)
  then show ?case
    using pump_inv_wake[of s "pp_notifies s"] by simp
qed (simp_all add: pump_inv_push pump_inv_stop)

subsection \<open>The main thread as a pump and as a thread that can be stopped\<close>

lemma pump_thread_channel:
  "pump_thread s t \<Longrightarrow> pump_inv s \<Longrightarrow>
   (channel_step goodbye_message)\<^sup>*\<^sup>* (pump_channel s) (pump_channel t)"
proof (induction rule: pump_thread.induct)
  case (send_ok s m ms)
  then show ?case
    by (auto simp: pump_channel_def pump_inv_def wire_ok_def intro: channel_deliver)
next
  case (send_unconfirmed s m ms)
  then show ?case
    by (auto simp: pump_channel_def pump_inv_def wire_ok_def intro: channel_deliver)
qed (simp_all add: pump_channel_def channel_moves(4,5))

lemma pump_others_channel:
  assumes "pump_others s t"
  shows "(channel_step goodbye_message)\<^sup>*\<^sup>* (pump_channel s) (pump_channel t)"
proof -
  have "pump_channel t = pump_channel s \<or>
      (\<exists>m. pump_channel t = (pump_channel s)\<lparr>ch_accepted := ch_accepted (pump_channel s) @ [m]\<rparr>)"
    using assms unfolding pump_others_def
    by (elim disjE heart_thread.cases pump_callers.cases) (auto simp: pump_channel_def)
  then show ?thesis
    using channel_moves(2)[of goodbye_message "pp_accepted s"]
    by (elim disjE exE) (simp_all add: pump_channel_def)
qed

interpretation contacts_pump: pump pump_thread pump_others init_pump pump_inv pump_channel goodbye_message
proof unfold_locales
  show "pump_channel init_pump = open_channel"
    by (simp add: pump_channel_def init_pump_def open_channel_def)
qed (auto simp: pump_others_def intro: pump_inv_init pump_inv_thread pump_inv_heart pump_inv_callers
    pump_thread_channel pump_others_channel)

text \<open>How many steps of its own the main thread can take once the handler is stopped.\<close>

primrec stop_rank :: "pump_pc \<Rightarrow> nat" where
  "stop_rank Waiting = 3"
| "stop_rank Deciding = 4"
| "stop_rank Blocked = 3"
| "stop_rank (Sending ms) = (if ms = [] then 4 else 3)"
| "stop_rank (Checked ms) = 5"
| "stop_rank SayGoodbye = 2"
| "stop_rank Leaving = 1"
| "stop_rank Exited = 0"

primrec heart_rank :: "heart_pc \<Rightarrow> nat" where
  "heart_rank Heart_Head = 2"
| "heart_rank Heart_Send = 2"
| "heart_rank Heart_Queue = 3"
| "heart_rank Heart_Leaving = 1"
| "heart_rank Heart_Exited = 0"

lemma pump_thread_rank:
  "pump_thread s t \<Longrightarrow> pp_stopped s \<Longrightarrow>
   pp_stopped t \<and> stop_rank (pp_pc t) < stop_rank (pp_pc s) \<and> pp_heart t = pp_heart s"
  by (induction rule: pump_thread.induct) auto

lemma heart_thread_rank:
  "heart_thread s t \<Longrightarrow> pp_stopped s \<Longrightarrow>
   pp_stopped t \<and> heart_rank (pp_heart t) < heart_rank (pp_heart s) \<and> pp_pc t = pp_pc s"
  by (induction rule: heart_thread.induct) auto

lemma pump_callers_rank:
  "pump_callers s t \<Longrightarrow> pp_stopped s \<Longrightarrow>
   pp_stopped t \<and> stop_rank (pp_pc t) = stop_rank (pp_pc s) \<and> pp_heart t = pp_heart s"
  by (induction rule: pump_callers.induct) auto

lemma pump_thread_enabled:
  assumes "pump_inv s" "pp_stopped s" "pp_pc s \<noteq> Exited" "pp_pc s \<noteq> Blocked"
  shows "\<exists>t. pump_thread s t"
proof (cases "pp_pc s")
  case (Sending ms)
  with assms show ?thesis
    by (cases ms) (auto intro: pump_thread.intros)
next
  case (Checked ms)
  with assms show ?thesis
    by (cases ms) (auto simp: pump_inv_def wire_ok_def intro: pump_thread.intros)
qed (use assms in \<open>auto intro: pump_thread.intros\<close>)

interpretation contacts_stop: stoppable pump_thread pump_others init_pump pump_inv
  pp_stopped "\<lambda>s. pp_pc s = Exited \<or> pp_pc s = Blocked" "\<lambda>s. stop_rank (pp_pc s)" 5
proof unfold_locales
  show "stop_rank (pp_pc s) \<le> 5" for s
    by (cases "pp_pc s") simp_all
qed (auto simp: pump_others_def dest: pump_thread_rank heart_thread_rank pump_callers_rank
    intro: pump_thread_enabled)

text \<open>
  The heartbeat thread waits for nothing but the lock, which \<open>main\<close> holds no longer than until
  its next step.
\<close>

lemma heart_thread_enabled:
  "pp_stopped s \<Longrightarrow> pp_heart s \<noteq> Heart_Exited \<Longrightarrow> pp_pc s \<noteq> Deciding \<Longrightarrow> \<exists>t. heart_thread s t"
  by (cases "pp_heart s") (blast intro: heart_thread.intros)+

interpretation contacts_heart: stoppable heart_thread heart_others init_pump pump_inv
  pp_stopped "\<lambda>s. pp_heart s = Heart_Exited \<or> pp_pc s = Deciding" "\<lambda>s. heart_rank (pp_heart s)" 3
proof unfold_locales
  show "heart_rank (pp_heart s) \<le> 3" for s
    by (cases "pp_heart s") simp_all
qed (auto simp: heart_others_def dest: pump_thread_rank heart_thread_rank pump_callers_rank
    intro: heart_thread_enabled pump_inv_init pump_inv_thread pump_inv_heart pump_inv_callers)

subsection \<open>Properties\<close>

text \<open>
  C17: In every interleaving of the sender thread with the callers, the heartbeat thread and
  a stop, what reaches the shared memory is a prefix of the messages queued, in the order they
  were queued, with a goodbye message at most, and only as the last one; nothing is lost while
  the sender thread runs; and when it has exited the handler is stopped and the shared memory
  destroyed.
\<close>

theorem pump_fifo:
  assumes "runs pump_thread pump_others n init_pump s"
  shows "(\<exists>sent g. pp_wire s = sent @ g \<and> prefix sent (pp_accepted s) \<and>
      (g = [] \<or> g = [goodbye_message] \<and> (pp_pc s = Leaving \<or> pp_pc s = Exited))) \<and>
    goodbye_message \<notin> set (pp_accepted s) \<and>
    (pp_pc s = Waiting \<or> pp_pc s = Blocked \<longrightarrow> pp_wire s @ pp_queue s = pp_accepted s) \<and>
    (pp_pc s = Exited \<longrightarrow> pp_stopped s \<and> pp_destroyed s)"
proof -
  have "pump_inv s"
    using contacts_pump.reachable_inv[OF assms] .
  moreover from this have "goodbye_message \<notin> set (pp_accepted s)"
    by (auto simp: pump_inv_def accepted_ok_def goodbye_message_def)
  ultimately show ?thesis
    using contacts_pump.pump_wire[OF assms] by (auto simp: pump_channel_def pump_inv_def wire_ok_def)
qed

lemma pump_stopped_run:
  "runs pump_thread pump_others 0 init_pump (pump_stop init_pump)"
  by (rule runs_others[OF runs_nil]) (simp add: pump_others_def stop)

theorem pump_fifo_witness:
  "\<exists>s. runs pump_thread pump_others 3 init_pump s \<and> pp_pc s = Exited \<and> pp_stopped s \<and>
    pp_wire s = [goodbye_message] \<and> pp_destroyed s"
proof -
  let ?s1 = "pump_stop init_pump"
  let ?s2 = "?s1\<lparr>pp_pc := SayGoodbye\<rparr>"
  let ?s3 = "?s2\<lparr>pp_pc := Leaving, pp_wire := pp_wire ?s2 @ [goodbye_message]\<rparr>"
  let ?s4 = "pump_stop (?s3\<lparr>pp_pc := Exited, pp_destroyed := True\<rparr>)"
  have "runs pump_thread pump_others 1 init_pump ?s2"
    using runs_own[OF pump_stopped_run wait_stopped] by (simp add: init_pump_def)
  from runs_own[OF this goodbye_sent] have "runs pump_thread pump_others 2 init_pump ?s3"
    by (simp add: numeral_2_eq_2)
  from runs_own[OF this leave] have r: "runs pump_thread pump_others 3 init_pump ?s4"
    by (simp add: numeral_3_eq_3)
  have "pp_pc ?s4 = Exited" "pp_wire ?s4 = [goodbye_message]"
    by (simp_all add: init_pump_def)
  with r pump_fifo[OF r] show ?thesis
    by blast
qed

text \<open>
  Once the handler is stopped its threads leave: whatever the others do meanwhile, the
  sender thread takes at most five more steps of its own and the heartbeat thread at most three,
  and each can take one until it has exited, unless the sender thread is blocked on its
  condition variable or the heartbeat thread waits for the queue's lock.
\<close>

theorem pump_exits:
  assumes "runs pump_thread pump_others k init_pump s" "pp_stopped s"
  shows "(\<forall>n t. runs pump_thread pump_others n s t \<longrightarrow>
      n \<le> 5 \<and> (pp_pc t = Exited \<or> pp_pc t = Blocked \<or> (\<exists>u. pump_thread t u))) \<and>
    (\<forall>n t. runs heart_thread heart_others n s t \<longrightarrow>
      n \<le> 3 \<and> (pp_heart t = Heart_Exited \<or> pp_pc t = Deciding \<or> (\<exists>u. heart_thread t u)))"
proof -
  have inv: "pump_inv s"
    using contacts_pump.reachable_inv[OF assms(1)] .
  show ?thesis
    using contacts_stop.leaves[OF inv assms(2)] contacts_heart.leaves[OF inv assms(2)] by blast
qed

theorem pump_exits_witness:
  "let s = pump_stop init_pump
   in runs pump_thread pump_others 0 init_pump s \<and> (\<exists>u. pump_thread s u) \<and> (\<exists>u. heart_thread s u)"
proof -
  let ?s = "pump_stop init_pump"
  have "pp_pc ?s = Waiting" "pp_heart ?s = Heart_Head"
    by (simp_all add: init_pump_def)
  with pump_exits[OF pump_stopped_run] show ?thesis
    unfolding Let_def using pump_stopped_run runs_nil[of pump_thread pump_others ?s]
      runs_nil[of heart_thread heart_others ?s] by fastforce
qed

text \<open>
  C22: A stop can be missed.  When it falls between the evaluation of the predicate and the
  blocking of the sender thread, its notification wakes nobody, and a state can be reached in
  which the handler is stopped and the heartbeat thread has left, but the sender thread is blocked
  and can take no step; nothing but a spurious wakeup, or a caller that read the stop flag before,
  changes such a state.
\<close>

theorem pump_lost_wakeup:
  "\<exists>s. runs pump_thread pump_others 2 init_pump s \<and> pp_stopped s \<and> pp_pc s = Blocked \<and>
    pp_heart s = Heart_Exited \<and> pp_queue s = [] \<and> (\<forall>t. \<not> pump_thread s t) \<and>
    {t. pump_others s t} \<subseteq> {s, s\<lparr>pp_pc := Waiting\<rparr>} \<union> range (\<lambda>m. pump_push m s)"
proof -
  let ?s1 = "init_pump\<lparr>pp_pc := Deciding\<rparr>"
  let ?s2 = "init_pump\<lparr>pp_pc := Deciding, pp_stopped := True\<rparr>"
  let ?s3 = "init_pump\<lparr>pp_pc := Blocked, pp_stopped := True\<rparr>"
  let ?s4 = "?s3\<lparr>pp_heart := Heart_Leaving\<rparr>"
  let ?s5 = "?s3\<lparr>pp_heart := Heart_Exited\<rparr>"
  have "runs pump_thread pump_others 1 init_pump ?s1"
    using runs_own[OF runs_nil[of pump_thread pump_others init_pump] decide] by (simp add: init_pump_def)
  moreover have "pump_others ?s1 (pump_stop ?s1)"
    by (simp add: pump_others_def stop)
  moreover have "pump_callers (pump_stop ?s1) ?s2"
    using notify[of "pump_stop ?s1" 0] by (simp add: pump_stop_def init_pump_def)
  ultimately have "runs pump_thread pump_others 1 init_pump ?s2"
    unfolding pump_others_def by (blast intro: runs_others)
  from runs_own[OF this block] have "runs pump_thread pump_others 2 init_pump ?s3"
    by (simp add: init_pump_def numeral_2_eq_2)
  moreover have "heart_thread ?s3 ?s4"
    using heart_stopped[of ?s3] by (simp add: init_pump_def)
  moreover have "heart_thread ?s4 ?s5"
    using heart_leave[of ?s4] by (simp add: init_pump_def pump_stop_def)
  ultimately have "runs pump_thread pump_others 2 init_pump ?s5"
    unfolding pump_others_def by (blast intro: runs_others)
  moreover have "\<not> pump_thread ?s5 t" for t
    by (auto elim: pump_thread.cases)
  moreover have "pump_others ?s5 t \<Longrightarrow> t = ?s5 \<or> t = ?s5\<lparr>pp_pc := Waiting\<rparr> \<or> (\<exists>m. t = pump_push m ?s5)" for t
    unfolding pump_others_def
    by (elim disjE heart_thread.cases pump_callers.cases) (auto simp: pump_stop_def init_pump_def)
  then have "{t. pump_others ?s5 t} \<subseteq> {?s5, ?s5\<lparr>pp_pc := Waiting\<rparr>} \<union> range (\<lambda>m. pump_push m ?s5)"
    by blast
  ultimately show ?thesis
    by (intro exI[of _ ?s5]) (simp add: init_pump_def)
qed

end
