(* ===== verification/Chat_Data.thy ===== *)
theory Chat_Data
  imports Cxx_Text
begin

text \<open>
  The data of the chat bundle: \<open>TTChatMessageType\<close>, \<open>TTChatTimestamp\<close>, \<open>TTChatMessage\<close> (the
  message passed through the queues) and \<open>TTChatEntry\<close> (a line of a conversation the engine
  keeps), with their comparison and printing operators.

  A timestamp is the tick count of its \<open>time_point\<close>.  Its text depends on the time zone of
  the host, so the formatter is a parameter of what prints it.
\<close>

subsection \<open>\<open>TTChatMessageType\<close>\<close>

text \<open>\<open>TYPE_OTHER\<close> stands for the values of the underlying \<open>unsigned int\<close> that name no enumerator.\<close>

datatype chat_message_type =
    CLEAR | SENDER | SENDER_CHUNK | RECEIVER | RECEIVER_CHUNK | CHAT_HEARTBEAT | CHAT_GOODBYE
  | TYPE_OTHER nat

primrec type_code :: "chat_message_type \<Rightarrow> nat" where
  "type_code CLEAR = 0"
| "type_code SENDER = 1"
| "type_code SENDER_CHUNK = 2"
| "type_code RECEIVER = 3"
| "type_code RECEIVER_CHUNK = 4"
| "type_code CHAT_HEARTBEAT = 5"
| "type_code CHAT_GOODBYE = 6"
| "type_code (TYPE_OTHER n) = n"

definition type_cast :: "nat \<Rightarrow> chat_message_type" where
  "type_cast n =
     (if n = 0 then CLEAR else if n = 1 then SENDER else if n = 2 then SENDER_CHUNK
      else if n = 3 then RECEIVER else if n = 4 then RECEIVER_CHUNK
      else if n = 5 then CHAT_HEARTBEAT else if n = 6 then CHAT_GOODBYE else TYPE_OTHER n)"

lemma type_cast_code: "(\<And>n. t \<noteq> TYPE_OTHER n) \<Longrightarrow> type_cast (type_code t) = t"
  by (cases t) (simp_all add: type_cast_def)

lemma type_code_cast [simp]: "type_code (type_cast n) = n"
  by (simp add: type_cast_def)

primrec show_type :: "chat_message_type \<Rightarrow> string" where
  "show_type CLEAR = ''CLEAR''"
| "show_type SENDER = ''SENDER''"
| "show_type SENDER_CHUNK = ''SENDER_CHUNK''"
| "show_type RECEIVER = ''RECEIVER''"
| "show_type RECEIVER_CHUNK = ''RECEIVER_CHUNK''"
| "show_type CHAT_HEARTBEAT = ''HEARTBEAT''"
| "show_type CHAT_GOODBYE = ''GOODBYE''"
| "show_type (TYPE_OTHER n) = ''UNKNOWN''"

subsection \<open>\<open>TTChatMessage\<close>\<close>

type_synonym timestamp = int

definition MAX_DATA_LENGTH :: nat where
  "MAX_DATA_LENGTH = 2048"

lemma MAX_DATA_LENGTH_pos [simp]: "0 < MAX_DATA_LENGTH" "MAX_DATA_LENGTH \<noteq> 0"
  by (simp_all add: MAX_DATA_LENGTH_def)

text \<open>\<open>cm_data\<close> is the first \<open>mDataLength\<close> bytes of \<open>mData\<close>; no code reads the others.\<close>

record chat_message =
  cm_type :: chat_message_type
  cm_timestamp :: timestamp
  cm_data :: string

text \<open>
  A default-constructed message: its length is zero; type and timestamp are uninitialised in
  C++ and never read before \<open>setType\<close> or a receive writes them.
\<close>

definition blank_chat_message :: chat_message where
  "blank_chat_message = \<lparr>cm_type = CLEAR, cm_timestamp = 0, cm_data = ''''\<rparr>"

text \<open>\<open>None\<close> is the failed assertion on the length.\<close>

definition setData :: "string \<Rightarrow> chat_message \<Rightarrow> chat_message option" where
  "setData data m = (if length data \<le> MAX_DATA_LENGTH then Some (m\<lparr>cm_data := data\<rparr>) else None)"

definition new_chat_message ::
  "chat_message_type \<Rightarrow> timestamp \<Rightarrow> string \<Rightarrow> chat_message option" where
  "new_chat_message ty ts data =
     setData data (blank_chat_message\<lparr>cm_type := ty, cm_timestamp := ts\<rparr>)"

lemma new_chat_message_eq:
  "length data \<le> MAX_DATA_LENGTH \<Longrightarrow>
   new_chat_message ty ts data = Some \<lparr>cm_type = ty, cm_timestamp = ts, cm_data = data\<rparr>"
  by (simp add: new_chat_message_def setData_def blank_chat_message_def)

definition show_chat_message :: "(timestamp \<Rightarrow> string) \<Rightarrow> chat_message \<Rightarrow> string" where
  "show_chat_message fmt m = ''{'' @ ''type: '' @ show_type (cm_type m) @ '', '' @
     ''timestamp: '' @ fmt (cm_timestamp m) @ '', '' @ ''data: '' @ cm_data m @ ''}''"

definition chat_message_eq :: "chat_message \<Rightarrow> chat_message \<Rightarrow> bool" where
  "chat_message_eq lhs rhs =
     (let contents = (if cm_type lhs \<noteq> cm_type rhs then False
                      else if cm_timestamp lhs \<noteq> cm_timestamp rhs then False
                      else if cm_data lhs \<noteq> cm_data rhs then False else True)
      in case cm_type lhs of
        SENDER \<Rightarrow> contents
      | SENDER_CHUNK \<Rightarrow> contents
      | RECEIVER \<Rightarrow> contents
      | RECEIVER_CHUNK \<Rightarrow> contents
      | CLEAR \<Rightarrow> cm_type lhs = cm_type rhs
      | CHAT_HEARTBEAT \<Rightarrow> cm_type lhs = cm_type rhs
      | CHAT_GOODBYE \<Rightarrow> cm_type lhs = cm_type rhs
      | TYPE_OTHER n \<Rightarrow> False)"

subsection \<open>\<open>TTChatEntry\<close>\<close>

record chat_entry =
  te_type :: chat_message_type
  te_timestamp :: timestamp
  te_data :: string

definition show_chat_entry :: "(timestamp \<Rightarrow> string) \<Rightarrow> chat_entry \<Rightarrow> string" where
  "show_chat_entry fmt e = ''{'' @ ''type: '' @ show_type (te_type e) @ '', '' @
     ''timestamp: '' @ fmt (te_timestamp e) @ '', '' @ ''data: '' @ te_data e @ ''}''"

definition chat_entry_eq :: "chat_entry \<Rightarrow> chat_entry \<Rightarrow> bool" where
  "chat_entry_eq lhs rhs =
     (let contents = (if te_type lhs \<noteq> te_type rhs then False
                      else if te_timestamp lhs \<noteq> te_timestamp rhs then False
                      else if te_data lhs \<noteq> te_data rhs then False else True)
      in case te_type lhs of
        SENDER \<Rightarrow> contents
      | RECEIVER \<Rightarrow> contents
      | CLEAR \<Rightarrow> False
      | SENDER_CHUNK \<Rightarrow> False
      | RECEIVER_CHUNK \<Rightarrow> False
      | CHAT_HEARTBEAT \<Rightarrow> False
      | CHAT_GOODBYE \<Rightarrow> False
      | TYPE_OTHER n \<Rightarrow> False)"

lemma chat_message_eq_sym: "chat_message_eq a b = chat_message_eq b a"
  by (auto simp: chat_message_eq_def Let_def split: chat_message_type.splits)

lemma chat_message_eq_contents:
  "cm_type a \<in> {SENDER, SENDER_CHUNK, RECEIVER, RECEIVER_CHUNK} \<Longrightarrow>
   chat_message_eq a b \<longleftrightarrow> a = b"
  by (auto simp: chat_message_eq_def Let_def)

lemma chat_entry_eq_iff:
  "chat_entry_eq a b \<longleftrightarrow> a = b \<and> te_type a \<in> {SENDER, RECEIVER}"
  by (auto simp: chat_entry_eq_def Let_def split: chat_message_type.splits if_splits)

end
