(* ===== verification/Chat_Handler.thy ===== *)
theory Chat_Handler
  imports Chat_Data
begin

text \<open>
  \<open>TTChatHandler\<close> (chat/src/TTChatHandler.cpp): the engine's store of conversations, and the
  cutting of their messages into the chunks that fit a \<open>TTChatMessage\<close>.  Each public operation
  holds \<open>mMessagesMutex\<close>, so it is one function on the handler's state; \<open>None\<close> is the failed
  assertion of \<open>setData\<close>, which the lemmas exclude.

  The lemmas give the invariant (the current conversation exists, a conversation holds sent
  and received entries only, what is queued was cut from whole messages) and what each
  operation queues.
\<close>

subsection \<open>State\<close>

record chat_handler =
  th_stopped :: bool
  th_queue :: "chat_message list"
  mCurrentId :: "nat option"
  mMessages :: "chat_entry list list"

definition init_chat_handler :: chat_handler where
  "init_chat_handler = \<lparr>th_stopped = False, th_queue = [], mCurrentId = None, mMessages = []\<rparr>"

definition chat_stop :: "chat_handler \<Rightarrow> chat_handler" where
  "chat_stop h = h\<lparr>th_stopped := True\<rparr>"

subsection \<open>\<open>send(type, data, timestamp)\<close>\<close>

text \<open>The messages built from one text: full chunks, then the message that ends them.\<close>

fun those_messages :: "chat_message option list \<Rightarrow> chat_message list option" where
  "those_messages [] = Some []"
| "those_messages (None # ms) = None"
| "those_messages (Some m # ms) =
     (case those_messages ms of None \<Rightarrow> None | Some ms' \<Rightarrow> Some (m # ms'))"

definition cut_message ::
  "chat_message_type \<Rightarrow> string \<Rightarrow> timestamp \<Rightarrow> chat_message list option" where
  "cut_message ty data ts =
     (let numberOfFullMessages = length data div MAX_DATA_LENGTH;
          totalFullMessagesDataLength = numberOfFullMessages * MAX_DATA_LENGTH;
          lastMessageDataLength = length data - totalFullMessagesDataLength;
          (number, total, last) =
            (if numberOfFullMessages \<noteq> 0 \<and> lastMessageDataLength = 0
             then (numberOfFullMessages - 1, totalFullMessagesDataLength - MAX_DATA_LENGTH,
                   MAX_DATA_LENGTH)
             else (numberOfFullMessages, totalFullMessagesDataLength, lastMessageDataLength));
          chunkType = type_cast (type_code ty + 1);
          chunks = map (\<lambda>i. new_chat_message chunkType ts
                      (take MAX_DATA_LENGTH (drop (MAX_DATA_LENGTH * i) data))) [0..<number];
          full = new_chat_message ty ts (take last (drop total data))
      in those_messages (chunks @ [full]))"

definition chat_queue_data ::
  "chat_message_type \<Rightarrow> string \<Rightarrow> timestamp \<Rightarrow> chat_handler \<Rightarrow> (bool \<times> chat_handler) option" where
  "chat_queue_data ty data ts h =
     (if th_stopped h then Some (False, h)
      else do {
        messages \<leftarrow> cut_message ty data ts;
        Some (True, h\<lparr>th_queue := th_queue h @ messages\<rparr>)
      })"

subsection \<open>Operations\<close>

definition chat_send ::
  "nat \<Rightarrow> string \<Rightarrow> timestamp \<Rightarrow> chat_handler \<Rightarrow> (bool \<times> chat_handler) option" where
  "chat_send i message ts h =
     (if th_stopped h then Some (False, h)
      else if mCurrentId h = None \<or> the (mCurrentId h) \<noteq> i then Some (False, h)
      else if length (mMessages h) \<le> i then Some (False, h)
      else let storage = mMessages h ! i;
               h1 = h\<lparr>mMessages := (mMessages h)[i := storage @
                      [\<lparr>te_type = SENDER, te_timestamp = ts, te_data = message\<rparr>]]\<rparr>
           in chat_queue_data SENDER message ts h1)"

definition chat_receive ::
  "nat \<Rightarrow> string \<Rightarrow> timestamp \<Rightarrow> chat_handler \<Rightarrow> (bool \<times> chat_handler) option" where
  "chat_receive i message ts h =
     (if th_stopped h then Some (False, h)
      else if length (mMessages h) \<le> i then Some (False, h)
      else let storage = mMessages h ! i;
               h1 = h\<lparr>mMessages := (mMessages h)[i := storage @
                      [\<lparr>te_type = RECEIVER, te_timestamp = ts, te_data = message\<rparr>]]\<rparr>
           in if mCurrentId h1 = Some i then chat_queue_data RECEIVER message ts h1
              else Some (True, h1))"

text \<open>The loop of \<open>select\<close> over the storage of the selected conversation.\<close>

fun chat_replay :: "chat_entry list \<Rightarrow> chat_handler \<Rightarrow> (bool \<times> chat_handler) option" where
  "chat_replay [] h = Some (True, h)"
| "chat_replay (e # es) h = do {
     (sent, h1) \<leftarrow> chat_queue_data (te_type e) (te_data e) (te_timestamp e) h;
     if \<not> sent then Some (False, h1) else chat_replay es h1
   }"

text \<open>\<open>now\<close> is what \<open>system_clock::now()\<close> returns.\<close>

definition chat_select :: "timestamp \<Rightarrow> nat \<Rightarrow> chat_handler \<Rightarrow> (bool \<times> chat_handler) option" where
  "chat_select now i h =
     (if th_stopped h then Some (False, h)
      else if length (mMessages h) \<le> i then Some (False, h)
      else if mCurrentId h = Some i then Some (True, h)
      else do {
        (cleared, h1) \<leftarrow>
          (if mCurrentId h \<noteq> None then chat_queue_data CLEAR '''' now h else Some (True, h));
        if \<not> cleared then Some (False, h1)
        else let h2 = h1\<lparr>mCurrentId := Some i\<rparr> in chat_replay (mMessages h2 ! i) h2
      })"

definition chat_create :: "nat \<Rightarrow> chat_handler \<Rightarrow> (bool \<times> chat_handler) option" where
  "chat_create i h =
     (if th_stopped h then Some (False, h)
      else if i \<noteq> length (mMessages h) then Some (False, h)
      else Some (True, h\<lparr>mMessages := mMessages h @ [[]]\<rparr>))"

text \<open>Declared to return \<open>bool\<close>: the number of conversations converted to \<open>bool\<close>.\<close>

definition chat_size :: "chat_handler \<Rightarrow> bool" where
  "chat_size h \<longleftrightarrow> length (mMessages h) \<noteq> 0"

definition chat_get :: "nat \<Rightarrow> chat_handler \<Rightarrow> chat_entry list option" where
  "chat_get i h = (if length (mMessages h) \<le> i then None else Some (mMessages h ! i))"

definition chat_current :: "chat_handler \<Rightarrow> nat option" where
  "chat_current h = mCurrentId h"

text \<open>What the engine's threads can call; \<open>ChatHeartbeat\<close> is the queueing in \<open>dequeue\<close>.\<close>

datatype chat_op =
    ChatSend nat string timestamp
  | ChatReceive nat string timestamp
  | ChatSelect timestamp nat
  | ChatCreate nat
  | ChatHeartbeat timestamp
  | ChatStop

primrec chat_step :: "chat_handler \<Rightarrow> chat_op \<Rightarrow> (bool \<times> chat_handler) option" where
  "chat_step h (ChatSend i m ts) = chat_send i m ts h"
| "chat_step h (ChatReceive i m ts) = chat_receive i m ts h"
| "chat_step h (ChatSelect now i) = chat_select now i h"
| "chat_step h (ChatCreate i) = chat_create i h"
| "chat_step h (ChatHeartbeat now) = chat_queue_data CHAT_HEARTBEAT '''' now h"
| "chat_step h ChatStop = Some (True, chat_stop h)"

subsection \<open>Cutting a text into chunks\<close>

text \<open>The same cut by recursion: a chunk while more than a chunk is left.\<close>

function chunks_of :: "string \<Rightarrow> string list" where
  "chunks_of s =
     (if MAX_DATA_LENGTH < length s
      then take MAX_DATA_LENGTH s # chunks_of (drop MAX_DATA_LENGTH s) else [s])"
  by pat_completeness auto
termination
  by (relation "measure length") (auto simp: MAX_DATA_LENGTH_def)

declare chunks_of.simps [simp del]

lemma chunks_of_ne [simp]: "chunks_of s \<noteq> []"
  by (subst chunks_of.simps) simp

lemma concat_chunks_of [simp]: "concat (chunks_of s) = s"
proof (induction s rule: chunks_of.induct)
  case (1 s)
  then show ?case by (subst chunks_of.simps) simp
qed

lemma chunks_of_bound: "c \<in> set (chunks_of s) \<Longrightarrow> length c \<le> MAX_DATA_LENGTH"
proof (induction s rule: chunks_of.induct)
  case (1 s)
  show ?case
  proof (cases "MAX_DATA_LENGTH < length s")
    case True
    with 1 chunks_of.simps[of s] show ?thesis by auto
  next
    case False
    with 1(2) chunks_of.simps[of s] show ?thesis by simp
  qed
qed

lemma chunks_of_full: "c \<in> set (butlast (chunks_of s)) \<Longrightarrow> length c = MAX_DATA_LENGTH"
proof (induction s rule: chunks_of.induct)
  case (1 s)
  show ?case
  proof (cases "MAX_DATA_LENGTH < length s")
    case True
    with 1 chunks_of.simps[of s] show ?thesis by auto
  next
    case False
    with 1(2) chunks_of.simps[of s] show ?thesis by simp
  qed
qed

lemma chunks_of_short: "length s \<le> MAX_DATA_LENGTH \<Longrightarrow> chunks_of s = [s]"
  by (subst chunks_of.simps) simp

text \<open>Where the arithmetic of \<open>send\<close> puts the last chunk.\<close>

definition cut_number :: "nat \<Rightarrow> nat" where
  "cut_number n = (if n = 0 then 0 else (n - 1) div MAX_DATA_LENGTH)"

lemma cut_number_step:
  assumes "MAX_DATA_LENGTH < n"
  shows "cut_number n = Suc (cut_number (n - MAX_DATA_LENGTH))"
  using assms le_div_geq[of MAX_DATA_LENGTH "n - 1"] by (simp add: cut_number_def)

lemma cut_number_small: "n \<le> MAX_DATA_LENGTH \<Longrightarrow> cut_number n = 0"
  by (auto simp: cut_number_def)

lemma cut_pieces:
  "map (\<lambda>i. take MAX_DATA_LENGTH (drop (MAX_DATA_LENGTH * i) s)) [0..<cut_number (length s)] @
     [drop (cut_number (length s) * MAX_DATA_LENGTH) s] = chunks_of s"
proof (induction s rule: chunks_of.induct)
  case (1 s)
  show ?case
  proof (cases "MAX_DATA_LENGTH < length s")
    case True
    let ?t = "drop MAX_DATA_LENGTH s"
    have n: "cut_number (length s) = Suc (cut_number (length ?t))"
      using True by (simp add: cut_number_step)
    have "map (\<lambda>i. take MAX_DATA_LENGTH (drop (MAX_DATA_LENGTH * i) s)) [1..<Suc (cut_number (length ?t))]
        = map (\<lambda>i. take MAX_DATA_LENGTH (drop (MAX_DATA_LENGTH * i) ?t)) [0..<cut_number (length ?t)]"
      by (simp add: map_Suc_upt[symmetric] add.commute del: upt_Suc)
    with True 1 show ?thesis
      unfolding n by (subst chunks_of.simps) (simp add: upt_conv_Cons add.commute del: upt_Suc)
  next
    case False
    then show ?thesis
      by (simp add: cut_number_small chunks_of_short)
  qed
qed

text \<open>The message list: chunk type for all pieces but the last, the type itself for that.\<close>

definition typed_pieces ::
  "chat_message_type \<Rightarrow> timestamp \<Rightarrow> string list \<Rightarrow> chat_message list" where
  "typed_pieces ty ts cs =
     map (\<lambda>c. \<lparr>cm_type = type_cast (type_code ty + 1), cm_timestamp = ts, cm_data = c\<rparr>) (butlast cs)
     @ [\<lparr>cm_type = ty, cm_timestamp = ts, cm_data = last cs\<rparr>]"

lemma those_messages_Some: "those_messages (map Some ms) = Some ms"
  by (induction ms) simp_all

lemma cut_number_code:
  fixes n :: nat
  shows "(let a = n div MAX_DATA_LENGTH; b = a * MAX_DATA_LENGTH; c = n - b in
      if a \<noteq> 0 \<and> c = 0 then (a - 1, b - MAX_DATA_LENGTH, MAX_DATA_LENGTH) else (a, b, c)) =
    (cut_number n, cut_number n * MAX_DATA_LENGTH, n - cut_number n * MAX_DATA_LENGTH)"
proof -
  let ?a = "n div MAX_DATA_LENGTH"
  have split: "n = ?a * MAX_DATA_LENGTH + n mod MAX_DATA_LENGTH"
    by simp
  have r: "n mod MAX_DATA_LENGTH < MAX_DATA_LENGTH"
    by simp
  show ?thesis
  proof (cases "?a \<noteq> 0 \<and> n mod MAX_DATA_LENGTH = 0")
    case True
    then obtain k where a: "?a = Suc k"
      using not0_implies_Suc by blast
    then have n: "n = Suc k * MAX_DATA_LENGTH"
      using split True by simp
    have "(n - 1) div MAX_DATA_LENGTH = k"
    proof (rule div_nat_eqI)
      show "MAX_DATA_LENGTH * k \<le> n - 1"
        using n by (simp add: MAX_DATA_LENGTH_def)
      show "n - 1 < MAX_DATA_LENGTH * Suc k"
        using n by (simp add: MAX_DATA_LENGTH_def)
    qed
    then have "cut_number n = k"
      using n by (simp add: cut_number_def)
    with a n True show ?thesis
      by (simp add: Let_def)
  next
    case False
    have "cut_number n = ?a"
    proof (cases "n mod MAX_DATA_LENGTH = 0")
      case True
      with False split show ?thesis
        by (simp add: cut_number_def)
    next
      case nz: False
      have "(n - 1) div MAX_DATA_LENGTH = ?a"
      proof (rule div_nat_eqI)
        have whole: "MAX_DATA_LENGTH * ?a + n mod MAX_DATA_LENGTH = n"
          by (rule mult_div_mod_eq)
        show "MAX_DATA_LENGTH * ?a \<le> n - 1"
          using whole nz by linarith
        have "MAX_DATA_LENGTH * Suc ?a = MAX_DATA_LENGTH * ?a + MAX_DATA_LENGTH"
          by simp
        then show "n - 1 < MAX_DATA_LENGTH * Suc ?a"
          using whole r by linarith
      qed
      with nz show ?thesis
        by (auto simp: cut_number_def)
    qed
    moreover have "n - ?a * MAX_DATA_LENGTH = n mod MAX_DATA_LENGTH"
      by (rule minus_div_mult_eq_mod)
    ultimately show ?thesis
      using False by (auto simp: Let_def)
  qed
qed

lemma those_messages_map:
  "(\<And>x. x \<in> set xs \<Longrightarrow> f x = Some (g x)) \<Longrightarrow> those_messages (map f xs) = Some (map g xs)"
  by (induction xs) simp_all

lemma cut_message_eq: "cut_message ty s ts = Some (typed_pieces ty ts (chunks_of s))"
proof -
  let ?n = "cut_number (length s)"
  let ?piece = "\<lambda>i. take MAX_DATA_LENGTH (drop (MAX_DATA_LENGTH * i) s)"
  let ?rest = "drop (?n * MAX_DATA_LENGTH) s"
  have cs: "butlast (chunks_of s) = map ?piece [0..<?n]" "last (chunks_of s) = ?rest"
    by (simp_all add: cut_pieces[of s, symmetric])
  have "length ?rest \<le> MAX_DATA_LENGTH"
    using chunks_of_bound[OF last_in_set[OF chunks_of_ne], of s] cs(2) by simp
  then have r: "new_chat_message ty ts ?rest = Some \<lparr>cm_type = ty, cm_timestamp = ts, cm_data = ?rest\<rparr>"
    by (rule new_chat_message_eq)
  have "cut_message ty s ts = those_messages
     (map (\<lambda>i. new_chat_message (type_cast (type_code ty + 1)) ts (?piece i)) [0..<?n] @
      [new_chat_message ty ts (take (length s - ?n * MAX_DATA_LENGTH) ?rest)])"
    using cut_number_code[of "length s"] unfolding cut_message_def Let_def
    by (simp del: One_nat_def split: if_splits)
  also have "take (length s - ?n * MAX_DATA_LENGTH) ?rest = ?rest"
    by simp
  also have "map (\<lambda>i. new_chat_message (type_cast (type_code ty + 1)) ts (?piece i)) [0..<?n] @
      [new_chat_message ty ts ?rest] = map Some (typed_pieces ty ts (chunks_of s))"
    by (simp add: r typed_pieces_def cs new_chat_message_eq)
  finally show ?thesis
    by (simp add: those_messages_Some)
qed

lemma chat_queue_data_eq:
  "chat_queue_data ty s ts h =
     Some (if th_stopped h then (False, h)
           else (True, h\<lparr>th_queue := th_queue h @ typed_pieces ty ts (chunks_of s)\<rparr>))"
  by (simp add: chat_queue_data_def cut_message_eq)

subsection \<open>What the operations do\<close>

definition entry_messages :: "chat_entry \<Rightarrow> chat_message list" where
  "entry_messages e = typed_pieces (te_type e) (te_timestamp e) (chunks_of (te_data e))"

definition clear_message :: "timestamp \<Rightarrow> chat_message" where
  "clear_message now = \<lparr>cm_type = CLEAR, cm_timestamp = now, cm_data = ''''\<rparr>"

lemma typed_pieces_empty:
  "typed_pieces ty ts (chunks_of '''') = [\<lparr>cm_type = ty, cm_timestamp = ts, cm_data = ''''\<rparr>]"
  by (simp add: typed_pieces_def chunks_of_short)

lemma chat_replay_eq:
  "\<not> th_stopped h \<Longrightarrow>
   chat_replay es h = Some (True, h\<lparr>th_queue := th_queue h @ concat (map entry_messages es)\<rparr>)"
  by (induction es arbitrary: h) (simp_all add: chat_queue_data_eq entry_messages_def)

lemma chat_send_eq:
  "chat_send i m ts h = Some
     (if \<not> th_stopped h \<and> mCurrentId h = Some i \<and> i < length (mMessages h)
      then let e = \<lparr>te_type = SENDER, te_timestamp = ts, te_data = m\<rparr> in
        (True, h\<lparr>mMessages := (mMessages h)[i := mMessages h ! i @ [e]],
                 th_queue := th_queue h @ entry_messages e\<rparr>)
      else (False, h))"
  by (auto simp: chat_send_def chat_queue_data_eq entry_messages_def Let_def)

lemma chat_receive_eq:
  "chat_receive i m ts h = Some
     (if \<not> th_stopped h \<and> i < length (mMessages h)
      then let e = \<lparr>te_type = RECEIVER, te_timestamp = ts, te_data = m\<rparr>;
               h1 = h\<lparr>mMessages := (mMessages h)[i := mMessages h ! i @ [e]]\<rparr> in
        (True, if mCurrentId h = Some i then h1\<lparr>th_queue := th_queue h @ entry_messages e\<rparr> else h1)
      else (False, h))"
  by (auto simp: chat_receive_def chat_queue_data_eq entry_messages_def Let_def)

lemma chat_select_eq:
  "chat_select now i h = Some
     (if th_stopped h \<or> length (mMessages h) \<le> i then (False, h)
      else if mCurrentId h = Some i then (True, h)
      else (True, h\<lparr>mCurrentId := Some i,
        th_queue := th_queue h @ (if mCurrentId h = None then [] else [clear_message now]) @
          concat (map entry_messages (mMessages h ! i))\<rparr>))"
  by (auto simp: chat_select_def chat_queue_data_eq typed_pieces_empty chat_replay_eq
      clear_message_def)

subsection \<open>The invariant and the abstract store\<close>

definition chat_inv :: "chat_handler \<Rightarrow> bool" where
  "chat_inv h \<longleftrightarrow>
     (case mCurrentId h of None \<Rightarrow> True | Some i \<Rightarrow> i < length (mMessages h)) \<and>
     (\<forall>es \<in> set (mMessages h). \<forall>e \<in> set es. te_type e = SENDER \<or> te_type e = RECEIVER)"

lemma chat_inv_init: "chat_inv init_chat_handler"
  by (simp add: chat_inv_def init_chat_handler_def)

lemma set_update_append:
  "i < length xs \<Longrightarrow> x \<in> set (xs[i := y]) \<Longrightarrow> x = y \<or> x \<in> set xs"
  by (auto dest!: set_update_subset_insert[THEN subsetD])

lemma chat_inv_store:
  assumes "chat_inv h" "i < length (mMessages h)" "te_type e = SENDER \<or> te_type e = RECEIVER"
  shows "chat_inv (h\<lparr>mMessages := (mMessages h)[i := mMessages h ! i @ [e]]\<rparr>)"
proof -
  have old: "\<forall>es \<in> set (mMessages h). \<forall>e \<in> set es. te_type e = SENDER \<or> te_type e = RECEIVER"
    using assms(1) by (simp add: chat_inv_def)
  have "\<forall>e' \<in> set (mMessages h ! i @ [e]). te_type e' = SENDER \<or> te_type e' = RECEIVER"
    using bspec[OF old nth_mem[OF assms(2)]] assms(3) by simp
  with old have "\<forall>es \<in> set ((mMessages h)[i := mMessages h ! i @ [e]]).
      \<forall>e \<in> set es. te_type e = SENDER \<or> te_type e = RECEIVER"
    using set_update_append[OF assms(2)] by blast
  with assms(1) show ?thesis
    by (simp add: chat_inv_def split: option.splits)
qed

lemma chat_inv_frame [simp]:
  "chat_inv (h\<lparr>th_queue := q\<rparr>) = chat_inv h"
  "chat_inv (h\<lparr>mMessages := m, th_queue := q\<rparr>) = chat_inv (h\<lparr>mMessages := m\<rparr>)"
  "chat_inv (chat_stop h) = chat_inv h"
  by (simp_all add: chat_inv_def chat_stop_def split: option.splits)

lemma chat_step_inv:
  assumes "chat_inv h"
  shows "\<exists>r h'. chat_step h x = Some (r, h') \<and> chat_inv h'"
proof (cases x)
  case (ChatSend i m ts)
  with assms show ?thesis
    by (auto simp: chat_send_eq chat_inv_store Let_def)
next
  case (ChatReceive i m ts)
  with assms show ?thesis
    by (auto simp: chat_receive_eq chat_inv_store Let_def)
next
  case (ChatSelect now i)
  with assms show ?thesis
    by (auto simp: chat_select_eq chat_inv_def)
next
  case (ChatCreate i)
  with assms show ?thesis
    by (auto simp: chat_create_def chat_inv_def split: option.splits)
next
  case (ChatHeartbeat now)
  with assms show ?thesis
    by (auto simp: chat_queue_data_eq)
qed (use assms in auto)

text \<open>
  The contract: conversations as lists of entries, at most one of them shown, and a flag that
  ends everything.
\<close>

record chat_log =
  closed :: bool
  shown :: "nat option"
  talks :: "(bool \<times> timestamp \<times> string) list list"  \<comment> \<open>\<open>True\<close> for an own message\<close>

definition entry_of_log :: "chat_entry \<Rightarrow> bool \<times> timestamp \<times> string" where
  "entry_of_log e = (te_type e = SENDER, te_timestamp e, te_data e)"

definition chat_log_of :: "chat_handler \<Rightarrow> chat_log" where
  "chat_log_of h = \<lparr>closed = th_stopped h, shown = mCurrentId h,
     talks = map (map entry_of_log) (mMessages h)\<rparr>"

definition log_add :: "nat \<Rightarrow> bool \<times> timestamp \<times> string \<Rightarrow> chat_log \<Rightarrow> chat_log" where
  "log_add i e l = l\<lparr>talks := (talks l)[i := talks l ! i @ [e]]\<rparr>"

primrec log_step :: "chat_log \<Rightarrow> chat_op \<Rightarrow> bool \<times> chat_log" where
  "log_step l (ChatSend i m ts) =
     (if \<not> closed l \<and> shown l = Some i \<and> i < length (talks l)
      then (True, log_add i (True, ts, m) l) else (False, l))"
| "log_step l (ChatReceive i m ts) =
     (if \<not> closed l \<and> i < length (talks l) then (True, log_add i (False, ts, m) l) else (False, l))"
| "log_step l (ChatSelect now i) =
     (if \<not> closed l \<and> i < length (talks l) then (True, l\<lparr>shown := Some i\<rparr>) else (False, l))"
| "log_step l (ChatCreate i) =
     (if \<not> closed l \<and> i = length (talks l) then (True, l\<lparr>talks := talks l @ [[]]\<rparr>) else (False, l))"
| "log_step l (ChatHeartbeat now) = (\<not> closed l, l)"
| "log_step l ChatStop = (True, l\<lparr>closed := True\<rparr>)"

lemma chat_log_of_simps [simp]:
  "closed (chat_log_of h) = th_stopped h"
  "shown (chat_log_of h) = mCurrentId h"
  "talks (chat_log_of h) = map (map entry_of_log) (mMessages h)"
  by (simp_all add: chat_log_of_def)

lemma log_add_store:
  assumes "i < length (mMessages h)"
  shows "log_add i (entry_of_log e) (chat_log_of h) =
    chat_log_of (h\<lparr>mMessages := (mMessages h)[i := mMessages h ! i @ [e]]\<rparr>)"
  using assms by (simp add: log_add_def chat_log_of_def map_update)

lemma chat_log_of_frame [simp]:
  "chat_log_of (h\<lparr>th_queue := q\<rparr>) = chat_log_of h"
  "chat_log_of (h\<lparr>mMessages := m, th_queue := q\<rparr>) = chat_log_of (h\<lparr>mMessages := m\<rparr>)"
  by (simp_all add: chat_log_of_def)

lemma chat_step_log:
  assumes "chat_inv h" "chat_step h x = Some (r, h')"
  shows "log_step (chat_log_of h) x = (r, chat_log_of h')"
proof (cases x)
  case (ChatSend i m ts)
  with assms(2) show ?thesis
    using log_add_store[of i h "\<lparr>te_type = SENDER, te_timestamp = ts, te_data = m\<rparr>"]
    by (auto simp: chat_send_eq Let_def entry_of_log_def split: if_splits)
next
  case (ChatReceive i m ts)
  with assms(2) show ?thesis
    using log_add_store[of i h "\<lparr>te_type = RECEIVER, te_timestamp = ts, te_data = m\<rparr>"]
    by (auto simp: chat_receive_eq Let_def entry_of_log_def split: if_splits)
next
  case (ChatSelect now i)
  with assms(2) show ?thesis
    by (auto simp: chat_select_eq chat_log_of_def split: if_splits)
next
  case (ChatCreate i)
  with assms(2) show ?thesis
    by (auto simp: chat_create_def chat_log_of_def split: if_splits)
next
  case (ChatHeartbeat now)
  with assms(2) show ?thesis
    by (auto simp: chat_queue_data_eq split: if_splits)
next
  case ChatStop
  with assms(2) show ?thesis
    by (auto simp: chat_stop_def chat_log_of_def)
qed

interpretation chat: refined_machine chat_step chat_inv "\<lambda>x. True" log_step chat_log_of
proof unfold_locales
  fix h x
  assume "chat_inv h"
  then show "\<exists>r h'. chat_step h x = Some (r, h') \<and> chat_inv h'"
    by (rule chat_step_inv)
next
  fix h x r h'
  assume "chat_inv h" "chat_step h x = Some (r, h')"
  then show "log_step (chat_log_of h) x = (r, chat_log_of h')"
    by (rule chat_step_log)
qed

subsection \<open>Properties\<close>

text \<open>
  C8: whatever the engine calls and in whatever order, no call on the chat handler aborts, and
  every call answers and changes the store as the chat log does: a message is sent to the shown
  conversation only, received into any existing one, conversations are created in the order of
  their numbers, and after a stop nothing changes.
\<close>

theorem chat_refines_log:
  "\<exists>rs h. run_ops chat_step init_chat_handler xs = Some (rs, h) \<and>
     arun log_step (chat_log_of init_chat_handler) xs = (rs, chat_log_of h) \<and> chat_inv h"
proof -
  obtain rs h where "run_ops chat_step init_chat_handler xs = Some (rs, h)" "chat_inv h"
    using chat.run_total[OF chat_inv_init, of xs] by (auto simp: list_all_iff)
  moreover from this have
    "arun log_step (chat_log_of init_chat_handler) xs = (rs, chat_log_of h)"
    using chat.run_refines[OF chat_inv_init] by (simp add: list_all_iff)
  ultimately show ?thesis
    by blast
qed

text \<open>
  The messages a text is cut into rebuild it: their data in order is the text, each
  carries the timestamp and at most \<open>MAX_DATA_LENGTH\<close> bytes, the last has the type asked for
  and all others are full and have the type's chunk type.
\<close>

theorem cut_message_whole:
  "\<exists>ms m. cut_message ty s ts = Some (ms @ [m]) \<and> concat (map cm_data (ms @ [m])) = s \<and>
     cm_type m = ty \<and> length (cm_data m) \<le> MAX_DATA_LENGTH \<and>
     list_all (\<lambda>m. cm_timestamp m = ts) (ms @ [m]) \<and>
     list_all (\<lambda>m. cm_type m = type_cast (type_code ty + 1) \<and> length (cm_data m) = MAX_DATA_LENGTH) ms"
proof -
  let ?t = "type_cast (type_code ty + 1)"
  let ?ms = "map (\<lambda>c. \<lparr>cm_type = ?t, cm_timestamp = ts, cm_data = c\<rparr>) (butlast (chunks_of s))"
  let ?m = "\<lparr>cm_type = ty, cm_timestamp = ts, cm_data = last (chunks_of s)\<rparr>"
  have "cut_message ty s ts = Some (?ms @ [?m])"
    by (simp add: cut_message_eq typed_pieces_def)
  moreover have "concat (butlast (chunks_of s) @ [last (chunks_of s)]) = s"
    by (simp only: append_butlast_last_id[OF chunks_of_ne] concat_chunks_of)
  then have "concat (map cm_data (?ms @ [?m])) = s"
    by (simp add: comp_def)
  moreover have "length (last (chunks_of s)) \<le> MAX_DATA_LENGTH"
    by (rule chunks_of_bound[of _ s]) simp
  ultimately show ?thesis
    using chunks_of_full[of _ s] by (intro exI[of _ ?ms] exI[of _ ?m]) (simp add: list_all_iff)
qed

end
