(* ===== verification/Chat_Format.thy ===== *)
theory Chat_Format
  imports Cxx_Text
begin

text \<open>
  How \<open>TTChat::print\<close> (chat/src/TTChat.cpp) turns the text of a message into lines:
  white space at both ends is removed, runs of white space become one space, the text is
  split into words, and the words are filled into lines of at most \<open>mSideWidth\<close> characters,
  a word as long as that or longer being cut.  \<open>chat_lines\<close> is that code, loop by loop;
  with \<open>mSideWidth = 0\<close> its last loop does not end, which is \<open>None\<close>.

  The lemmas show that for any other width the loops end and compute the reference
  \<open>wrap\<close> of the message's \<open>tokens\<close>, that no line is longer than the width, and that no
  character other than white space is lost, added or moved.
\<close>

declare dropWhile_eq_Nil_conv [simp del]

subsection \<open>\<open>TTUtilsAscii\<close>\<close>

definition mWhitespaceChars :: "char list" where
  "mWhitespaceChars = [CHR 0x09, CHR 0x0A, CHR 0x0B, CHR 0x0C, CHR 0x0D, CHR 0x20]"

definition isWhitespace :: "char \<Rightarrow> bool" where
  "isWhitespace c \<longleftrightarrow> c \<in> set mWhitespaceChars"

lemma isWhitespace_simps [simp]: "isWhitespace (CHR '' '')"
  by (simp add: isWhitespace_def mWhitespaceChars_def)

subsection \<open>The steps of \<open>print\<close>\<close>

definition trim_left :: "string \<Rightarrow> string" where
  "trim_left s = (case dropWhile isWhitespace s of [] \<Rightarrow> s | c # cs \<Rightarrow> c # cs)"

definition trim_right :: "string \<Rightarrow> string" where
  "trim_right s = (case dropWhile isWhitespace (rev s) of [] \<Rightarrow> s | c # cs \<Rightarrow> rev (c # cs))"

function dedupe :: "string \<Rightarrow> string" where
  "dedupe [] = []"
| "dedupe (c # cs) =
     (if \<not> isWhitespace c then c # dedupe cs
      else CHR '' '' #
        (case dropWhile isWhitespace (c # cs) of [] \<Rightarrow> [] | d # ds \<Rightarrow> d # dedupe ds))"
  by pat_completeness auto
termination
proof (relation "measure length")
  fix c :: char and cs d ds
  assume "dropWhile isWhitespace (c # cs) = d # ds"
  then have "Suc (length ds) \<le> Suc (length cs)"
    using length_dropWhile_le[of isWhitespace "c # cs"] by simp
  then show "(ds, c # cs) \<in> measure length"
    by simp
qed simp_all

declare dedupe.simps(2) [simp del]

function words_of :: "string \<Rightarrow> string list" where
  "words_of s =
     (if CHR '' '' \<in> set s
      then takeWhile (\<lambda>c. c \<noteq> CHR '' '') s #
           words_of (drop 1 (dropWhile (\<lambda>c. c \<noteq> CHR '' '') s))
      else [s])"
  by pat_completeness auto
termination
proof (relation "measure length")
  fix s :: string
  assume "CHR '' '' \<in> set s"
  then have "0 < length s"
    by (cases s) simp_all
  moreover have "length (dropWhile (\<lambda>c. c \<noteq> CHR '' '') s) \<le> length s"
    by (rule length_dropWhile_le)
  ultimately show "(drop 1 (dropWhile (\<lambda>c. c \<noteq> CHR '' '') s), s) \<in> measure length"
    by (cases s) (simp_all del: dropWhile.simps)
qed simp

declare words_of.simps [simp del]

fun fill_line :: "nat \<Rightarrow> string \<Rightarrow> string list \<Rightarrow> string \<times> string list" where
  "fill_line side line [] = (line, [])"
| "fill_line side line (w # ws) =
     (if length line + length w \<le> side then fill_line side (line @ w @ '' '') ws
      else (line, w # ws))"

partial_function (option) make_lines ::
  "nat \<Rightarrow> string list \<Rightarrow> string list \<Rightarrow> string list option" where
  "make_lines side ws lines =
     (case ws of
        [] \<Rightarrow> Some lines
      | w # ws' \<Rightarrow>
          if length w < side
          then make_lines side (snd (fill_line side '''' ws))
                 (lines @ [butlast (fst (fill_line side '''' ws))])
          else make_lines side (drop side w # ws') (lines @ [take side w]))"

definition chat_lines :: "nat \<Rightarrow> string \<Rightarrow> string list option" where
  "chat_lines side s =
     (let data = dedupe (trim_right (trim_left s)) in
      if data = [] then Some ['' ''] else make_lines side (words_of data) [])"

subsection \<open>Words and the normal form of a text\<close>

text \<open>The maximal runs of characters other than white space.\<close>

function tokens :: "string \<Rightarrow> string list" where
  "tokens s =
     (let t = dropWhile isWhitespace s in
      if t = [] then []
      else takeWhile (\<lambda>c. \<not> isWhitespace c) t # tokens (dropWhile (\<lambda>c. \<not> isWhitespace c) t))"
  by pat_completeness auto
termination
proof (relation "measure length")
  fix s t
  assume t: "t = dropWhile isWhitespace s" "t \<noteq> []"
  then have "\<not> isWhitespace (hd t)"
    using hd_dropWhile by blast
  then have "length (dropWhile (\<lambda>c. \<not> isWhitespace c) t) < length t"
    using t(2) by (cases t) (auto simp: le_imp_less_Suc length_dropWhile_le)
  moreover have "length t \<le> length s"
    using t(1) by (simp add: length_dropWhile_le)
  ultimately show "(dropWhile (\<lambda>c. \<not> isWhitespace c) t, s) \<in> measure length"
    by simp
qed simp

declare tokens.simps [simp del]

fun join_words :: "string list \<Rightarrow> string" where
  "join_words [] = []"
| "join_words [w] = w"
| "join_words (w # ws) = w @ '' '' @ join_words ws"

lemma tokens_Nil_iff: "tokens s = [] \<longleftrightarrow> list_all isWhitespace s"
  by (subst tokens.simps) (auto simp: Let_def dropWhile_eq_Nil_conv list_all_iff)

lemma tokens_dropWhile [simp]: "tokens (dropWhile isWhitespace s) = tokens s"
  by (subst (1 2) tokens.simps) (simp add: dropWhile_idem)

lemma tokens_word:
  assumes "w \<noteq> []" "\<forall>c \<in> set w. \<not> isWhitespace c" "rest = [] \<or> isWhitespace (hd rest)"
  shows "tokens (w @ rest) = w # tokens rest"
proof -
  obtain c cs where w: "w = c # cs"
    using assms(1) by (cases w) auto
  have "dropWhile isWhitespace (w @ rest) = w @ rest"
    using w assms(2) by simp
  moreover have "takeWhile (\<lambda>c. \<not> isWhitespace c) (w @ rest) = w"
    using assms(2,3) by (cases rest) (simp_all add: takeWhile_append2 takeWhile_eq_all_conv)
  moreover have "dropWhile (\<lambda>c. \<not> isWhitespace c) (w @ rest) = rest"
    using assms(2,3) by (cases rest) (simp_all add: dropWhile_append2 dropWhile_eq_Nil_conv)
  ultimately show ?thesis
    using w by (subst tokens.simps) simp
qed

text \<open>A case distinction: all white space, or leading white space, a word and the rest.\<close>

lemma text_cases:
  obtains (blank) "list_all isWhitespace s"
  | (word) l w rest where "s = l @ w @ rest" "list_all isWhitespace l" "w \<noteq> []"
      "\<forall>c \<in> set w. \<not> isWhitespace c" "rest = [] \<or> isWhitespace (hd rest)"
proof (cases "dropWhile isWhitespace s = []")
  case True
  then have "list_all isWhitespace s"
    by (simp add: dropWhile_eq_Nil_conv list_all_iff)
  then show thesis
    by (rule blank)
next
  case False
  let ?t = "dropWhile isWhitespace s"
  have "\<not> isWhitespace (hd ?t)"
    using False hd_dropWhile by blast
  then have w: "takeWhile (\<lambda>c. \<not> isWhitespace c) ?t \<noteq> []"
    using False by (cases ?t) auto
  have r: "dropWhile (\<lambda>c. \<not> isWhitespace c) ?t = [] \<or>
      isWhitespace (hd (dropWhile (\<lambda>c. \<not> isWhitespace c) ?t))"
    using hd_dropWhile[of "\<lambda>c. \<not> isWhitespace c" ?t] by blast
  have "s = takeWhile isWhitespace s @ takeWhile (\<lambda>c. \<not> isWhitespace c) ?t @
      dropWhile (\<lambda>c. \<not> isWhitespace c) ?t"
    by simp
  then show thesis
    by (rule word[OF _ _ w _ r]) (auto simp: list_all_iff dest: set_takeWhileD)
qed

lemma text_induct [case_names blank word]:
  assumes blank: "\<And>s. list_all isWhitespace s \<Longrightarrow> P s"
    and word: "\<And>l w rest. list_all isWhitespace l \<Longrightarrow> w \<noteq> [] \<Longrightarrow>
      \<forall>c \<in> set w. \<not> isWhitespace c \<Longrightarrow> rest = [] \<or> isWhitespace (hd rest) \<Longrightarrow> P rest \<Longrightarrow>
      P (l @ w @ rest)"
  shows "P s"
proof (induction s rule: length_induct)
  case (1 s)
  show ?case
  proof (cases s rule: text_cases)
    case blank
    then show ?thesis by (rule assms(1))
  next
    case (word l w rest)
    then have "length rest < length s"
      by simp
    with "1.IH" have "P rest"
      by blast
    with word show ?thesis
      using assms(2) by blast
  qed
qed

lemma dropWhile_blank: "list_all isWhitespace l \<Longrightarrow>
    dropWhile isWhitespace (l @ s) = dropWhile isWhitespace s"
  by (simp add: list_all_iff dropWhile_append2)

lemma tokens_blank_append: "list_all isWhitespace l \<Longrightarrow> tokens (l @ s) = tokens s"
  using tokens_dropWhile[of "l @ s"] by (simp add: dropWhile_blank)

lemma tokens_append_blank:
  assumes "list_all isWhitespace l"
  shows "tokens (s @ l) = tokens s"
proof (induction s rule: text_induct)
  case (blank s)
  then have "list_all isWhitespace (s @ l)"
    using assms by simp
  with blank show ?case
    by (simp add: tokens_Nil_iff[THEN iffD2])
next
  case (word k w rest)
  have "rest @ l = [] \<or> isWhitespace (hd (rest @ l))"
    using word(4) assms by (cases rest; cases l) auto
  with word show ?case
    by (simp add: tokens_blank_append tokens_word)
qed

lemma tokens_nonspace: "w \<in> set (tokens s) \<Longrightarrow> w \<noteq> [] \<and> (\<forall>c \<in> set w. \<not> isWhitespace c)"
proof (induction s rule: text_induct)
  case (blank s)
  then show ?case
    by (simp add: tokens_Nil_iff[THEN iffD2])
next
  case (word l v rest)
  then have "w = v \<or> w \<in> set (tokens rest)"
    by (simp add: tokens_blank_append tokens_word)
  with word show ?case
    by blast
qed

subsection \<open>Trimming and removing duplicates give the normal form\<close>

lemma trim_left_eq:
  "trim_left s = (if list_all isWhitespace s then s else dropWhile isWhitespace s)"
proof (cases "list_all isWhitespace s")
  case True
  then have "dropWhile isWhitespace s = []"
    by (simp add: list_all_iff dropWhile_eq_Nil_conv)
  note empty = this
  show ?thesis
    using True unfolding trim_left_def empty by simp
next
  case False
  then have "dropWhile isWhitespace s \<noteq> []"
    by (auto simp: list_all_iff dropWhile_eq_Nil_conv)
  with False show ?thesis
    by (cases "dropWhile isWhitespace s") (simp_all add: trim_left_def)
qed

lemma trim_right_eq: "trim_right s = rev (trim_left (rev s))"
  unfolding trim_right_def trim_left_def
  by (cases "dropWhile isWhitespace (rev s)") (simp_all only: list.case rev_rev_ident)

lemma trim_left_split: "\<exists>l. s = l @ trim_left s \<and> list_all isWhitespace l"
proof (cases "list_all isWhitespace s")
  case True
  then show ?thesis
    by (simp add: trim_left_eq)
next
  case False
  have "list_all isWhitespace (takeWhile isWhitespace s)"
    by (auto simp: list_all_iff dest: set_takeWhileD)
  with False show ?thesis
    by (intro exI[of _ "takeWhile isWhitespace s"]) (simp add: trim_left_eq)
qed

lemma trim_right_split: "\<exists>l. s = trim_right s @ l \<and> list_all isWhitespace l"
proof -
  obtain l where "rev s = l @ trim_left (rev s)" "list_all isWhitespace l"
    using trim_left_split by blast
  then have "s = trim_right s @ rev l"
    by (metis rev_append rev_rev_ident trim_right_eq)
  moreover have "list_all isWhitespace (rev l)"
    using \<open>list_all isWhitespace l\<close> by (simp add: list_all_iff)
  ultimately show ?thesis
    by blast
qed

definition trimmed :: "string \<Rightarrow> bool" where
  "trimmed s \<longleftrightarrow> s \<noteq> [] \<and> \<not> isWhitespace (hd s) \<and> \<not> isWhitespace (last s)"

lemma tokens_trim: "tokens (trim_right (trim_left s)) = tokens s"
proof -
  obtain l where l: "s = l @ trim_left s" "list_all isWhitespace l"
    using trim_left_split by blast
  obtain r where r: "trim_left s = trim_right (trim_left s) @ r" "list_all isWhitespace r"
    using trim_right_split by blast
  have "tokens s = tokens (trim_left s)"
    using tokens_blank_append[OF l(2), of "trim_left s"] l(1) by simp
  also have "\<dots> = tokens (trim_right (trim_left s))"
    using tokens_append_blank[OF r(2), of "trim_right (trim_left s)"] r(1) by simp
  finally show ?thesis ..
qed

lemma trim_trimmed:
  assumes "\<not> list_all isWhitespace s"
  shows "trimmed (trim_right (trim_left s))"
proof -
  let ?t = "trim_left s"
  have t: "?t = dropWhile isWhitespace s" "?t \<noteq> []"
    using assms by (auto simp: trim_left_eq list_all_iff dropWhile_eq_Nil_conv)
  then have hd: "\<not> isWhitespace (hd ?t)"
    using hd_dropWhile by metis
  let ?r = "dropWhile isWhitespace (rev ?t)"
  have "hd ?t \<in> set (rev ?t)"
    using t(2) by simp
  then have "\<not> list_all isWhitespace (rev ?t)"
    using hd unfolding list_all_iff by blast
  then have u: "trim_right ?t = rev ?r"
    unfolding trim_right_eq trim_left_eq[of "rev ?t"] by simp
  have r: "?r \<noteq> []"
    using \<open>\<not> list_all isWhitespace (rev ?t)\<close> unfolding list_all_iff dropWhile_eq_Nil_conv .
  obtain l where "?t = trim_right ?t @ l"
    using trim_right_split by blast
  then have "hd (trim_right ?t) = hd ?t"
    using u r by (metis hd_append2 rev_is_Nil_conv)
  moreover have "last (trim_right ?t) = hd ?r"
    using u r by (simp add: last_rev)
  ultimately show ?thesis
    using u r hd hd_dropWhile[OF r] by (simp add: trimmed_def)
qed

lemma dedupe_blank: "isWhitespace c \<Longrightarrow> dedupe (c # cs) = CHR '' '' # dedupe (dropWhile isWhitespace cs)"
proof (cases "dropWhile isWhitespace cs")
  case (Cons d ds)
  assume c: "isWhitespace c"
  have "\<not> isWhitespace d"
    using hd_dropWhile[of isWhitespace cs] Cons by simp
  with c Cons show ?thesis
    by (simp add: dedupe.simps(2))
qed (simp add: dedupe.simps(2))

lemma dedupe_word: "\<forall>c \<in> set w. \<not> isWhitespace c \<Longrightarrow> dedupe (w @ s) = w @ dedupe s"
  by (induction w) (simp_all add: dedupe.simps(2))

lemma join_words_Cons: "join_words (w # ws) = w @ (if ws = [] then [] else '' '' @ join_words ws)"
  by (cases ws) simp_all

lemma dedupe_trimmed:
  "dropWhile isWhitespace s = s \<Longrightarrow> s \<noteq> [] \<Longrightarrow> \<not> isWhitespace (last s) \<Longrightarrow>
   dedupe s = join_words (tokens s)"
proof (induction "length s" arbitrary: s rule: less_induct)
  case less
  show ?case
  proof (cases s rule: text_cases)
    case blank
    then have "dropWhile isWhitespace s = []"
      by (simp add: list_all_iff dropWhile_eq_Nil_conv)
    with less.prems show ?thesis
      by simp
  next
    case (word l w rest)
    have l: "l = []"
    proof (cases l)
      case (Cons x xs)
      with word have "length (dropWhile isWhitespace s) < length s"
        using length_dropWhile_le[of isWhitespace "xs @ w @ rest"] by simp
      with less.prems(1) show ?thesis
        by simp
    qed simp
    show ?thesis
    proof (cases rest)
      case Nil
      with word l show ?thesis
        using dedupe_word[of w "[]"] tokens_word[of w "[]"] by (simp add: tokens_Nil_iff[THEN iffD2])
    next
      case (Cons c cs)
      let ?u = "dropWhile isWhitespace cs"
      have c: "isWhitespace c"
        using word(5) Cons by simp
      have last: "\<not> isWhitespace (last (c # cs))"
        using less.prems(3) word Cons by simp
      then have "cs \<noteq> []" "\<not> isWhitespace (last cs)"
        using c by (cases cs; simp)+
      then have u1: "?u \<noteq> []"
        using last_in_set[of cs] by (auto simp: dropWhile_eq_Nil_conv)
      then have u: "?u \<noteq> []" "last ?u = last cs"
        using last_appendR[of ?u "takeWhile isWhitespace cs"] by simp_all
      have len: "length ?u < length s"
        using length_dropWhile_le[of isWhitespace cs] word Cons by simp
      have "dedupe ?u = join_words (tokens ?u)"
        using less.hyps[OF len] u \<open>\<not> isWhitespace (last cs)\<close> by (simp add: dropWhile_idem)
      moreover have "tokens (c # cs) = tokens ?u"
        using tokens_dropWhile[of "c # cs"] c by simp
      moreover have "tokens ?u \<noteq> []"
        using last_in_set[OF u(1)] u(2) \<open>\<not> isWhitespace (last cs)\<close>
        by (auto simp: tokens_Nil_iff list_all_iff simp del: tokens_dropWhile)
      ultimately show ?thesis
        using word l Cons c
        by (simp add: dedupe_word dedupe_blank tokens_word join_words_Cons del: tokens_dropWhile)
    qed
  qed
qed

lemma normal_form:
  "dedupe (trim_right (trim_left s)) =
     (if s = [] then [] else if tokens s = [] then '' '' else join_words (tokens s))"
proof (cases "list_all isWhitespace s")
  case True
  then have t: "trim_right (trim_left s) = s"
    by (simp add: trim_left_eq trim_right_eq list_all_iff)
  have "tokens s = []"
    using True by (simp add: tokens_Nil_iff)
  moreover have "dedupe s = '' ''" if "s \<noteq> []"
  proof -
    obtain c cs where s: "s = c # cs" "isWhitespace c" "list_all isWhitespace cs"
      using \<open>s \<noteq> []\<close> True by (cases s) auto
    have "dropWhile isWhitespace cs = []"
      using s(3) by (simp add: dropWhile_eq_Nil_conv list_all_iff)
    note d = this
    show ?thesis
      unfolding s(1) dedupe_blank[OF s(2)] d by simp
  qed
  ultimately show ?thesis
    unfolding t by simp
next
  case False
  let ?t = "trim_right (trim_left s)"
  have t: "trimmed ?t"
    using False by (rule trim_trimmed)
  then have "dropWhile isWhitespace ?t = ?t"
    by (cases ?t) (simp_all add: trimmed_def)
  with t have "dedupe ?t = join_words (tokens ?t)"
    by (intro dedupe_trimmed) (simp_all add: trimmed_def)
  moreover have "tokens s \<noteq> []" "s \<noteq> []"
    using False by (auto simp: tokens_Nil_iff)
  ultimately show ?thesis
    by (simp add: tokens_trim)
qed

lemma words_of_single: "CHR '' '' \<notin> set w \<Longrightarrow> words_of w = [w]"
  by (simp add: words_of.simps)

lemma words_of_piece:
  assumes "CHR '' '' \<notin> set w"
  shows "words_of (w @ '' '' @ s) = w # words_of s"
proof -
  have "\<forall>c \<in> set w. c \<noteq> CHR '' ''"
    using assms by blast
  then have "takeWhile (\<lambda>c. c \<noteq> CHR '' '') (w @ CHR '' '' # s) = w"
    and "dropWhile (\<lambda>c. c \<noteq> CHR '' '') (w @ CHR '' '' # s) = CHR '' '' # s"
    by (auto simp: takeWhile_append2 dropWhile_append2)
  then show ?thesis
    using words_of.simps[of "w @ CHR '' '' # s"] by simp
qed

lemma words_of_join:
  "ws \<noteq> [] \<Longrightarrow> \<forall>w \<in> set ws. CHR '' '' \<notin> set w \<Longrightarrow> words_of (join_words ws) = ws"
proof (induction ws)
  case (Cons w ws)
  then show ?case
    using words_of_single[of w] words_of_piece[of w "join_words ws"]
    by (cases "ws = []") (simp_all add: join_words_Cons)
qed simp

lemma words_of_tokens:
  assumes "tokens s \<noteq> []"
  shows "words_of (join_words (tokens s)) = tokens s"
proof (rule words_of_join[OF assms])
  show "\<forall>w \<in> set (tokens s). CHR '' '' \<notin> set w"
    using tokens_nonspace by fastforce
qed

subsection \<open>Filling lines\<close>

lemma fill_line_split:
  "\<exists>us. ws = us @ snd (fill_line side line ws) \<and>
        fst (fill_line side line ws) = line @ concat (map (\<lambda>w. w @ '' '') us)"
proof (induction ws arbitrary: line)
  case (Cons w ws)
  show ?case
  proof (cases "length line + length w \<le> side")
    case True
    obtain us where "ws = us @ snd (fill_line side (line @ w @ '' '') ws)"
      "fst (fill_line side (line @ w @ '' '') ws) =
         (line @ w @ '' '') @ concat (map (\<lambda>w. w @ '' '') us)"
      using Cons.IH by blast
    with True show ?thesis
      by (intro exI[of _ "w # us"]) simp
  qed simp
qed simp

lemma fill_line_bound:
  "length line \<le> Suc side \<Longrightarrow> length (fst (fill_line side line ws)) \<le> Suc side"
  by (induction side line ws rule: fill_line.induct) simp_all

definition text_size :: "string list \<Rightarrow> nat" where
  "text_size ws = sum_list (map (\<lambda>w. Suc (length w)) ws)"

lemma text_size_simps [simp]:
  "text_size [] = 0" "text_size (w # ws) = Suc (length w) + text_size ws"
  by (simp_all add: text_size_def)

lemma fill_line_size: "text_size (snd (fill_line side line ws)) \<le> text_size ws"
  by (induction side line ws rule: fill_line.induct) (simp_all add: le_SucI trans_le_add2)

text \<open>The same algorithm as a total function, which stops at width 0.\<close>

function wrap :: "nat \<Rightarrow> string list \<Rightarrow> string list" where
  "wrap side ws =
     (if side = 0 \<or> ws = [] then []
      else if length (hd ws) < side
      then butlast (fst (fill_line side '''' ws)) # wrap side (snd (fill_line side '''' ws))
      else take side (hd ws) # wrap side (drop side (hd ws) # tl ws))"
  by pat_completeness auto
termination
proof (relation "measure (\<lambda>(side, ws). text_size ws)")
  fix side :: nat and ws :: "string list"
  assume "\<not> (side = 0 \<or> ws = [])" "length (hd ws) < side"
  then show "((side, snd (fill_line side '''' ws)), side, ws) \<in>
      measure (\<lambda>(side, ws). text_size ws)"
    using fill_line_size[of side "hd ws @ '' ''" "tl ws"] by (cases ws) (auto simp: le_imp_less_Suc)
next
  fix side :: nat and ws :: "string list"
  assume "\<not> (side = 0 \<or> ws = [])" "\<not> length (hd ws) < side"
  then show "((side, drop side (hd ws) # tl ws), side, ws) \<in>
      measure (\<lambda>(side, ws). text_size ws)"
    by (cases ws) auto
qed simp

declare wrap.simps [simp del]

lemma wrap_Nil [simp]: "wrap side [] = []"
  by (simp add: wrap.simps)

lemma wrap_line: "length w < side \<Longrightarrow>
    wrap side (w # ws) = butlast (fst (fill_line side '''' (w # ws))) #
      wrap side (snd (fill_line side '''' (w # ws)))"
  by (subst wrap.simps) simp

lemma wrap_cut: "0 < side \<Longrightarrow> \<not> length w < side \<Longrightarrow>
    wrap side (w # ws) = take side w # wrap side (drop side w # ws)"
  by (subst wrap.simps) simp

lemma wrap_induct [consumes 1, case_names Nil line cut]:
  assumes side: "0 < side"
    and nil: "P []"
    and line: "\<And>w ws. length w < side \<Longrightarrow> P (snd (fill_line side '''' (w # ws))) \<Longrightarrow> P (w # ws)"
    and cut: "\<And>w ws. side \<le> length w \<Longrightarrow> P (drop side w # ws) \<Longrightarrow> P (w # ws)"
  shows "P ws"
proof (induction "text_size ws" arbitrary: ws rule: less_induct)
  case less
  show ?case
  proof (cases ws)
    case (Cons w vs)
    show ?thesis
    proof (cases "length w < side")
      case True
      have "text_size (snd (fill_line side '''' ws)) < text_size ws"
        using True Cons fill_line_size[of side "w @ '' ''" vs] by (simp add: le_imp_less_Suc)
      then show ?thesis
        using less line True Cons by simp
    next
      case False
      then show ?thesis
        using less(1)[of "drop side w # vs"] cut[of w vs] side Cons by simp
    qed
  qed (simp add: nil)
qed

lemma make_lines_wrap:
  assumes "0 < side"
  shows "make_lines side ws lines = Some (lines @ wrap side ws)"
proof (induction ws arbitrary: lines rule: wrap_induct[OF assms])
  case 1
  show ?case by (subst make_lines.simps) simp
next
  case (2 w ws)
  then show ?case by (subst make_lines.simps) (simp add: wrap_line)
next
  case (3 w ws)
  then show ?case using assms by (subst make_lines.simps) (simp add: wrap_cut)
qed

lemma make_lines_zero: "make_lines 0 ws lines = Some r \<Longrightarrow> ws = []"
proof -
  have "make_lines side ws lines = Some r \<Longrightarrow> side = 0 \<longrightarrow> ws = []" for side
  proof (erule make_lines.raw_induct[rotated])
    fix f :: "nat \<Rightarrow> string list \<Rightarrow> string list \<Rightarrow> string list option" and side ws lines y
    assume ih: "\<And>side ws lines y. f side ws lines = Some y \<Longrightarrow> side = 0 \<longrightarrow> ws = []"
      and body: "(case ws of [] \<Rightarrow> Some lines
        | w # ws' \<Rightarrow>
            if length w < side
            then f side (snd (fill_line side '''' ws))
                   (lines @ [butlast (fst (fill_line side '''' ws))])
            else f side (drop side w # ws') (lines @ [take side w])) = Some y"
    show "side = 0 \<longrightarrow> ws = []"
    proof (cases ws)
      case (Cons w ws')
      have "side \<noteq> 0"
        using body ih[of side "drop side w # ws'"] unfolding Cons by (cases "side = 0") simp_all
      then show ?thesis by simp
    qed simp
  qed
  then show "make_lines 0 ws lines = Some r \<Longrightarrow> ws = []"
    by blast
qed

subsection \<open>What \<open>chat_lines\<close> promises\<close>

text \<open>
  Every text has lines when the side is not empty.  A text of white space only gives one line
  with one space, as does the empty text.
\<close>

lemma wrap_blank: "0 < side \<Longrightarrow> wrap side ['''', ''''] = ['' '']"
  by (subst wrap_line) simp_all

lemma chat_lines_wrap:
  assumes "0 < side"
  shows "chat_lines side s = Some (if tokens s = [] then ['' ''] else wrap side (tokens s))"
proof -
  have "tokens s \<noteq> [] \<Longrightarrow> join_words (tokens s) \<noteq> []"
    using tokens_nonspace[of "hd (tokens s)" s] by (cases "tokens s") (simp_all add: join_words_Cons)
  moreover have "words_of '' '' = ['''', '''']"
    using words_of_piece[of "''''" "''''"] by (simp add: words_of_single)
  moreover have "tokens [] = []"
    by (simp add: tokens_Nil_iff)
  ultimately show ?thesis
    by (auto simp: chat_lines_def normal_form make_lines_wrap[OF assms] wrap_blank[OF assms] words_of_tokens)
qed

lemma chat_lines_Nil: "chat_lines side [] = Some ['' '']"
  using normal_form[of "[]"] by (simp add: chat_lines_def)

lemma chat_lines_zero:
  assumes "s \<noteq> []"
  shows "chat_lines 0 s = None"
proof -
  have "words_of t \<noteq> []" for t
    by (subst words_of.simps) simp
  then have none: "make_lines 0 (words_of t) [] = None" for t
    using make_lines_zero by (cases "make_lines 0 (words_of t) []") blast+
  have "dedupe (trim_right (trim_left s)) \<noteq> []"
    using assms tokens_nonspace[of "hd (tokens s)" s]
    by (cases "tokens s") (simp_all add: normal_form join_words_Cons)
  then show ?thesis
    by (simp add: chat_lines_def none)
qed

lemma wrap_line_length:
  assumes "0 < side"
  shows "l \<in> set (wrap side ws) \<Longrightarrow> length l \<le> side"
proof (induction ws rule: wrap_induct[OF assms])
  case (2 w ws)
  have "length (fst (fill_line side '''' (w # ws))) \<le> Suc side"
    by (rule fill_line_bound) simp
  with 2 show ?case
    by (auto simp: wrap_line simp del: fill_line.simps)
next
  case (3 w ws)
  then show ?case
    using wrap_cut[OF assms, of w ws] by auto
qed simp

text \<open>The characters that are not white space, in order.\<close>

abbreviation visible :: "string \<Rightarrow> string" where
  "visible \<equiv> filter (\<lambda>c. \<not> isWhitespace c)"

lemma visible_blank [simp]: "list_all isWhitespace l \<Longrightarrow> visible l = []"
  by (simp add: list_all_iff)

lemma visible_word [simp]: "\<forall>c \<in> set w. \<not> isWhitespace c \<Longrightarrow> visible w = w"
  by simp

lemma visible_spaced: "visible (concat (map (\<lambda>w. w @ '' '') us)) = visible (concat us)"
  by (induction us) simp_all

lemma visible_butlast_space: "visible (butlast (l @ '' '')) = visible l"
  by simp

lemma fill_line_visible:
  assumes "length w < side"
  shows "visible (butlast (fst (fill_line side '''' (w # ws)))) @
      visible (concat (snd (fill_line side '''' (w # ws)))) = visible (concat (w # ws))"
proof -
  let ?f = "fill_line side (w @ '' '') ws"
  obtain us where ws: "ws = us @ snd ?f" and
    line: "fst ?f = (w @ '' '') @ concat (map (\<lambda>w. w @ '' '') us)"
    using fill_line_split by blast
  have "visible (butlast (fst ?f)) = visible (w @ concat us)"
  proof (cases us rule: rev_cases)
    case Nil
    with line show ?thesis by simp
  next
    case (snoc vs v)
    have "fst ?f = (w @ '' '' @ concat (map (\<lambda>w. w @ '' '') vs) @ v) @ '' ''"
      using line snoc by simp
    then have "butlast (fst ?f) = w @ '' '' @ concat (map (\<lambda>w. w @ '' '') vs) @ v"
      by (simp only: butlast_snoc)
    with snoc show ?thesis
      by (simp add: visible_spaced)
  qed
  moreover have "visible (concat ws) = visible (concat us) @ visible (concat (snd ?f))"
    by (subst ws) simp
  ultimately show ?thesis
    using assms by simp
qed

lemma wrap_visible:
  assumes "0 < side"
  shows "visible (concat (wrap side ws)) = visible (concat ws)"
proof (induction ws rule: wrap_induct[OF assms])
  case (2 w ws)
  then show ?case
    using fill_line_visible[of w side ws] by (simp add: wrap_line del: fill_line.simps)
next
  case (3 w ws)
  have "visible (take side w) @ visible (drop side w) = visible w"
    by (metis append_take_drop_id filter_append)
  with 3 show ?case
    using wrap_cut[OF assms, of w ws] by simp
qed simp

lemma visible_tokens: "concat (tokens s) = visible s"
proof (induction s rule: text_induct)
  case (blank s)
  then show ?case
    by (simp add: tokens_Nil_iff[THEN iffD2])
next
  case (word l w rest)
  then show ?case
    by (simp add: tokens_blank_append tokens_word)
qed

text \<open>When every word is shorter than the side no word is cut: each line is words joined by
  one space, and the lines together are all the words.\<close>

lemma butlast_spaced: "us \<noteq> [] \<Longrightarrow> butlast (concat (map (\<lambda>w. w @ '' '') us)) = join_words us"
proof (induction us)
  case (Cons w us)
  show ?case
  proof (cases us)
    case (Cons v vs)
    with Cons.IH have "butlast (concat (map (\<lambda>w. w @ '' '') us)) = join_words us"
      by simp
    then show ?thesis
      using Cons by (simp add: butlast_append)
  qed simp
qed simp

lemma wrap_words:
  assumes "0 < side"
  shows "\<forall>w \<in> set ws. length w < side \<Longrightarrow>
    \<exists>groups. ws = concat groups \<and> [] \<notin> set groups \<and> wrap side ws = map join_words groups"
proof (induction ws rule: wrap_induct[OF assms])
  case (2 w ws)
  let ?f = "fill_line side (w @ '' '') ws"
  have f: "fill_line side '''' (w # ws) = ?f"
    using 2(1) by simp
  obtain us where ws: "ws = us @ snd ?f" and
    line: "fst ?f = (w @ '' '') @ concat (map (\<lambda>w. w @ '' '') us)"
    using fill_line_split by blast
  have "\<forall>w \<in> set (snd ?f). length w < side"
    using 2(3) by (subst (asm) ws) auto
  then obtain groups where g: "snd ?f = concat groups" "[] \<notin> set groups"
    "wrap side (snd ?f) = map join_words groups"
    using 2(2) unfolding f by blast
  have "butlast (fst ?f) = join_words (w # us)"
    using line butlast_spaced[of "w # us"] by simp
  then have "wrap side (w # ws) = map join_words ((w # us) # groups)"
    using g(3) wrap_line[OF 2(1), of ws] unfolding f by simp
  moreover have "w # ws = concat ((w # us) # groups)"
    using ws g(1) by simp
  ultimately show ?case
    using g(2) by (intro exI[of _ "(w # us) # groups"]) simp
next
  case (3 w ws)
  then show ?case by auto
qed simp

lemma chat_lines_bounded:
  assumes "0 < side"
  shows "\<exists>ls. chat_lines side s = Some ls \<and> (\<forall>l \<in> set ls. length l \<le> side)"
  using assms wrap_line_length[OF assms] by (auto simp: chat_lines_wrap)

subsection \<open>Properties\<close>

text \<open>
  C12: whatever the text and the side, if the side is at least one character wide,
  \<open>print\<close> finishes its loops and produces lines; there is at least one line, none is longer than
  the side, and the lines hold exactly the visible characters of the text, in their order.
\<close>

theorem chat_lines_fit:
  assumes "0 < side"
  shows "\<exists>ls. chat_lines side s = Some ls \<and> ls \<noteq> [] \<and> (\<forall>l \<in> set ls. length l \<le> side) \<and>
    visible (concat ls) = visible s"
proof (cases "tokens s = []")
  case True
  then have "visible s = []"
    using visible_tokens[of s] by simp
  with True assms show ?thesis
    by (simp add: chat_lines_wrap)
next
  case False
  have "wrap side (tokens s) \<noteq> []"
    using False assms by (subst wrap.simps) simp
  moreover have "visible (visible s) = visible s"
    by simp
  ultimately show ?thesis
    using False wrap_line_length[OF assms] wrap_visible[OF assms, of "tokens s"]
    by (simp add: chat_lines_wrap[OF assms] visible_tokens)
qed

theorem chat_lines_fit_witness:
  "\<exists>ls. chat_lines 5 ''ab  cde fghijklm'' = Some ls \<and> ls \<noteq> [] \<and> (\<forall>l \<in> set ls. length l \<le> 5) \<and>
    visible (concat ls) = visible ''ab  cde fghijklm''"
  by (rule chat_lines_fit) simp

text \<open>
  C30: a text whose words are all shorter than the side is broken between words only:
  the lines are groups of its words joined by single spaces, no group is empty, and the groups
  in order are exactly the words of the text.
\<close>

theorem chat_lines_whole_words:
  assumes "tokens s \<noteq> []" "\<forall>w \<in> set (tokens s). length w < side"
  shows "\<exists>groups. chat_lines side s = Some (map join_words groups) \<and>
    [] \<notin> set groups \<and> concat groups = tokens s"
proof -
  have side: "0 < side"
    using assms by (cases "tokens s") auto
  obtain groups where "tokens s = concat groups" "[] \<notin> set groups"
    "wrap side (tokens s) = map join_words groups"
    using wrap_words[OF side assms(2)] by blast
  then show ?thesis
    using assms(1) by (simp add: chat_lines_wrap[OF side]) metis
qed

lemma tokens_sample: "tokens ''  ab c'' = [''ab'', ''c'']"
  by (simp add: tokens.simps isWhitespace_def mWhitespaceChars_def Let_def)

theorem chat_lines_whole_words_witness:
  "\<exists>groups. chat_lines 4 ''  ab c'' = Some (map join_words groups) \<and>
    [] \<notin> set groups \<and> concat groups = tokens ''  ab c''"
  by (rule chat_lines_whole_words) (simp_all add: tokens_sample)

text \<open>
  C36: with a side of width 0 (a terminal of width 0 or 1) printing any text that is not
  empty never finishes: the loop that cuts a word removes nothing.
\<close>

theorem chat_lines_stuck:
  "chat_lines side s = None \<longleftrightarrow> side = 0 \<and> s \<noteq> []"
  using chat_lines_wrap[of side s] chat_lines_zero[of s] chat_lines_Nil[of 0]
  by (cases "side = 0"; cases "s = []") auto

end
