(* ===== verification/Chat_Window.thy ===== *)
theory Chat_Window
  imports Chat_Handler Chat_Format
begin

text \<open>
  \<open>TTChat\<close> (chat/src/TTChat.cpp): the process that shows the current conversation, fed by
  the handler's messages.  \<open>None\<close> is a \<open>print\<close> whose loop never ends.  The width of the
  terminal and the text of a timestamp are parameters.

  The lemmas show that every line a message is printed on fits the terminal, that the
  chunks the handler cuts are put together again, and that however the engine's calls and the
  delivery of messages interleave, the terminal ends up showing the current conversation.
\<close>

subsection \<open>The width of a side\<close>

text \<open>
  \<open>mSideWidth(mWidth * settings.getRatio())\<close>: the product is rounded to a \<open>double\<close> and then
  truncated.  The nearest \<open>double\<close> to 0.7 is \<open>ratio_mantissa\<close> divided by \<open>2 ^ 53\<close>.
\<close>

definition ratio_mantissa :: nat where
  "ratio_mantissa = 6305039478318694"

fun bit_length :: "nat \<Rightarrow> nat" where
  "bit_length n = (if n = 0 then 0 else Suc (bit_length (n div 2)))"

declare bit_length.simps [simp del]

text \<open>\<open>n / 2 ^ k\<close> rounded to the nearest integer, a tie to the even one.\<close>

definition round_shift :: "nat \<Rightarrow> nat \<Rightarrow> nat" where
  "round_shift n k =
     (let q = n div 2 ^ k; r = n mod 2 ^ k in
      if 2 * r < 2 ^ k then q else if 2 ^ k < 2 * r then q + 1
      else if even q \<or> r = 0 then q else q + 1)"

definition side_width :: "nat \<Rightarrow> nat" where
  "side_width width =
     (let product = width * ratio_mantissa; k = bit_length product - 53
      in round_shift product k * 2 ^ k div 2 ^ 53)"

lemma bit_length_bound: "0 < n \<Longrightarrow> 2 ^ (bit_length n - 1) \<le> n"
proof (induction n rule: bit_length.induct)
  case (1 n)
  show ?case
  proof (cases "n div 2 = 0")
    case True
    then have "n = 1"
      using "1.prems" by (simp add: div_eq_0_iff)
    then show ?thesis
      by (simp add: bit_length.simps[of "Suc 0"] bit_length.simps[of 0])
  next
    case False
    have pos: "0 < bit_length (n div 2)"
      using False by (subst bit_length.simps) simp
    have "2 ^ (bit_length (n div 2) - 1) \<le> n div 2"
      using 1 False by simp
    then have "2 * 2 ^ (bit_length (n div 2) - 1) \<le> n"
      by simp
    then have "2 ^ bit_length (n div 2) \<le> n"
      using pos by (simp add: power_Suc[symmetric] del: power_Suc)
    then show ?thesis
      using "1.prems" by (subst bit_length.simps) simp
  qed
qed

lemma round_shift_bounds:
  "n \<le> round_shift n k * 2 ^ k + 2 ^ k"
  "round_shift n k * 2 ^ k \<le> n + 2 ^ k"
proof -
  have n: "n div 2 ^ k * 2 ^ k + n mod 2 ^ k = n"
    by (rule div_mult_mod_eq)
  have r: "n mod 2 ^ k < 2 ^ k"
    by simp
  have "round_shift n k = n div 2 ^ k \<or> round_shift n k = n div 2 ^ k + 1"
    by (simp add: round_shift_def Let_def)
  then have "round_shift n k * 2 ^ k = n div 2 ^ k * 2 ^ k \<or>
      round_shift n k * 2 ^ k = n div 2 ^ k * 2 ^ k + 2 ^ k"
    by auto
  then show "n \<le> round_shift n k * 2 ^ k + 2 ^ k" "round_shift n k * 2 ^ k \<le> n + 2 ^ k"
    using n r by linarith+
qed

lemma side_width_bounds:
  assumes "2 \<le> width"
  shows "0 < side_width width" "side_width width \<le> width"
proof -
  let ?p = "width * ratio_mantissa"
  let ?k = "bit_length ?p - 53"
  let ?r = "round_shift ?p ?k * 2 ^ ?k"
  have p: "12610078956637388 \<le> ?p"
    using assms by (simp add: ratio_mantissa_def)
  have k: "2 ^ ?k * 2 ^ 52 \<le> ?p"
  proof (cases "53 \<le> bit_length ?p")
    case True
    have "?k + 52 = bit_length ?p - 1"
      using True by linarith
    then have "2 ^ ?k * 2 ^ 52 = (2::nat) ^ (bit_length ?p - 1)"
      by (simp only: power_add[symmetric])
    also have "\<dots> \<le> ?p"
      using p by (intro bit_length_bound) linarith
    finally show ?thesis .
  next
    case False
    with p show ?thesis by simp
  qed
  have "2 ^ 53 \<le> ?r"
    using round_shift_bounds(1)[of ?p ?k] k p by simp
  then show "0 < side_width width"
    by (simp add: side_width_def Let_def div_greater_zero_iff)
  have "?r \<le> width * 2 ^ 53"
    using round_shift_bounds(2)[of ?p ?k] k by (simp add: ratio_mantissa_def)
  then show "side_width width \<le> width"
    by (simp add: side_width_def Let_def less_mult_imp_div_less div_le_mono flip: div_mult_self_is_m)
qed

lemma bit_length_le: "n < 2 ^ k \<Longrightarrow> bit_length n \<le> k"
proof (induction k arbitrary: n)
  case 0
  then show ?case
    by (subst bit_length.simps) simp
next
  case (Suc k)
  then have "bit_length (n div 2) \<le> k"
    by (simp add: less_mult_imp_div_less mult.commute)
  then show ?case
    by (subst bit_length.simps) simp
qed

lemma side_width_exact: "width * ratio_mantissa < 2 ^ 53 \<Longrightarrow> side_width width = 0"
  using bit_length_le[of "width * ratio_mantissa" 53]
  by (simp add: side_width_def round_shift_def Let_def)

lemma side_width_zero_iff: "side_width width = 0 \<longleftrightarrow> width < 2"
proof (cases "width < 2")
  case True
  then have "width * ratio_mantissa \<le> 1 * ratio_mantissa"
    by (intro mult_le_mono1) simp
  then have "width * ratio_mantissa < 2 ^ 53"
    by (simp add: ratio_mantissa_def)
  with True side_width_exact show ?thesis
    by simp
next
  case False
  then show ?thesis
    using side_width_bounds(1)[of width] by simp
qed

subsection \<open>Printing\<close>

text \<open>\<open>mBlankLine.substr(0, mBlankLine.size() - s.size())\<close>, with the subtraction of \<open>size_t\<close>.\<close>

definition blank_prefix :: "nat \<Rightarrow> string \<Rightarrow> string" where
  "blank_prefix width s =
     (let mBlankLine = replicate width (CHR '' '')
      in take (unat (of_nat (length mBlankLine) - of_nat (length s) :: u64)) mBlankLine)"

definition chat_print ::
  "(timestamp \<Rightarrow> string) \<Rightarrow> nat \<Rightarrow> chat_message_type \<Rightarrow> timestamp \<Rightarrow> string \<Rightarrow> string option" where
  "chat_print fmt width ty ts data = do {
     lines \<leftarrow> chat_lines (side_width width) data;
     let timestampStr = fmt ts;
     Some (if ty = RECEIVER
       then timestampStr @ NEWLINE @ concat (map (\<lambda>l. l @ NEWLINE) lines) @ NEWLINE
       else blank_prefix width timestampStr @ timestampStr @ NEWLINE @
            concat (map (\<lambda>l. blank_prefix width l @ l @ NEWLINE) lines) @ NEWLINE)
   }"

lemma blank_prefix_fits:
  assumes "length s \<le> width" "width < 2 ^ 64"
  shows "blank_prefix width s @ s = replicate (width - length s) (CHR '' '') @ s"
proof -
  have u: "unat (of_nat width :: u64) = width" "unat (of_nat (length s) :: u64) = length s"
    using assms by (simp_all add: unat_of_nat)
  then have "(of_nat (length s) :: u64) \<le> of_nat width"
    using assms(1) by (simp add: word_le_nat_alt)
  with u have "unat (of_nat width - of_nat (length s) :: u64) = width - length s"
    by (simp add: unat_sub)
  then show ?thesis
    by (simp add: blank_prefix_def Let_def)
qed

lemma chat_print_total: "2 \<le> width \<Longrightarrow> \<exists>out. chat_print fmt width ty ts data = Some out"
  using chat_lines_wrap[OF side_width_bounds(1), of width data]
  by (auto simp: chat_print_def Let_def)

subsection \<open>The window\<close>

record chat_window =
  tw_stopped :: bool
  mChunks :: "chat_message list"
  tw_out :: string

definition init_chat_window :: chat_window where
  "init_chat_window = \<lparr>tw_stopped = False, mChunks = [], tw_out = ''''\<rparr>"

definition chat_handle ::
  "(timestamp \<Rightarrow> string) \<Rightarrow> nat \<Rightarrow> chat_message \<Rightarrow> chat_window \<Rightarrow> (bool \<times> chat_window) option" where
  "chat_handle fmt width m w =
     (case cm_type m of
        CLEAR \<Rightarrow>
          if mChunks w \<noteq> [] then Some (False, w)
          else Some (True, w\<lparr>tw_out := tw_out w @ CLEAR_SCREEN\<rparr>)
      | SENDER \<Rightarrow>
          if mChunks w \<noteq> [] \<and> cm_type (last (mChunks w)) \<noteq> SENDER_CHUNK then Some (False, w)
          else do {
            out \<leftarrow> chat_print fmt width (cm_type m) (cm_timestamp m)
              (concat (map cm_data (mChunks w)) @ cm_data m);
            Some (True, w\<lparr>mChunks := [], tw_out := tw_out w @ out\<rparr>)
          }
      | SENDER_CHUNK \<Rightarrow>
          if mChunks w \<noteq> [] \<and> cm_type (last (mChunks w)) \<noteq> cm_type m then Some (False, w)
          else Some (True, w\<lparr>mChunks := mChunks w @ [m]\<rparr>)
      | RECEIVER \<Rightarrow>
          if mChunks w \<noteq> [] \<and> cm_type (last (mChunks w)) \<noteq> RECEIVER_CHUNK then Some (False, w)
          else do {
            out \<leftarrow> chat_print fmt width (cm_type m) (cm_timestamp m)
              (concat (map cm_data (mChunks w)) @ cm_data m);
            Some (True, w\<lparr>mChunks := [], tw_out := tw_out w @ out\<rparr>)
          }
      | RECEIVER_CHUNK \<Rightarrow>
          if mChunks w \<noteq> [] \<and> cm_type (last (mChunks w)) \<noteq> cm_type m then Some (False, w)
          else Some (True, w\<lparr>mChunks := mChunks w @ [m]\<rparr>)
      | CHAT_HEARTBEAT \<Rightarrow> Some (True, w)
      | CHAT_GOODBYE \<Rightarrow> Some (False, w\<lparr>tw_stopped := True\<rparr>)
      | TYPE_OTHER n \<Rightarrow> Some (False, w\<lparr>tw_stopped := True\<rparr>))"

text \<open>
  The loop of \<open>run\<close> on what the primary queue's \<open>receive\<close> returns (\<open>None\<close> for a failure);
  at the end of the list the loop waits for the next message.
\<close>

fun chat_run ::
  "(timestamp \<Rightarrow> string) \<Rightarrow> nat \<Rightarrow> chat_window \<Rightarrow> chat_message option list \<Rightarrow> chat_window option" where
  "chat_run fmt width w [] = Some w"
| "chat_run fmt width w (r # rs) =
     (if tw_stopped w then Some (w\<lparr>tw_stopped := True\<rparr>)
      else case r of
        None \<Rightarrow> Some (w\<lparr>tw_stopped := True\<rparr>)
      | Some m \<Rightarrow>
          (case chat_handle fmt width m w of
             None \<Rightarrow> None
           | Some (False, w1) \<Rightarrow> Some (w1\<lparr>tw_stopped := True\<rparr>)
           | Some (True, w1) \<Rightarrow> chat_run fmt width w1 rs))"

subsection \<open>Chunks are put together again\<close>

text \<open>The window after messages that are all handled with \<open>true\<close>.\<close>

fun window_after ::
  "(timestamp \<Rightarrow> string) \<Rightarrow> nat \<Rightarrow> chat_window \<Rightarrow> chat_message list \<Rightarrow> chat_window option" where
  "window_after fmt width w [] = Some w"
| "window_after fmt width w (m # ms) =
     (case chat_handle fmt width m w of
        Some (True, w1) \<Rightarrow> window_after fmt width w1 ms
      | _ \<Rightarrow> None)"

lemma window_after_append:
  "window_after fmt width w (ms @ ms') =
     (case window_after fmt width w ms of
        None \<Rightarrow> None | Some w1 \<Rightarrow> window_after fmt width w1 ms')"
  by (induction ms arbitrary: w) (auto split: option.splits prod.splits bool.splits)

lemma window_after_chunks:
  assumes "ty = SENDER_CHUNK \<or> ty = RECEIVER_CHUNK"
    and "mChunks w = [] \<or> cm_type (last (mChunks w)) = ty"
  shows "window_after fmt width w (map (\<lambda>c. \<lparr>cm_type = ty, cm_timestamp = ts, cm_data = c\<rparr>) cs) =
    Some (w\<lparr>mChunks := mChunks w @ map (\<lambda>c. \<lparr>cm_type = ty, cm_timestamp = ts, cm_data = c\<rparr>) cs\<rparr>)"
  using assms(2)
proof (induction cs arbitrary: w)
  case (Cons c cs)
  let ?m = "\<lparr>cm_type = ty, cm_timestamp = ts, cm_data = c\<rparr>"
  have "chat_handle fmt width ?m w = Some (True, w\<lparr>mChunks := mChunks w @ [?m]\<rparr>)"
    using Cons.prems assms(1) by (auto simp: chat_handle_def)
  then show ?case
    using Cons.IH[of "w\<lparr>mChunks := mChunks w @ [?m]\<rparr>"] by simp
qed simp

definition rendering :: "(timestamp \<Rightarrow> string) \<Rightarrow> nat \<Rightarrow> chat_entry \<Rightarrow> string" where
  "rendering fmt width e = the (chat_print fmt width (te_type e) (te_timestamp e) (te_data e))"

lemma rendering_eq:
  "2 \<le> width \<Longrightarrow>
   chat_print fmt width (te_type e) (te_timestamp e) (te_data e) = Some (rendering fmt width e)"
  using chat_print_total[of width fmt "te_type e" "te_timestamp e" "te_data e"]
  by (auto simp: rendering_def)

lemma window_after_entry:
  assumes "2 \<le> width" "mChunks w = []" "te_type e = SENDER \<or> te_type e = RECEIVER"
  shows "window_after fmt width w (entry_messages e) =
    Some (w\<lparr>tw_out := tw_out w @ rendering fmt width e\<rparr>)"
proof -
  let ?ct = "type_cast (type_code (te_type e) + 1)"
  let ?cs = "butlast (chunks_of (te_data e))"
  let ?chunks = "map (\<lambda>c. \<lparr>cm_type = ?ct, cm_timestamp = te_timestamp e, cm_data = c\<rparr>) ?cs"
  let ?w = "w\<lparr>mChunks := mChunks w @ ?chunks\<rparr>"
  have ct: "?ct = (if te_type e = SENDER then SENDER_CHUNK else RECEIVER_CHUNK)"
    using assms(3) by (auto simp: type_cast_def)
  have "window_after fmt width w ?chunks = Some ?w"
    by (rule window_after_chunks) (use ct assms(2) in auto)
  moreover have last: "?cs = [] \<or> cm_type (last ?chunks) = ?ct"
    by (cases ?cs rule: rev_cases) simp_all
  have "concat ?cs @ last (chunks_of (te_data e)) = te_data e"
    using append_butlast_last_id[OF chunks_of_ne, of "te_data e"] concat_chunks_of[of "te_data e"]
    by (metis concat_append concat.simps append_Nil2)
  then have "chat_handle fmt width
      \<lparr>cm_type = te_type e, cm_timestamp = te_timestamp e, cm_data = last (chunks_of (te_data e))\<rparr> ?w =
     Some (True, w\<lparr>tw_out := tw_out w @ rendering fmt width e\<rparr>)"
    using assms(2,3) last ct rendering_eq[OF assms(1), of fmt e]
    by (auto simp: chat_handle_def comp_def)
  ultimately show ?thesis
    by (simp add: entry_messages_def typed_pieces_def window_after_append)
qed

lemma window_after_entries:
  assumes "2 \<le> width" "mChunks w = []" "\<forall>e \<in> set es. te_type e = SENDER \<or> te_type e = RECEIVER"
  shows "window_after fmt width w (concat (map entry_messages es)) =
    Some (w\<lparr>tw_out := tw_out w @ concat (map (rendering fmt width) es)\<rparr>)"
  using assms(2,3)
proof (induction es arbitrary: w)
  case (Cons e es)
  have "window_after fmt width w (entry_messages e) =
      Some (w\<lparr>tw_out := tw_out w @ rendering fmt width e\<rparr>)"
    by (rule window_after_entry) (use assms(1) Cons.prems in simp_all)
  with Cons show ?case
    by (simp add: window_after_append)
qed simp

subsection \<open>Handler and window together\<close>

definition conversation :: "chat_handler \<Rightarrow> chat_entry list" where
  "conversation h = (case mCurrentId h of None \<Rightarrow> [] | Some i \<Rightarrow> mMessages h ! i)"

lemma conversation_frame [simp]:
  "conversation (h\<lparr>th_stopped := b\<rparr>) = conversation h"
  "conversation (h\<lparr>th_queue := q\<rparr>) = conversation h"
  by (simp_all add: conversation_def split: option.split)

text \<open>What is on the screen: the entries printed since the terminal was last cleared.\<close>

definition on_screen ::
  "(timestamp \<Rightarrow> string) \<Rightarrow> nat \<Rightarrow> chat_entry list \<Rightarrow> string \<Rightarrow> bool" where
  "on_screen fmt width es out \<longleftrightarrow>
     (\<exists>pre. out = pre @ concat (map (rendering fmt width) es) \<and>
        (pre = [] \<or> (\<exists>q. pre = q @ CLEAR_SCREEN)))"

lemma on_screen_more:
  "on_screen fmt width es out \<Longrightarrow>
   on_screen fmt width (es @ es') (out @ concat (map (rendering fmt width) es'))"
  by (auto simp: on_screen_def)

lemma on_screen_cleared: "on_screen fmt width es
    ((out @ CLEAR_SCREEN) @ concat (map (rendering fmt width) es))"
  by (auto simp: on_screen_def)

text \<open>
  A handler's queue is good for a window when delivering it ends without a chunk left over and
  with the current conversation on the screen.
\<close>

definition queue_shows ::
  "(timestamp \<Rightarrow> string) \<Rightarrow> nat \<Rightarrow> chat_window \<Rightarrow> chat_handler \<Rightarrow> bool" where
  "queue_shows fmt width w h \<longleftrightarrow>
     (\<exists>w'. window_after fmt width w (th_queue h) = Some w' \<and> mChunks w' = [] \<and>
        on_screen fmt width (conversation h) (tw_out w'))"

lemma queue_shows_more:
  assumes "2 \<le> width" "queue_shows fmt width w h"
    and "th_queue h' = th_queue h @ concat (map entry_messages es)"
    and "conversation h' = conversation h @ es"
    and "\<forall>e \<in> set es. te_type e = SENDER \<or> te_type e = RECEIVER"
  shows "queue_shows fmt width w h'"
proof -
  obtain w' where w': "window_after fmt width w (th_queue h) = Some w'" "mChunks w' = []"
    "on_screen fmt width (conversation h) (tw_out w')"
    using assms(2) unfolding queue_shows_def by blast
  have "window_after fmt width w (th_queue h') =
      Some (w'\<lparr>tw_out := tw_out w' @ concat (map (rendering fmt width) es)\<rparr>)"
    using w'(1) window_after_entries[OF assms(1) w'(2) assms(5), of fmt] assms(3)
    by (simp add: window_after_append)
  with w' on_screen_more[OF w'(3), of es] assms(4) show ?thesis
    by (simp add: queue_shows_def)
qed

lemma queue_shows_clear:
  assumes "2 \<le> width" "queue_shows fmt width w h"
    and "th_queue h' = th_queue h @ [clear_message now] @ concat (map entry_messages es)"
    and "conversation h' = es"
    and "\<forall>e \<in> set es. te_type e = SENDER \<or> te_type e = RECEIVER"
  shows "queue_shows fmt width w h'"
proof -
  obtain w' where w': "window_after fmt width w (th_queue h) = Some w'" "mChunks w' = []"
    using assms(2) unfolding queue_shows_def by blast
  let ?w1 = "w'\<lparr>tw_out := tw_out w' @ CLEAR_SCREEN\<rparr>"
  have "window_after fmt width w' [clear_message now] = Some ?w1"
    using w'(2) by (simp add: chat_handle_def clear_message_def)
  moreover have "window_after fmt width ?w1 (concat (map entry_messages es)) =
      Some (?w1\<lparr>tw_out := tw_out ?w1 @ concat (map (rendering fmt width) es)\<rparr>)"
    using window_after_entries[OF assms(1) _ assms(5), of ?w1 fmt] w'(2) by simp
  ultimately have "window_after fmt width w (th_queue h') =
      Some (?w1\<lparr>tw_out := tw_out ?w1 @ concat (map (rendering fmt width) es)\<rparr>)"
    using w'(1) assms(3) window_after_append[of fmt width w' "[clear_message now]"]
    by (simp add: window_after_append)
  with w'(2) on_screen_cleared assms(4) show ?thesis
    by (simp add: queue_shows_def)
qed

lemma queue_shows_heartbeat:
  assumes "queue_shows fmt width w h"
  shows "queue_shows fmt width w
    (h\<lparr>th_queue := th_queue h @ typed_pieces CHAT_HEARTBEAT now (chunks_of '''')\<rparr>)"
  using assms
  by (auto simp: queue_shows_def window_after_append typed_pieces_empty chat_handle_def
      split: option.splits)

lemma conversation_entries:
  "chat_inv h \<Longrightarrow> i < length (mMessages h) \<Longrightarrow>
   \<forall>e \<in> set (mMessages h ! i). te_type e = SENDER \<or> te_type e = RECEIVER"
  unfolding chat_inv_def using nth_mem[of i "mMessages h"] by blast

lemma queue_shows_step:
  assumes w: "2 \<le> width" and inv: "chat_inv h" and qs: "queue_shows fmt width w h"
    and st: "chat_step h x = Some (r, h')"
  shows "queue_shows fmt width w h'"
proof (cases x)
  case (ChatSend i m ts)
  let ?e = "\<lparr>te_type = SENDER, te_timestamp = ts, te_data = m\<rparr>"
  show ?thesis
  proof (cases "\<not> th_stopped h \<and> mCurrentId h = Some i \<and> i < length (mMessages h)")
    case True
    with st ChatSend have "h' = h\<lparr>mMessages := (mMessages h)[i := mMessages h ! i @ [?e]],
        th_queue := th_queue h @ entry_messages ?e\<rparr>"
      by (simp add: chat_send_eq Let_def)
    then show ?thesis
      by (intro queue_shows_more[OF w qs, of _ "[?e]"])
        (use True in \<open>auto simp: conversation_def\<close>)
  next
    case False
    with st ChatSend qs show ?thesis
      by (auto simp: chat_send_eq)
  qed
next
  case (ChatReceive i m ts)
  let ?e = "\<lparr>te_type = RECEIVER, te_timestamp = ts, te_data = m\<rparr>"
  show ?thesis
  proof (cases "\<not> th_stopped h \<and> i < length (mMessages h)")
    case True
    let ?h = "h\<lparr>mMessages := (mMessages h)[i := mMessages h ! i @ [?e]]\<rparr>"
    show ?thesis
    proof (cases "mCurrentId h = Some i")
      case c: True
      with True st ChatReceive have "h' = ?h\<lparr>th_queue := th_queue h @ entry_messages ?e\<rparr>"
        by (simp add: chat_receive_eq Let_def)
      then show ?thesis
        by (intro queue_shows_more[OF w qs, of _ "[?e]"])
          (use True c in \<open>auto simp: conversation_def\<close>)
    next
      case False
      with True st ChatReceive have "h' = ?h"
        by (simp add: chat_receive_eq Let_def)
      then show ?thesis
        by (intro queue_shows_more[OF w qs, of _ "[]"])
          (use False in \<open>auto simp: conversation_def split: option.splits\<close>)
    qed
  next
    case False
    with st ChatReceive qs show ?thesis
      by (auto simp: chat_receive_eq)
  qed
next
  case (ChatSelect now i)
  show ?thesis
  proof (cases "th_stopped h \<or> length (mMessages h) \<le> i \<or> mCurrentId h = Some i")
    case True
    with st ChatSelect qs show ?thesis
      by (auto simp: chat_select_eq split: if_splits)
  next
    case False
    let ?es = "mMessages h ! i"
    have h': "h' = h\<lparr>mCurrentId := Some i, th_queue := th_queue h @
        (if mCurrentId h = None then [] else [clear_message now]) @ concat (map entry_messages ?es)\<rparr>"
      using False st ChatSelect by (simp add: chat_select_eq split: if_splits)
    have es: "\<forall>e \<in> set ?es. te_type e = SENDER \<or> te_type e = RECEIVER"
      using conversation_entries[OF inv, of i] False by simp
    show ?thesis
    proof (cases "mCurrentId h = None")
      case True
      with h' es show ?thesis
        by (intro queue_shows_more[OF w qs, of _ ?es]) (simp_all add: conversation_def)
    next
      case c: False
      with h' es show ?thesis
        by (intro queue_shows_clear[OF w qs, of _ now ?es]) (simp_all add: conversation_def)
    qed
  qed
next
  case (ChatCreate i)
  with st qs inv show ?thesis
    by (auto simp: chat_create_def queue_shows_def conversation_def chat_inv_def nth_append
        split: if_splits option.splits)
next
  case (ChatHeartbeat now)
  with st qs queue_shows_heartbeat[OF qs] show ?thesis
    by (auto simp: chat_queue_data_eq split: if_splits)
next
  case ChatStop
  with st qs show ?thesis
    by (auto simp: queue_shows_def chat_stop_def)
qed

text \<open>
  The engine's calls on the handler, interleaved in any order with the delivery of the oldest
  queued message.
\<close>

record chat_system =
  cs_handler :: chat_handler
  cs_window :: chat_window

datatype chat_event = ChatCall chat_op | ChatDeliver

definition init_chat_system :: chat_system where
  "init_chat_system = \<lparr>cs_handler = init_chat_handler, cs_window = init_chat_window\<rparr>"

definition chat_deliver ::
  "(timestamp \<Rightarrow> string) \<Rightarrow> nat \<Rightarrow> chat_system \<Rightarrow> (bool \<times> chat_system) option" where
  "chat_deliver fmt width s =
     (case th_queue (cs_handler s) of
        [] \<Rightarrow> Some (False, s)
      | m # ms \<Rightarrow>
          (case chat_handle fmt width m (cs_window s) of
             None \<Rightarrow> None
           | Some (r, w) \<Rightarrow>
               Some (r, \<lparr>cs_handler = (cs_handler s)\<lparr>th_queue := ms\<rparr>, cs_window = w\<rparr>)))"

primrec chat_system_step ::
  "(timestamp \<Rightarrow> string) \<Rightarrow> nat \<Rightarrow> chat_system \<Rightarrow> chat_event \<Rightarrow> (bool \<times> chat_system) option" where
  "chat_system_step fmt width s (ChatCall x) =
     (case chat_step (cs_handler s) x of
        None \<Rightarrow> None
      | Some (r, h) \<Rightarrow> Some (r, s\<lparr>cs_handler := h\<rparr>))"
| "chat_system_step fmt width s ChatDeliver = chat_deliver fmt width s"

definition chat_system_inv :: "(timestamp \<Rightarrow> string) \<Rightarrow> nat \<Rightarrow> chat_system \<Rightarrow> bool" where
  "chat_system_inv fmt width s \<longleftrightarrow>
     2 \<le> width \<and> chat_inv (cs_handler s) \<and> queue_shows fmt width (cs_window s) (cs_handler s)"

lemma chat_system_inv_init: "2 \<le> width \<Longrightarrow> chat_system_inv fmt width init_chat_system"
  by (simp add: chat_system_inv_def init_chat_system_def chat_inv_init)
    (simp add: queue_shows_def init_chat_handler_def init_chat_window_def conversation_def on_screen_def)

lemma chat_deliver_inv:
  assumes "chat_system_inv fmt width s"
  shows "\<exists>r s'. chat_deliver fmt width s = Some (r, s') \<and> chat_system_inv fmt width s' \<and>
    r = (th_queue (cs_handler s) \<noteq> [])"
proof (cases "th_queue (cs_handler s)")
  case Nil
  with assms show ?thesis
    by (auto simp: chat_deliver_def)
next
  case (Cons m ms)
  then obtain w1 where w1: "chat_handle fmt width m (cs_window s) = Some (True, w1)"
    "queue_shows fmt width w1 ((cs_handler s)\<lparr>th_queue := ms\<rparr>)"
    using assms
    by (auto simp: chat_system_inv_def queue_shows_def
        split: option.splits prod.splits bool.splits)
  with Cons assms show ?thesis
    by (auto simp: chat_deliver_def chat_system_inv_def)
qed

interpretation chat_pair: machine "chat_system_step fmt width" "chat_system_inv fmt width" "\<lambda>x. True"
  for fmt width
proof
  fix s x
  assume inv: "chat_system_inv fmt width s"
  show "\<exists>r s'. chat_system_step fmt width s x = Some (r, s') \<and> chat_system_inv fmt width s'"
  proof (cases x)
    case (ChatCall y)
    have h: "2 \<le> width" "chat_inv (cs_handler s)" "queue_shows fmt width (cs_window s) (cs_handler s)"
      using inv by (simp_all add: chat_system_inv_def)
    obtain r h' where st: "chat_step (cs_handler s) y = Some (r, h')" "chat_inv h'"
      using chat_step_inv[OF h(2)] by blast
    with queue_shows_step[OF h st(1)] h(1) ChatCall show ?thesis
      by (simp add: chat_system_inv_def)
  next
    case ChatDeliver
    with chat_deliver_inv[OF inv] show ?thesis
      by simp blast
  qed
qed

subsection \<open>Properties\<close>

text \<open>
  C10: however the engine's calls on the chat handler are interleaved with the delivery
  of its messages to the chat process, on a terminal of at least two columns no call aborts, no
  \<open>print\<close> hangs, and whenever the queue has been delivered the terminal shows, since it was
  last cleared, exactly the current conversation: every entry of it once, in order, printed with
  its own type, timestamp and full text, chunks put together again.
\<close>

theorem chat_window_in_step:
  assumes "2 \<le> width"
  shows "\<exists>rs s. run_ops (chat_system_step fmt width) init_chat_system xs = Some (rs, s) \<and>
    (th_queue (cs_handler s) = [] \<longrightarrow>
       (\<exists>pre outs. tw_out (cs_window s) = pre @ concat outs \<and>
          (pre = [] \<or> (\<exists>q. pre = q @ CLEAR_SCREEN)) \<and>
          map (\<lambda>e. chat_print fmt width (te_type e) (te_timestamp e) (te_data e))
            (conversation (cs_handler s)) = map Some outs))"
proof -
  obtain rs s where run: "run_ops (chat_system_step fmt width) init_chat_system xs = Some (rs, s)"
    and inv: "chat_system_inv fmt width s"
    using chat_pair.run_total[OF chat_system_inv_init[OF assms, of fmt], of xs]
    by (auto simp: list_all_iff)
  have "th_queue (cs_handler s) = [] \<Longrightarrow>
      on_screen fmt width (conversation (cs_handler s)) (tw_out (cs_window s))"
    using inv by (simp add: chat_system_inv_def queue_shows_def)
  moreover have "map (\<lambda>e. chat_print fmt width (te_type e) (te_timestamp e) (te_data e)) es =
      map Some (map (rendering fmt width) es)" for es
    by (simp add: rendering_eq[OF assms])
  ultimately have "th_queue (cs_handler s) = [] \<Longrightarrow>
       \<exists>pre outs. tw_out (cs_window s) = pre @ concat outs \<and>
          (pre = [] \<or> (\<exists>q. pre = q @ CLEAR_SCREEN)) \<and>
          map (\<lambda>e. chat_print fmt width (te_type e) (te_timestamp e) (te_data e))
            (conversation (cs_handler s)) = map Some outs"
    unfolding on_screen_def by blast
  with run show ?thesis
    by blast
qed

theorem chat_window_in_step_witness:
  "let xs = [ChatCall (ChatCreate 0), ChatCall (ChatSelect 7 0), ChatCall (ChatSend 0 ''hi'' 8), ChatDeliver]
   in \<exists>rs s. run_ops (chat_system_step (\<lambda>t. ''now'') 80) init_chat_system xs = Some (rs, s) \<and>
     (th_queue (cs_handler s) = [] \<longrightarrow>
       (\<exists>pre outs. tw_out (cs_window s) = pre @ concat outs \<and>
          (pre = [] \<or> (\<exists>q. pre = q @ CLEAR_SCREEN)) \<and>
          map (\<lambda>e. chat_print (\<lambda>t. ''now'') 80 (te_type e) (te_timestamp e) (te_data e))
            (conversation (cs_handler s)) = map Some outs))"
  unfolding Let_def by (rule chat_window_in_step) simp

text \<open>
  How a message looks: the timestamp and the lines of the text, each on a row of
  its own and followed by an empty row.  Rows of a received message start at the left; rows of a
  sent message are padded to the full width, so that they end at the right.  No line is longer than
  the side, nor the side than the terminal.
\<close>

theorem chat_print_rows:
  assumes "2 \<le> width" "width < 2 ^ 64" "length (fmt ts) \<le> width"
  shows "\<exists>ls. chat_lines (side_width width) data = Some ls \<and>
    (\<forall>l \<in> set ls. length l \<le> side_width width) \<and> side_width width \<le> width \<and>
    chat_print fmt width RECEIVER ts data =
      Some (concat (map (\<lambda>l. l @ NEWLINE) (fmt ts # ls)) @ NEWLINE) \<and>
    chat_print fmt width SENDER ts data =
      Some (concat (map (\<lambda>l. replicate (width - length l) (CHR '' '') @ l @ NEWLINE) (fmt ts # ls)) @
        NEWLINE)"
proof -
  obtain ls where ls: "chat_lines (side_width width) data = Some ls"
    "\<forall>l \<in> set ls. length l \<le> side_width width"
    using chat_lines_bounded[OF side_width_bounds(1)[OF assms(1)]] by blast
  have pad: "l \<in> set (fmt ts # ls) \<Longrightarrow>
      blank_prefix width l @ l = replicate (width - length l) (CHR '' '') @ l" for l
    using ls(2) assms side_width_bounds(2)[OF assms(1)] by (intro blank_prefix_fits) fastforce+
  have "map (\<lambda>l. blank_prefix width l @ l @ NEWLINE) (fmt ts # ls) =
      map (\<lambda>l. replicate (width - length l) (CHR '' '') @ l @ NEWLINE) (fmt ts # ls)"
    using pad by (intro map_cong) (simp_all only: append_assoc[symmetric])
  then have "concat (map (\<lambda>l. blank_prefix width l @ l @ NEWLINE) (fmt ts # ls)) =
      concat (map (\<lambda>l. replicate (width - length l) (CHR '' '') @ l @ NEWLINE) (fmt ts # ls))"
    by (rule arg_cong)
  with ls side_width_bounds(2)[OF assms(1)] show ?thesis
    by (intro exI[of _ ls]) (simp add: chat_print_def Let_def)
qed

theorem chat_print_rows_witness:
  "\<exists>ls. chat_lines (side_width 80) ''hello world'' = Some ls \<and>
    (\<forall>l \<in> set ls. length l \<le> side_width 80) \<and> side_width 80 \<le> 80 \<and>
    chat_print (\<lambda>t. ''now'') 80 RECEIVER 3 ''hello world'' =
      Some (concat (map (\<lambda>l. l @ NEWLINE) (''now'' # ls)) @ NEWLINE) \<and>
    chat_print (\<lambda>t. ''now'') 80 SENDER 3 ''hello world'' =
      Some (concat (map (\<lambda>l. replicate (80 - length l) (CHR '' '') @ l @ NEWLINE) (''now'' # ls)) @
        NEWLINE)"
  using chat_print_rows[of 80 "\<lambda>t. ''now''" 3 "''hello world''"] by simp

end
