(* ===== verification/Chat_Link.thy ===== *)
theory Chat_Link
  imports Chat_Window Pump_Spec
begin

text \<open>
  The connection of \<open>TTChatHandler\<close> (in the engine's process) and \<open>TTChat\<close> (the window's
  process): four threads and two message queues.  The handler's \<open>main\<close> moves the queued messages
  into the primary queue, from which the window's \<open>run\<close> handles them; the window's \<open>heartbeat\<close>
  fills the secondary queue, which the handler's \<open>heartbeat\<close> empties.  One relation holds the steps
  of each thread: a step for each place where it reads a stop flag, waits for the queued
  messages or calls a message queue.  \<open>chat_callers\<close> is everybody else: the callers of the
  handler's operations, who queue messages, and whoever stops one of the two objects.

  A message queue holds at most eight messages, and a call on it may fail at any time (a time out
  or a signal).  \<open>wait_for\<close> ends by itself, so a thread that waits can always go on.
  \<open>cl_wire\<close> lists the messages put into the primary queue, \<open>cl_shown\<close> those taken out of it and
  handled, and \<open>cl_accepted\<close>, which no step reads, those ever queued.
\<close>

subsection \<open>State\<close>

datatype chat_main_pc =
    M_Start
  | M_Wait                            \<comment> \<open>in \<open>dequeue\<close>, at the wait\<close>
  | M_Beat                            \<comment> \<open>the wait timed out, in \<open>send\<close> before it reads the stop flag\<close>
  | M_Beating                         \<comment> \<open>in \<open>send\<close>, after it read the stop flag as unset\<close>
  | M_Sending "chat_message list"     \<comment> \<open>at the head of the loop over the batch\<close>
  | M_Checked "chat_message list"     \<comment> \<open>the stop flag was read as unset\<close>
  | M_Goodbye                         \<comment> \<open>at \<open>sendGoodbye\<close>\<close>
  | M_Leaving                         \<comment> \<open>at \<open>stop\<close>\<close>
  | M_Exited

text \<open>The three other threads have loops of the same shape.\<close>

datatype loop_pc =
    L_Start
  | L_Head                            \<comment> \<open>at the head of the loop\<close>
  | L_Checked                         \<comment> \<open>the stop flag was read as unset\<close>
  | L_Leaving                         \<comment> \<open>at \<open>stop\<close>\<close>
  | L_Exited

record chat_link =
  cl_alive :: bool                    \<comment> \<open>the queues are alive, for the handler\<close>
  cl_stopped :: bool
  cl_queue :: "chat_message list"
  cl_main :: chat_main_pc
  cl_beat :: loop_pc
  cl_primary :: "chat_message list"
  cl_secondary :: "chat_message list"
  cw_alive :: bool                    \<comment> \<open>the queues are alive, for the window\<close>
  cw_window :: chat_window
  cw_run :: loop_pc
  cw_beat :: loop_pc
  cl_accepted :: "chat_message list"
  cl_wire :: "chat_message list"
  cl_shown :: "chat_message list"

definition chat_goodbye :: chat_message where
  "chat_goodbye = blank_chat_message\<lparr>cm_type := CHAT_GOODBYE\<rparr>"

definition chat_heartbeat :: chat_message where
  "chat_heartbeat = blank_chat_message\<lparr>cm_type := CHAT_HEARTBEAT\<rparr>"

text \<open>After both constructors; \<open>h\<close> and \<open>w\<close> say whether the queues are alive.\<close>

definition init_chat_link :: "bool \<Rightarrow> bool \<Rightarrow> chat_link" where
  "init_chat_link h w = \<lparr>cl_alive = h, cl_stopped = False, cl_queue = [], cl_main = M_Start,
     cl_beat = L_Start, cl_primary = [], cl_secondary = [], cw_alive = w,
     cw_window = init_chat_window, cw_run = L_Start, cw_beat = L_Start,
     cl_accepted = [], cl_wire = [], cl_shown = []\<rparr>"

definition QUEUE_CAPACITY :: nat where
  "QUEUE_CAPACITY = 8"

text \<open>The private \<open>send\<close>, after it read the stop flag: all pieces in one go, under the lock.\<close>

definition chat_push :: "chat_message list \<Rightarrow> chat_link \<Rightarrow> chat_link" where
  "chat_push ms s = s\<lparr>cl_queue := cl_queue s @ ms, cl_accepted := cl_accepted s @ ms\<rparr>"

definition primary_push :: "chat_message \<Rightarrow> chat_link \<Rightarrow> chat_link" where
  "primary_push m s = s\<lparr>cl_primary := cl_primary s @ [m], cl_wire := cl_wire s @ [m]\<rparr>"

definition primary_pop :: "chat_link \<Rightarrow> chat_link" where
  "primary_pop s = s\<lparr>cl_primary := tl (cl_primary s), cl_shown := cl_shown s @ [hd (cl_primary s)]\<rparr>"

subsection \<open>The threads of the handler\<close>

text \<open>\<open>dequeue\<close>, called at \<open>M_Wait\<close>: what it returns is the batch of \<open>M_Sending\<close>, and the exception it
  throws leads to \<open>sendGoodbye\<close>.\<close>

inductive chat_dequeue :: "chat_link \<Rightarrow> chat_link \<Rightarrow> bool" where
  wait_forced: "cl_main s = M_Wait \<Longrightarrow> cl_stopped s \<Longrightarrow> chat_dequeue s (s\<lparr>cl_main := M_Goodbye\<rparr>)"
| wait_drain: "cl_main s = M_Wait \<Longrightarrow> \<not> cl_stopped s \<Longrightarrow> cl_queue s \<noteq> [] \<Longrightarrow>
     chat_dequeue s (s\<lparr>cl_main := M_Sending (cl_queue s), cl_queue := []\<rparr>)"
| wait_timeout: "cl_main s = M_Wait \<Longrightarrow> \<not> cl_stopped s \<Longrightarrow> cl_queue s = [] \<Longrightarrow>
     chat_dequeue s (s\<lparr>cl_main := M_Beat\<rparr>)"
| wait_refused: "cl_main s = M_Beat \<Longrightarrow> cl_stopped s \<Longrightarrow>
     chat_dequeue s (s\<lparr>cl_main := M_Goodbye\<rparr>)"
| wait_checked: "cl_main s = M_Beat \<Longrightarrow> \<not> cl_stopped s \<Longrightarrow>
     chat_dequeue s (s\<lparr>cl_main := M_Beating\<rparr>)"
| wait_beat: "cl_main s = M_Beating \<Longrightarrow> cut_message CHAT_HEARTBEAT [] now = Some ms \<Longrightarrow>
     chat_dequeue s (chat_push ms (s\<lparr>cl_main := M_Wait\<rparr>))"

inductive chat_main :: "chat_link \<Rightarrow> chat_link \<Rightarrow> bool" where
  main_alive: "cl_main s = M_Start \<Longrightarrow> cl_alive s \<Longrightarrow> chat_main s (s\<lparr>cl_main := M_Wait\<rparr>)"
| main_dead: "cl_main s = M_Start \<Longrightarrow> \<not> cl_alive s \<Longrightarrow> chat_main s (s\<lparr>cl_main := M_Leaving\<rparr>)"
| main_dequeue: "chat_dequeue s t \<Longrightarrow> chat_main s t"
| main_batch_end: "cl_main s = M_Sending [] \<Longrightarrow> chat_main s (s\<lparr>cl_main := M_Wait\<rparr>)"
| main_check_stopped: "cl_main s = M_Sending (m # ms) \<Longrightarrow> cl_stopped s \<Longrightarrow>
     chat_main s (s\<lparr>cl_main := M_Goodbye\<rparr>)"
| main_check: "cl_main s = M_Sending (m # ms) \<Longrightarrow> \<not> cl_stopped s \<Longrightarrow>
     chat_main s (s\<lparr>cl_main := M_Checked (m # ms)\<rparr>)"
| main_sent: "cl_main s = M_Checked (m # ms) \<Longrightarrow> length (cl_primary s) < QUEUE_CAPACITY \<Longrightarrow>
     chat_main s (primary_push m (s\<lparr>cl_main := M_Sending ms\<rparr>))"
| main_failed: "cl_main s = M_Checked (m # ms) \<Longrightarrow> chat_main s (s\<lparr>cl_main := M_Goodbye\<rparr>)"
| main_goodbye: "cl_main s = M_Goodbye \<Longrightarrow> length (cl_primary s) < QUEUE_CAPACITY \<Longrightarrow>
     chat_main s (primary_push chat_goodbye (s\<lparr>cl_main := M_Leaving\<rparr>))"
| main_no_goodbye: "cl_main s = M_Goodbye \<Longrightarrow> chat_main s (s\<lparr>cl_main := M_Leaving\<rparr>)"
| main_leave: "cl_main s = M_Leaving \<Longrightarrow>
     chat_main s (s\<lparr>cl_main := M_Exited, cl_stopped := True\<rparr>)"

inductive chat_beat :: "chat_link \<Rightarrow> chat_link \<Rightarrow> bool" where
  beat_alive: "cl_beat s = L_Start \<Longrightarrow> cl_alive s \<Longrightarrow> chat_beat s (s\<lparr>cl_beat := L_Head\<rparr>)"
| beat_dead: "cl_beat s = L_Start \<Longrightarrow> \<not> cl_alive s \<Longrightarrow> chat_beat s (s\<lparr>cl_beat := L_Leaving\<rparr>)"
| beat_forced: "cl_beat s = L_Head \<Longrightarrow> cl_stopped s \<Longrightarrow> chat_beat s (s\<lparr>cl_beat := L_Leaving\<rparr>)"
| beat_check: "cl_beat s = L_Head \<Longrightarrow> \<not> cl_stopped s \<Longrightarrow> chat_beat s (s\<lparr>cl_beat := L_Checked\<rparr>)"
| beat_received: "cl_beat s = L_Checked \<Longrightarrow> cl_secondary s = m # ms \<Longrightarrow>
     cm_type m = CHAT_HEARTBEAT \<Longrightarrow> chat_beat s (s\<lparr>cl_beat := L_Head, cl_secondary := ms\<rparr>)"
| beat_other: "cl_beat s = L_Checked \<Longrightarrow> cl_secondary s = m # ms \<Longrightarrow>
     cm_type m \<noteq> CHAT_HEARTBEAT \<Longrightarrow> chat_beat s (s\<lparr>cl_beat := L_Leaving, cl_secondary := ms\<rparr>)"
| beat_failed: "cl_beat s = L_Checked \<Longrightarrow> chat_beat s (s\<lparr>cl_beat := L_Leaving\<rparr>)"
| beat_leave: "cl_beat s = L_Leaving \<Longrightarrow>
     chat_beat s (s\<lparr>cl_beat := L_Exited, cl_stopped := True\<rparr>)"

subsection \<open>The threads of the window\<close>

definition window_stop :: "chat_link \<Rightarrow> chat_link" where
  "window_stop s = s\<lparr>cw_window := (cw_window s)\<lparr>tw_stopped := True\<rparr>\<rparr>"

inductive window_run :: "(timestamp \<Rightarrow> string) \<Rightarrow> nat \<Rightarrow> chat_link \<Rightarrow> chat_link \<Rightarrow> bool"
  for fmt width where
  run_alive: "cw_run s = L_Start \<Longrightarrow> cw_alive s \<Longrightarrow> window_run fmt width s (s\<lparr>cw_run := L_Head\<rparr>)"
| run_dead: "cw_run s = L_Start \<Longrightarrow> \<not> cw_alive s \<Longrightarrow> window_run fmt width s (s\<lparr>cw_run := L_Leaving\<rparr>)"
| run_forced: "cw_run s = L_Head \<Longrightarrow> tw_stopped (cw_window s) \<Longrightarrow>
     window_run fmt width s (s\<lparr>cw_run := L_Leaving\<rparr>)"
| run_check: "cw_run s = L_Head \<Longrightarrow> \<not> tw_stopped (cw_window s) \<Longrightarrow>
     window_run fmt width s (s\<lparr>cw_run := L_Checked\<rparr>)"
| run_handled: "cw_run s = L_Checked \<Longrightarrow> cl_primary s = m # ms \<Longrightarrow>
     chat_handle fmt width m (cw_window s) = Some (r, w) \<Longrightarrow>
     window_run fmt width s (primary_pop
       (s\<lparr>cw_run := (if r then L_Head else L_Leaving), cw_window := w\<rparr>))"
| run_failed: "cw_run s = L_Checked \<Longrightarrow> window_run fmt width s (s\<lparr>cw_run := L_Leaving\<rparr>)"
| run_leave: "cw_run s = L_Leaving \<Longrightarrow>
     window_run fmt width s (window_stop (s\<lparr>cw_run := L_Exited\<rparr>))"

inductive window_beat :: "chat_link \<Rightarrow> chat_link \<Rightarrow> bool" where
  pulse_alive: "cw_beat s = L_Start \<Longrightarrow> cw_alive s \<Longrightarrow> window_beat s (s\<lparr>cw_beat := L_Head\<rparr>)"
| pulse_dead: "cw_beat s = L_Start \<Longrightarrow> \<not> cw_alive s \<Longrightarrow> window_beat s (s\<lparr>cw_beat := L_Leaving\<rparr>)"
| pulse_forced: "cw_beat s = L_Head \<Longrightarrow> tw_stopped (cw_window s) \<Longrightarrow>
     window_beat s (s\<lparr>cw_beat := L_Leaving\<rparr>)"
| pulse_check: "cw_beat s = L_Head \<Longrightarrow> \<not> tw_stopped (cw_window s) \<Longrightarrow>
     window_beat s (s\<lparr>cw_beat := L_Checked\<rparr>)"
| pulse_sent: "cw_beat s = L_Checked \<Longrightarrow> length (cl_secondary s) < QUEUE_CAPACITY \<Longrightarrow>
     window_beat s (s\<lparr>cw_beat := L_Head, cl_secondary := cl_secondary s @ [chat_heartbeat]\<rparr>)"
| pulse_failed: "cw_beat s = L_Checked \<Longrightarrow> window_beat s (s\<lparr>cw_beat := L_Leaving\<rparr>)"
| pulse_leave: "cw_beat s = L_Leaving \<Longrightarrow> window_beat s (window_stop (s\<lparr>cw_beat := L_Exited\<rparr>))"

text \<open>A caller may have read the stop flag before the handler was stopped.\<close>

inductive chat_callers :: "chat_link \<Rightarrow> chat_link \<Rightarrow> bool" where
  caller_queue: "ty \<in> {CLEAR, SENDER, RECEIVER} \<Longrightarrow> cut_message ty data ts = Some ms \<Longrightarrow>
     chat_callers s (chat_push ms s)"
| caller_stop: "chat_callers s (s\<lparr>cl_stopped := True\<rparr>)"
| caller_close: "chat_callers s (window_stop s)"

text \<open>Everybody but one of the threads.\<close>

definition main_others :: "(timestamp \<Rightarrow> string) \<Rightarrow> nat \<Rightarrow> chat_link \<Rightarrow> chat_link \<Rightarrow> bool" where
  "main_others fmt width s t \<longleftrightarrow>
     chat_beat s t \<or> window_run fmt width s t \<or> window_beat s t \<or> chat_callers s t"

definition beat_others :: "(timestamp \<Rightarrow> string) \<Rightarrow> nat \<Rightarrow> chat_link \<Rightarrow> chat_link \<Rightarrow> bool" where
  "beat_others fmt width s t \<longleftrightarrow>
     chat_main s t \<or> window_run fmt width s t \<or> window_beat s t \<or> chat_callers s t"

definition run_others :: "chat_link \<Rightarrow> chat_link \<Rightarrow> bool" where
  "run_others s t \<longleftrightarrow> chat_main s t \<or> chat_beat s t \<or> window_beat s t \<or> chat_callers s t"

definition pulse_others :: "(timestamp \<Rightarrow> string) \<Rightarrow> nat \<Rightarrow> chat_link \<Rightarrow> chat_link \<Rightarrow> bool" where
  "pulse_others fmt width s t \<longleftrightarrow>
     chat_main s t \<or> chat_beat s t \<or> window_run fmt width s t \<or> chat_callers s t"

subsection \<open>What the threads keep\<close>

primrec main_holds :: "chat_main_pc \<Rightarrow> chat_message list" where
  "main_holds M_Start = []"
| "main_holds M_Wait = []"
| "main_holds M_Beat = []"
| "main_holds M_Beating = []"
| "main_holds (M_Sending ms) = ms"
| "main_holds (M_Checked ms) = ms"
| "main_holds M_Goodbye = []"
| "main_holds M_Leaving = []"
| "main_holds M_Exited = []"

definition main_ok :: "chat_link \<Rightarrow> bool" where
  "main_ok s \<longleftrightarrow>
     (case cl_main s of
        M_Goodbye \<Rightarrow> True
      | M_Leaving \<Rightarrow> True
      | M_Exited \<Rightarrow> cl_stopped s
      | pc \<Rightarrow> pc \<noteq> M_Checked [] \<and> cl_wire s @ main_holds pc @ cl_queue s = cl_accepted s)"

definition queues_ok :: "chat_link \<Rightarrow> bool" where
  "queues_ok s \<longleftrightarrow> cl_wire s = cl_shown s @ cl_primary s \<and>
     length (cl_primary s) \<le> QUEUE_CAPACITY \<and> length (cl_secondary s) \<le> QUEUE_CAPACITY \<and>
     list_all (\<lambda>m. cm_type m = CHAT_HEARTBEAT) (cl_secondary s) \<and>
     list_all (\<lambda>m. cm_type m \<noteq> CHAT_GOODBYE) (cl_accepted s)"

definition goodbye_ok :: "chat_link \<Rightarrow> bool" where
  "goodbye_ok s \<longleftrightarrow> (chat_goodbye \<in> set (cl_shown s) \<longrightarrow> cw_run s = L_Leaving \<or> cw_run s = L_Exited)"

definition link_inv :: "chat_link \<Rightarrow> bool" where
  "link_inv s \<longleftrightarrow> main_ok s \<and> queues_ok s \<and> goodbye_ok s"

lemmas link_inv_defs = link_inv_def main_ok_def queues_ok_def goodbye_ok_def

lemma chat_push_simps [simp]:
  "cl_alive (chat_push ms s) = cl_alive s" "cl_stopped (chat_push ms s) = cl_stopped s"
  "cl_queue (chat_push ms s) = cl_queue s @ ms" "cl_main (chat_push ms s) = cl_main s"
  "cl_beat (chat_push ms s) = cl_beat s" "cl_primary (chat_push ms s) = cl_primary s"
  "cl_secondary (chat_push ms s) = cl_secondary s" "cw_window (chat_push ms s) = cw_window s"
  "cw_run (chat_push ms s) = cw_run s" "cw_beat (chat_push ms s) = cw_beat s"
  "cl_accepted (chat_push ms s) = cl_accepted s @ ms" "cl_wire (chat_push ms s) = cl_wire s"
  "cl_shown (chat_push ms s) = cl_shown s"
  by (simp_all add: chat_push_def)

lemma primary_push_simps [simp]:
  "cl_stopped (primary_push m s) = cl_stopped s" "cl_queue (primary_push m s) = cl_queue s"
  "cl_main (primary_push m s) = cl_main s" "cl_beat (primary_push m s) = cl_beat s"
  "cl_primary (primary_push m s) = cl_primary s @ [m]"
  "cl_secondary (primary_push m s) = cl_secondary s" "cw_window (primary_push m s) = cw_window s"
  "cw_run (primary_push m s) = cw_run s" "cw_beat (primary_push m s) = cw_beat s"
  "cl_accepted (primary_push m s) = cl_accepted s" "cl_wire (primary_push m s) = cl_wire s @ [m]"
  "cl_shown (primary_push m s) = cl_shown s"
  by (simp_all add: primary_push_def)

lemma primary_pop_simps [simp]:
  "cl_stopped (primary_pop s) = cl_stopped s" "cl_queue (primary_pop s) = cl_queue s"
  "cl_main (primary_pop s) = cl_main s" "cl_beat (primary_pop s) = cl_beat s"
  "cl_primary (primary_pop s) = tl (cl_primary s)"
  "cl_secondary (primary_pop s) = cl_secondary s" "cw_window (primary_pop s) = cw_window s"
  "cw_run (primary_pop s) = cw_run s" "cw_beat (primary_pop s) = cw_beat s"
  "cl_accepted (primary_pop s) = cl_accepted s" "cl_wire (primary_pop s) = cl_wire s"
  "cl_shown (primary_pop s) = cl_shown s @ [hd (cl_primary s)]"
  by (simp_all add: primary_pop_def)

lemma window_stop_simps [simp]:
  "cl_stopped (window_stop s) = cl_stopped s" "cl_queue (window_stop s) = cl_queue s"
  "cl_main (window_stop s) = cl_main s" "cl_beat (window_stop s) = cl_beat s"
  "cl_primary (window_stop s) = cl_primary s" "cl_secondary (window_stop s) = cl_secondary s"
  "tw_stopped (cw_window (window_stop s))" "cw_run (window_stop s) = cw_run s"
  "cw_beat (window_stop s) = cw_beat s" "cl_accepted (window_stop s) = cl_accepted s"
  "cl_wire (window_stop s) = cl_wire s" "cl_shown (window_stop s) = cl_shown s"
  by (simp_all add: window_stop_def)

lemma chat_handle_stopped:
  "chat_handle fmt width m w = Some (r, w') \<Longrightarrow> tw_stopped w \<Longrightarrow> tw_stopped w'"
  by (auto simp: chat_handle_def split: chat_message_type.splits if_splits bind_splits)

lemma chat_handle_goodbye:
  "chat_handle fmt width m w = Some (True, w') \<Longrightarrow> cm_type m \<noteq> CHAT_GOODBYE"
  by (auto simp: chat_handle_def)

lemma cut_heartbeat:
  "cut_message CHAT_HEARTBEAT [] now = Some ms \<Longrightarrow> ms = [\<lparr>cm_type = CHAT_HEARTBEAT, cm_timestamp = now, cm_data = []\<rparr>]"
  by (auto simp: cut_message_eq typed_pieces_empty)

lemma cut_no_goodbye:
  "ty \<in> {CLEAR, SENDER, RECEIVER} \<Longrightarrow> cut_message ty data ts = Some ms \<Longrightarrow>
   list_all (\<lambda>m. cm_type m \<noteq> CHAT_GOODBYE) ms"
  by (auto simp: cut_message_eq typed_pieces_def list_all_iff type_cast_def)

lemma link_inv_init: "link_inv (init_chat_link h w)"
  by (simp add: link_inv_defs init_chat_link_def)

lemma link_inv_dequeue: "chat_dequeue s t \<Longrightarrow> link_inv s \<Longrightarrow> link_inv t"
proof (induction rule: chat_dequeue.induct)
  case (wait_beat s now ms)
  then show ?case
    using cut_heartbeat[OF wait_beat(2)] by (auto simp: link_inv_defs)
qed (auto simp: link_inv_defs)

lemma link_inv_main: "chat_main s t \<Longrightarrow> link_inv s \<Longrightarrow> link_inv t"
proof (induction rule: chat_main.induct)
  case (main_dequeue s t)
  then show ?case
    by (rule link_inv_dequeue)
qed (auto simp: link_inv_defs)

lemma link_inv_beat: "chat_beat s t \<Longrightarrow> link_inv s \<Longrightarrow> link_inv t"
  by (induction rule: chat_beat.induct) (auto simp: link_inv_defs split: chat_main_pc.splits)

lemma link_inv_run: "window_run fmt width s t \<Longrightarrow> link_inv s \<Longrightarrow> link_inv t"
proof (induction rule: window_run.induct)
  case (run_handled s m ms r w)
  have "r \<Longrightarrow> m \<noteq> chat_goodbye"
    using chat_handle_goodbye[of fmt width m "cw_window s" w] run_handled(3)
    by (auto simp: chat_goodbye_def)
  with run_handled show ?case
    by (auto simp: link_inv_defs split: chat_main_pc.splits)
qed (auto simp: link_inv_defs split: chat_main_pc.splits)

lemma link_inv_pulse: "window_beat s t \<Longrightarrow> link_inv s \<Longrightarrow> link_inv t"
  by (induction rule: window_beat.induct)
    (auto simp: link_inv_defs chat_heartbeat_def split: chat_main_pc.splits)

lemma link_inv_callers: "chat_callers s t \<Longrightarrow> link_inv s \<Longrightarrow> link_inv t"
proof (induction rule: chat_callers.induct)
  case (caller_queue ty data ts ms s)
  then show ?case
    using cut_no_goodbye[OF caller_queue(1,2)] by (auto simp: link_inv_defs split: chat_main_pc.splits)
qed (auto simp: link_inv_defs split: chat_main_pc.splits)

lemmas link_inv_steps =
  link_inv_init link_inv_main link_inv_beat link_inv_run link_inv_pulse link_inv_callers

subsection \<open>The main thread as a pump\<close>

definition link_channel :: "chat_link \<Rightarrow> chat_message channel" where
  "link_channel s = \<lparr>ch_accepted = cl_accepted s, ch_wire = cl_wire s,
     ch_closed = (cl_main s = M_Leaving \<or> cl_main s = M_Exited)\<rparr>"

lemma chat_dequeue_channel:
  "chat_dequeue s t \<Longrightarrow> (channel_step chat_goodbye)\<^sup>*\<^sup>* (link_channel s) (link_channel t)"
  by (induction rule: chat_dequeue.induct) (simp_all add: link_channel_def channel_moves(2))

lemma chat_main_channel:
  "chat_main s t \<Longrightarrow> link_inv s \<Longrightarrow>
   (channel_step chat_goodbye)\<^sup>*\<^sup>* (link_channel s) (link_channel t)"
proof (induction rule: chat_main.induct)
  case (main_sent s m ms)
  then show ?case
    by (auto simp: link_channel_def link_inv_def main_ok_def intro: channel_deliver)
next
  case (main_dequeue s t)
  then show ?case
    using chat_dequeue_channel by blast
qed (simp_all add: link_channel_def channel_moves(4,5))

lemma main_others_channel:
  assumes "main_others fmt width s t"
  shows "(channel_step chat_goodbye)\<^sup>*\<^sup>* (link_channel s) (link_channel t)"
proof -
  have "\<exists>ms. link_channel t = (link_channel s)\<lparr>ch_accepted := ch_accepted (link_channel s) @ ms\<rparr>"
    using assms unfolding main_others_def
    by (elim disjE chat_beat.cases window_run.cases window_beat.cases chat_callers.cases)
      (simp_all add: link_channel_def)
  then show ?thesis
    using channel_moves(2)[of chat_goodbye "cl_accepted s"] by (elim exE) (simp add: link_channel_def)
qed

interpretation chat_pump: pump chat_main "main_others fmt width" "init_chat_link h w" link_inv
  link_channel chat_goodbye for fmt width h w
proof unfold_locales
  show "link_channel (init_chat_link h w) = open_channel"
    by (simp add: link_channel_def init_chat_link_def open_channel_def)
qed (auto simp: main_others_def intro: link_inv_steps chat_main_channel main_others_channel)

subsection \<open>The four threads can be stopped\<close>

primrec main_rank :: "chat_main_pc \<Rightarrow> nat" where
  "main_rank M_Start = 4"
| "main_rank M_Wait = 3"
| "main_rank M_Beat = 3"
| "main_rank M_Beating = 4"
| "main_rank (M_Sending ms) = (if ms = [] then 4 else 3)"
| "main_rank (M_Checked ms) = 5"
| "main_rank M_Goodbye = 2"
| "main_rank M_Leaving = 1"
| "main_rank M_Exited = 0"

primrec loop_rank :: "loop_pc \<Rightarrow> nat" where
  "loop_rank L_Start = 3"
| "loop_rank L_Head = 2"
| "loop_rank L_Checked = 3"
| "loop_rank L_Leaving = 1"
| "loop_rank L_Exited = 0"

lemma main_rank_bound: "main_rank pc \<le> 5"
  by (cases pc) simp_all

lemma loop_rank_bound: "loop_rank pc \<le> 3"
  by (cases pc) simp_all

text \<open>What a step of one thread leaves alone, and what it does once its object is stopped.\<close>

lemma chat_dequeue_frame:
  "chat_dequeue s t \<Longrightarrow> cl_beat t = cl_beat s \<and> cw_run t = cw_run s \<and> cw_beat t = cw_beat s \<and>
     cw_window t = cw_window s \<and>
     (cl_stopped s \<longrightarrow> cl_stopped t \<and> main_rank (cl_main t) < main_rank (cl_main s))"
  by (induction rule: chat_dequeue.induct) auto

lemma chat_main_frame:
  "chat_main s t \<Longrightarrow> cl_beat t = cl_beat s \<and> cw_run t = cw_run s \<and> cw_beat t = cw_beat s \<and>
     cw_window t = cw_window s \<and>
     (cl_stopped s \<longrightarrow> cl_stopped t \<and> main_rank (cl_main t) < main_rank (cl_main s))"
  by (induction rule: chat_main.induct) (auto dest: chat_dequeue_frame)

lemma chat_beat_frame:
  "chat_beat s t \<Longrightarrow> cl_main t = cl_main s \<and> cw_run t = cw_run s \<and> cw_beat t = cw_beat s \<and>
     cw_window t = cw_window s \<and>
     (cl_stopped s \<longrightarrow> cl_stopped t \<and> loop_rank (cl_beat t) < loop_rank (cl_beat s))"
  by (induction rule: chat_beat.induct) auto

lemma window_run_frame:
  "window_run fmt width s t \<Longrightarrow> cl_main t = cl_main s \<and> cl_beat t = cl_beat s \<and>
     cw_beat t = cw_beat s \<and> cl_stopped t = cl_stopped s \<and>
     (tw_stopped (cw_window s) \<longrightarrow>
        tw_stopped (cw_window t) \<and> loop_rank (cw_run t) < loop_rank (cw_run s))"
  by (induction rule: window_run.induct) (auto dest: chat_handle_stopped)

lemma window_beat_frame:
  "window_beat s t \<Longrightarrow> cl_main t = cl_main s \<and> cl_beat t = cl_beat s \<and>
     cw_run t = cw_run s \<and> cl_stopped t = cl_stopped s \<and>
     (tw_stopped (cw_window s) \<longrightarrow>
        tw_stopped (cw_window t) \<and> loop_rank (cw_beat t) < loop_rank (cw_beat s))"
  by (induction rule: window_beat.induct) auto

lemma chat_callers_frame:
  "chat_callers s t \<Longrightarrow> cl_main t = cl_main s \<and> cl_beat t = cl_beat s \<and> cw_run t = cw_run s \<and>
     cw_beat t = cw_beat s \<and> (cl_stopped s \<longrightarrow> cl_stopped t) \<and>
     (tw_stopped (cw_window s) \<longrightarrow> tw_stopped (cw_window t))"
  by (induction rule: chat_callers.induct) auto

lemmas chat_frames =
  chat_main_frame chat_beat_frame window_run_frame window_beat_frame chat_callers_frame

lemma chat_main_enabled:
  assumes "link_inv s" "cl_stopped s" "cl_main s \<noteq> M_Exited"
  shows "\<exists>t. chat_main s t"
proof (cases "cl_main s")
  case (M_Sending ms)
  with assms show ?thesis
    by (cases ms) (auto intro: chat_main.intros)
next
  case (M_Checked ms)
  with assms show ?thesis
    by (cases ms) (auto simp: link_inv_def main_ok_def intro: chat_main.intros)
next
  case M_Beating
  then show ?thesis
    using cut_message_eq by (blast intro: main_dequeue wait_beat)
next
  case M_Start
  then show ?thesis
    by (cases "cl_alive s") (auto intro: chat_main.intros)
next
  case M_Wait
  with assms show ?thesis
    by (blast intro: main_dequeue wait_forced)
next
  case M_Beat
  with assms show ?thesis
    by (blast intro: main_dequeue wait_refused)
qed (use assms in \<open>auto intro: chat_main.intros\<close>)

lemma chat_beat_enabled: "cl_stopped s \<Longrightarrow> cl_beat s \<noteq> L_Exited \<Longrightarrow> \<exists>t. chat_beat s t"
  by (cases "cl_beat s"; cases "cl_alive s") (blast intro: chat_beat.intros)+

lemma window_run_enabled:
  "tw_stopped (cw_window s) \<Longrightarrow> cw_run s \<noteq> L_Exited \<Longrightarrow> \<exists>t. window_run fmt width s t"
  by (cases "cw_run s"; cases "cw_alive s") (blast intro: window_run.intros)+

lemma window_beat_enabled:
  "tw_stopped (cw_window s) \<Longrightarrow> cw_beat s \<noteq> L_Exited \<Longrightarrow> \<exists>t. window_beat s t"
  by (cases "cw_beat s"; cases "cw_alive s") (blast intro: window_beat.intros)+

interpretation chat_main_stop: stoppable chat_main "main_others fmt width" "init_chat_link h w" link_inv
  cl_stopped "\<lambda>s. cl_main s = M_Exited" "\<lambda>s. main_rank (cl_main s)" 5 for fmt width h w
  by unfold_locales (auto simp: main_others_def main_rank_bound dest: chat_frames intro: chat_main_enabled)

interpretation chat_beat_stop: stoppable chat_beat "beat_others fmt width" "init_chat_link h w" link_inv
  cl_stopped "\<lambda>s. cl_beat s = L_Exited" "\<lambda>s. loop_rank (cl_beat s)" 3 for fmt width h w
  by unfold_locales (auto simp: beat_others_def loop_rank_bound dest: chat_frames
    intro: chat_beat_enabled link_inv_steps)

interpretation window_run_stop: stoppable "window_run fmt width" run_others "init_chat_link h w" link_inv
  "\<lambda>s. tw_stopped (cw_window s)" "\<lambda>s. cw_run s = L_Exited" "\<lambda>s. loop_rank (cw_run s)" 3
  for fmt width h w
  by unfold_locales (auto simp: run_others_def loop_rank_bound dest: chat_frames
    intro: window_run_enabled link_inv_steps)

interpretation window_beat_stop: stoppable window_beat "pulse_others fmt width" "init_chat_link h w"
  link_inv "\<lambda>s. tw_stopped (cw_window s)" "\<lambda>s. cw_beat s = L_Exited" "\<lambda>s. loop_rank (cw_beat s)" 3
  for fmt width h w
  by unfold_locales (auto simp: pulse_others_def loop_rank_bound dest: chat_frames
    intro: window_beat_enabled link_inv_steps)

subsection \<open>Properties\<close>

text \<open>
  C13: However the four threads, the callers and the stops interleave and whichever calls on the
  queues fail, what enters the primary queue is a prefix of the messages queued, in order, with at
  most a goodbye after them; the window handles exactly these, in order, and leaves its loop once
  it has seen the goodbye; the secondary queue holds nothing but heartbeats, so the handler never
  gives up because of a wrong message; and neither queue ever holds more than it can.
\<close>

theorem chat_link_fifo:
  assumes "runs chat_main (main_others fmt width) n (init_chat_link h w) s"
  shows "(\<exists>sent g. cl_wire s = sent @ g \<and> prefix sent (cl_accepted s) \<and>
      (g = [] \<or> g = [chat_goodbye] \<and> (cl_main s = M_Leaving \<or> cl_main s = M_Exited))) \<and>
    chat_goodbye \<notin> set (cl_accepted s) \<and>
    cl_wire s = cl_shown s @ cl_primary s \<and>
    (chat_goodbye \<in> set (cl_shown s) \<longrightarrow> cw_run s = L_Leaving \<or> cw_run s = L_Exited) \<and>
    (\<forall>m \<in> set (cl_secondary s). cm_type m = CHAT_HEARTBEAT) \<and>
    length (cl_primary s) \<le> QUEUE_CAPACITY \<and> length (cl_secondary s) \<le> QUEUE_CAPACITY"
proof -
  have inv: "link_inv s"
    using chat_pump.reachable_inv[OF assms] .
  moreover from inv have "chat_goodbye \<notin> set (cl_accepted s)"
    by (auto simp: link_inv_def queues_ok_def list_all_iff chat_goodbye_def)
  ultimately show ?thesis
    using chat_pump.pump_wire[OF assms]
    by (simp add: link_channel_def link_inv_def queues_ok_def goodbye_ok_def list_all_iff)
qed

lemma chat_stopped_run:
  "runs chat_main (main_others fmt width) 0 (init_chat_link h w) ((init_chat_link h w)\<lparr>cl_stopped := True\<rparr>)"
  by (rule runs_others[OF runs_nil]) (simp add: main_others_def caller_stop)

theorem chat_link_fifo_witness:
  "\<exists>s. runs chat_main (main_others (\<lambda>t. []) 80) 4 (init_chat_link True True) s \<and>
    cl_main s = M_Exited \<and> cl_wire s = [chat_goodbye] \<and> cl_primary s = [chat_goodbye]"
proof -
  let ?r = "runs chat_main (main_others (\<lambda>t. []) 80)"
  let ?s0 = "init_chat_link True True"
  let ?s1 = "?s0\<lparr>cl_stopped := True\<rparr>"
  let ?s2 = "?s1\<lparr>cl_main := M_Wait\<rparr>"
  let ?s3 = "?s1\<lparr>cl_main := M_Goodbye\<rparr>"
  let ?s4 = "primary_push chat_goodbye (?s1\<lparr>cl_main := M_Leaving\<rparr>)"
  let ?s5 = "?s4\<lparr>cl_main := M_Exited, cl_stopped := True\<rparr>"
  have "?r 1 ?s0 ?s2"
    using runs_own[OF chat_stopped_run main_alive] by (simp add: init_chat_link_def)
  from runs_own[OF this main_dequeue[OF wait_forced]] have "?r 2 ?s0 ?s3"
    by (simp add: numeral_2_eq_2)
  from runs_own[OF this main_goodbye] have "?r 3 ?s0 ?s4"
    by (simp add: numeral_3_eq_3 init_chat_link_def QUEUE_CAPACITY_def)
  from runs_own[OF this main_leave] have r: "?r 4 ?s0 ?s5"
    by simp
  have "cl_main ?s5 = M_Exited" "cl_wire ?s5 = [chat_goodbye]" "cl_shown ?s5 = []"
    by (simp_all add: init_chat_link_def)
  with r chat_link_fifo[OF r] show ?thesis
    by auto
qed

text \<open>
  Each of the four threads leaves once its object is stopped: whatever the others do
  meanwhile, the handler's main thread takes at most five more steps and each of the other three
  at most three, and as long as a thread has not exited one of its steps is possible.
\<close>

theorem chat_link_exits:
  assumes "runs chat_main (main_others fmt width) k (init_chat_link h w) s"
  shows "(cl_stopped s \<longrightarrow>
      (\<forall>n t. runs chat_main (main_others fmt width) n s t \<longrightarrow>
         n \<le> 5 \<and> (cl_main t = M_Exited \<or> (\<exists>u. chat_main t u))) \<and>
      (\<forall>n t. runs chat_beat (beat_others fmt width) n s t \<longrightarrow>
         n \<le> 3 \<and> (cl_beat t = L_Exited \<or> (\<exists>u. chat_beat t u)))) \<and>
    (tw_stopped (cw_window s) \<longrightarrow>
      (\<forall>n t. runs (window_run fmt width) run_others n s t \<longrightarrow>
         n \<le> 3 \<and> (cw_run t = L_Exited \<or> (\<exists>u. window_run fmt width t u))) \<and>
      (\<forall>n t. runs window_beat (pulse_others fmt width) n s t \<longrightarrow>
         n \<le> 3 \<and> (cw_beat t = L_Exited \<or> (\<exists>u. window_beat t u))))"
proof -
  have inv: "link_inv s"
    using chat_pump.reachable_inv[OF assms] .
  show ?thesis
    using chat_main_stop.leaves[OF inv] chat_beat_stop.leaves[OF inv]
      window_run_stop.leaves[OF inv] window_beat_stop.leaves[OF inv] by blast
qed

theorem chat_link_exits_witness:
  "let s = (init_chat_link True True)\<lparr>cl_stopped := True\<rparr>
   in runs chat_main (main_others (\<lambda>t. []) 80) 0 (init_chat_link True True) s \<and>
     (\<exists>u. chat_main s u) \<and> (\<exists>u. chat_beat s u)"
proof -
  let ?s = "(init_chat_link True True)\<lparr>cl_stopped := True\<rparr>"
  have "cl_main ?s \<noteq> M_Exited" "cl_beat ?s \<noteq> L_Exited" "cl_stopped ?s"
    by (simp_all add: init_chat_link_def)
  with chat_link_exits[OF chat_stopped_run[of "\<lambda>t. []" 80 True True]] show ?thesis
    unfolding Let_def using chat_stopped_run[of "\<lambda>t. []" 80 True True]
      runs_nil[of chat_main "main_others (\<lambda>t. []) 80" ?s]
      runs_nil[of chat_beat "beat_others (\<lambda>t. []) 80" ?s] by fast
qed

end
