(* ===== verification/Chat_Timestamp.thy ===== *)
theory Chat_Timestamp
  imports Chat_Window
begin

text \<open>
  The text of a timestamp, \<open>operator std::string\<close> of \<open>TTChatTimestamp\<close>
  (chat/src/TTChatTimestamp.hpp): \<open>to_time_t\<close>, \<open>localtime\<close> and \<open>put_time\<close> with \<open>%Y-%m-%d %X\<close> in the
  C locale.  The time zone of the host is a parameter: seconds east of UTC at a time.

  The lemmas show that the text always has nineteen characters, which is what the layout of a
  printed message needs, and that it can be read back to the second.
\<close>

subsection \<open>The calendar\<close>

text \<open>The ticks of the system clock are nanoseconds; \<open>to_time_t\<close> truncates towards zero.\<close>

definition to_time_t :: "timestamp \<Rightarrow> int" where
  "to_time_t t = (if 0 \<le> t then t div 1000000000 else - ((- t) div 1000000000))"

definition leap_year :: "nat \<Rightarrow> bool" where
  "leap_year y \<longleftrightarrow> y mod 4 = 0 \<and> (y mod 100 \<noteq> 0 \<or> y mod 400 = 0)"

definition year_days :: "nat \<Rightarrow> nat" where
  "year_days y = (if leap_year y then 366 else 365)"

definition month_days :: "nat \<Rightarrow> nat list" where
  "month_days y = [31, if leap_year y then 29 else 28, 31, 30, 31, 30, 31, 31, 30, 31, 30, 31]"

text \<open>The year, and the day of the year, of the day \<open>d\<close> counted from the start of the year \<open>y\<close>.\<close>

function civil_year :: "nat \<Rightarrow> nat \<Rightarrow> nat \<times> nat" where
  "civil_year y d = (if d < year_days y then (y, d) else civil_year (Suc y) (d - year_days y))"
  by pat_completeness auto
termination
  by (relation "measure snd") (auto simp: year_days_def)

declare civil_year.simps [simp del]

fun civil_month :: "nat \<Rightarrow> nat list \<Rightarrow> nat \<Rightarrow> nat \<times> nat" where
  "civil_month m [] d = (m, d)"
| "civil_month m (l # ls) d = (if d < l then (m, d) else civil_month (Suc m) ls (d - l))"

text \<open>\<open>struct tm\<close>, with the year, month and day counted as they are printed.\<close>

record tm =
  tm_year :: nat
  tm_mon :: nat
  tm_mday :: nat
  tm_hour :: nat
  tm_min :: nat
  tm_sec :: nat

text \<open>
  Days are counted from the first of January 1600, 135140 days before the epoch: 64 bits of
  nanoseconds reach from 1677 to 2262.
\<close>

definition calendar_base :: int where
  "calendar_base = 135140 * 86400"

definition localtime :: "(int \<Rightarrow> int) \<Rightarrow> int \<Rightarrow> tm" where
  "localtime zone time =
     (let s = time + zone time + calendar_base;
          (y, yd) = civil_year 1600 (nat (s div 86400));
          (m, md) = civil_month 1 (month_days y) yd;
          sec = nat (s mod 86400)
      in \<lparr>tm_year = y, tm_mon = m, tm_mday = md + 1, tm_hour = sec div 3600,
          tm_min = sec mod 3600 div 60, tm_sec = sec mod 60\<rparr>)"

definition two_digits :: "nat \<Rightarrow> string" where
  "two_digits n = [digit_char (n div 10), digit_char (n mod 10)]"

definition put_time :: "tm \<Rightarrow> string" where
  "put_time t = to_string (tm_year t) @ ''-'' @ two_digits (tm_mon t) @ ''-'' @ two_digits (tm_mday t) @ '' '' @
     two_digits (tm_hour t) @ '':'' @ two_digits (tm_min t) @ '':'' @ two_digits (tm_sec t)"

definition timestamp_text :: "(int \<Rightarrow> int) \<Rightarrow> timestamp \<Rightarrow> string" where
  "timestamp_text zone t = put_time (localtime zone (to_time_t t))"

subsection \<open>What the calendar computes\<close>

definition days_before :: "nat \<Rightarrow> nat \<Rightarrow> nat" where
  "days_before y y' = sum_list (map year_days [y..<y'])"

lemma days_before_same [simp]: "days_before y y = 0"
  by (simp add: days_before_def)

lemma days_before_Suc: "y < y' \<Longrightarrow> days_before y y' = year_days y + days_before (Suc y) y'"
  by (simp add: days_before_def upt_conv_Cons)

lemma civil_year_spec:
  "civil_year y d = (y', d') \<Longrightarrow>
   y \<le> y' \<and> d' < year_days y' \<and> d = days_before y y' + d' \<and> 365 * (y' - y) \<le> d"
proof (induction y d rule: civil_year.induct)
  case (1 y d)
  show ?case
  proof (cases "d < year_days y")
    case True
    with "1.prems" show ?thesis
      by (simp add: civil_year.simps)
  next
    case False
    have "civil_year (Suc y) (d - year_days y) = (y', d')"
      using "1.prems" False by (subst (asm) civil_year.simps) simp
    from "1.IH"[OF False this] have r: "Suc y \<le> y'" "d' < year_days y'"
      "d - year_days y = days_before (Suc y) y' + d'" "365 * (y' - Suc y) \<le> d - year_days y"
      by simp_all
    have "365 \<le> year_days y"
      by (simp add: year_days_def)
    moreover have "d = year_days y + days_before (Suc y) y' + d'"
      using r(3) False by linarith
    moreover have "365 * (y' - y) = 365 + 365 * (y' - Suc y)"
      using r(1) by simp
    ultimately show ?thesis
      using r by (simp add: days_before_Suc)
  qed
qed

lemma civil_month_spec:
  "civil_month m ls d = (m', d') \<Longrightarrow> d < sum_list ls \<Longrightarrow>
   m \<le> m' \<and> m' - m < length ls \<and> d' < ls ! (m' - m) \<and> d = sum_list (take (m' - m) ls) + d'"
proof (induction m ls d rule: civil_month.induct)
  case (2 m l ls d)
  show ?case
  proof (cases "d < l")
    case False
    have "civil_month (Suc m) ls (d - l) = (m', d')" "d - l < sum_list ls"
      using "2.prems" False by simp_all
    from "2.IH"[OF False this] have r: "Suc m \<le> m'" "m' - Suc m < length ls" "d' < ls ! (m' - Suc m)"
      "d - l = sum_list (take (m' - Suc m) ls) + d'"
      by simp_all
    have m: "m' - m = Suc (m' - Suc m)"
      using r(1) by simp
    have "d = l + sum_list (take (m' - Suc m) ls) + d'"
      using r(4) False by linarith
    then show ?thesis
      unfolding m using r by simp
  qed (use "2.prems" in simp)
qed simp

lemma sum_month_days: "sum_list (month_days y) = year_days y" "length (month_days y) = 12"
  by (simp_all add: month_days_def year_days_def)

lemma month_days_bound: "i < 12 \<Longrightarrow> month_days y ! i \<le> 31"
  by (auto simp: month_days_def nth_Cons' split: if_splits)

subsection \<open>Fields of fixed width\<close>

lemma length_two_digits [simp]: "length (two_digits n) = 2"
  by (simp add: two_digits_def)

lemma decimal_two_digits [simp]: "n < 100 \<Longrightarrow> decimal (two_digits n) = n"
  by (simp add: two_digits_def decimal_def)

lemma to_string_four:
  assumes "1000 \<le> n" "n < 10000"
  shows "length (to_string n) = 4"
proof -
  have *: "m < 10 ^ Suc k \<Longrightarrow> 10 ^ k \<le> m \<Longrightarrow> length (to_string m) = Suc k" for m k
  proof (induction k arbitrary: m)
    case 0
    then show ?case
      by (subst to_string.simps) simp
  next
    case (Suc k)
    then have "m div 10 < 10 ^ Suc k" "10 ^ k \<le> m div 10" "\<not> m < 10"
      using le_trans[of 10 "10 ^ Suc k" m] by auto
    with Suc.IH[of "m div 10"] show ?case
      by (subst to_string.simps) simp
  qed
  from *[of n 3] assms show ?thesis
    by simp
qed

definition field_at :: "nat \<Rightarrow> nat \<Rightarrow> string \<Rightarrow> nat" where
  "field_at i k s = decimal (take k (drop i s))"

text \<open>The fields of a text in the format \<open>%Y-%m-%d %X\<close>.\<close>

definition read_time :: "string \<Rightarrow> tm" where
  "read_time s = \<lparr>tm_year = field_at 0 4 s, tm_mon = field_at 5 2 s, tm_mday = field_at 8 2 s,
     tm_hour = field_at 11 2 s, tm_min = field_at 14 2 s, tm_sec = field_at 17 2 s\<rparr>"

definition tm_ok :: "tm \<Rightarrow> bool" where
  "tm_ok t \<longleftrightarrow> 1600 \<le> tm_year t \<and> tm_year t < 10000 \<and> 1 \<le> tm_mon t \<and> tm_mon t \<le> 12 \<and>
     1 \<le> tm_mday t \<and> tm_mday t \<le> month_days (tm_year t) ! (tm_mon t - 1) \<and>
     tm_hour t < 24 \<and> tm_min t < 60 \<and> tm_sec t < 60"

lemma tm_ok_fields:
  assumes "tm_ok t"
  shows "length (to_string (tm_year t)) = 4" "tm_mon t < 100" "tm_mday t < 100" "tm_hour t < 100"
    "tm_min t < 100" "tm_sec t < 100"
proof -
  have "month_days (tm_year t) ! (tm_mon t - 1) \<le> 31"
    using assms by (intro month_days_bound) (auto simp: tm_ok_def)
  with assms show "tm_mday t < 100"
    unfolding tm_ok_def by linarith
qed (use assms in \<open>auto simp: tm_ok_def intro: to_string_four\<close>)

lemma length_put_time: "tm_ok t \<Longrightarrow> length (put_time t) = 19"
  using tm_ok_fields(1) by (simp add: put_time_def)

lemma read_put_time:
  assumes "tm_ok t"
  shows "read_time (put_time t) = t"
proof -
  note F = tm_ok_fields[OF assms]
  have "field_at 0 4 (put_time t) = tm_year t" "field_at 5 2 (put_time t) = tm_mon t"
    "field_at 8 2 (put_time t) = tm_mday t" "field_at 11 2 (put_time t) = tm_hour t"
    "field_at 14 2 (put_time t) = tm_min t" "field_at 17 2 (put_time t) = tm_sec t"
    using F by (simp_all add: field_at_def put_time_def)
  then show ?thesis
    by (simp add: read_time_def)
qed

text \<open>The seconds since the epoch at which a clock of offset zero shows these fields.\<close>

definition tm_seconds :: "tm \<Rightarrow> int" where
  "tm_seconds t =
     int (days_before 1600 (tm_year t) + sum_list (take (tm_mon t - 1) (month_days (tm_year t))) + (tm_mday t - 1)) *
       86400 + int (tm_hour t * 3600 + tm_min t * 60 + tm_sec t) - calendar_base"

lemma localtime_spec:
  assumes "0 \<le> time + zone time + calendar_base" "time + zone time + calendar_base < 250000000000"
  shows "tm_ok (localtime zone time)" "tm_seconds (localtime zone time) = time + zone time"
proof -
  define s where "s = time + zone time + calendar_base"
  obtain y yd where y: "civil_year 1600 (nat (s div 86400)) = (y, yd)"
    by fastforce
  obtain m md where m: "civil_month 1 (month_days y) yd = (m, md)"
    by fastforce
  note Y = civil_year_spec[OF y]
  have "yd < sum_list (month_days y)"
    using Y sum_month_days by simp
  note M = civil_month_spec[OF m this]
  define sec where "sec = nat (s mod 86400)"
  have t: "localtime zone time = \<lparr>tm_year = y, tm_mon = m, tm_mday = md + 1, tm_hour = sec div 3600,
      tm_min = sec mod 3600 div 60, tm_sec = sec mod 60\<rparr>"
    using y m by (simp add: localtime_def s_def sec_def Let_def)
  have sec: "sec < 86400" "int sec = s mod 86400"
    by (simp_all add: sec_def nat_less_iff)
  have "nat (s div 86400) < 2900000"
    using assms by (simp add: s_def nat_less_iff)
  then have "y < 10000"
    using Y by linarith
  moreover have "1 \<le> m" "m \<le> 12" "md + 1 \<le> month_days y ! (m - 1)"
    using M sum_month_days(2)[of y] by auto
  ultimately show "tm_ok (localtime zone time)"
    using Y sec(1) by (simp add: t tm_ok_def) linarith
  have "int (nat (s div 86400)) = s div 86400"
    using assms(1) by (simp add: s_def)
  then have days: "int (days_before 1600 y + sum_list (take (m - 1) (month_days y)) + md) = s div 86400"
    using Y M by simp
  have "sec mod 3600 div 60 * 60 + sec mod 60 = sec mod 3600"
    using div_mult_mod_eq[of "sec mod 3600" 60] by (simp add: mod_mod_cancel)
  with div_mult_mod_eq[of sec 3600]
  have "sec div 3600 * 3600 + sec mod 3600 div 60 * 60 + sec mod 60 = sec"
    by linarith
  then have secs: "int (sec div 3600 * 3600 + sec mod 3600 div 60 * 60 + sec mod 60) = s mod 86400"
    using sec(2) by simp
  have "tm_seconds (localtime zone time) = s div 86400 * 86400 + s mod 86400 - calendar_base"
    unfolding t tm_seconds_def tm.select_convs add_diff_cancel_right' days secs ..
  then show "tm_seconds (localtime zone time) = time + zone time"
    by (simp add: s_def)
qed

text \<open>What the type of the ticks and any time zone of the world guarantee.\<close>

definition tick_ok :: "timestamp \<Rightarrow> bool" where
  "tick_ok t \<longleftrightarrow> - (2 ^ 63) \<le> t \<and> t < 2 ^ 63"

lemma to_time_t_bounds:
  assumes "tick_ok t"
  shows "- 9223372037 \<le> to_time_t t" "to_time_t t \<le> 9223372037"
proof -
  have "\<bar>t\<bar> div 1000000000 \<le> 9223372037"
    using assms zdiv_mono1[of "\<bar>t\<bar>" "9223372036854775808" 1000000000]
    by (simp add: tick_ok_def abs_le_iff)
  then show "- 9223372037 \<le> to_time_t t" "to_time_t t \<le> 9223372037"
    by (auto simp: to_time_t_def split: if_splits)
qed

lemma localtime_ticks:
  assumes "tick_ok t" "\<bar>zone (to_time_t t)\<bar> \<le> 86400"
  shows "tm_ok (localtime zone (to_time_t t))"
    "tm_seconds (localtime zone (to_time_t t)) = to_time_t t + zone (to_time_t t)"
  using localtime_spec[of "to_time_t t" zone] to_time_t_bounds[OF assms(1)] assms(2)
  by (simp_all add: calendar_base_def)

subsection \<open>Properties\<close>

text \<open>
  C32: a timestamp's text is its local time to the second: for every count of nanoseconds that fits the
  64 bits of the clock and every time zone less than a day from UTC, reading the fields of the
  text back gives the fields \<open>localtime\<close> computed, each in its range, and these are the local time,
  on a calendar in which the days of the years and months before add up.
\<close>

theorem timestamp_read_back:
  assumes "tick_ok t" "\<bar>zone (to_time_t t)\<bar> \<le> 86400"
  shows "tm_ok (read_time (timestamp_text zone t)) \<and>
    tm_seconds (read_time (timestamp_text zone t)) = to_time_t t + zone (to_time_t t)"
  using localtime_ticks[of t zone, OF assms] read_put_time by (simp add: timestamp_text_def)

theorem timestamp_read_back_witness:
  "timestamp_text (\<lambda>s. 3600) 1709164799999999999 = ''2024-02-29 00:59:59'' \<and>
    tm_seconds (read_time (timestamp_text (\<lambda>s. 3600) 1709164799999999999)) = 1709164799 + 3600"
proof
  show "timestamp_text (\<lambda>s. 3600) 1709164799999999999 = ''2024-02-29 00:59:59''"
    by (simp add: timestamp_text_def to_time_t_def localtime_def calendar_base_def civil_year.simps
        year_days_def leap_year_def month_days_def put_time_def to_string.simps two_digits_def digit_char_def
        char_of_def bit_0)
  show "tm_seconds (read_time (timestamp_text (\<lambda>s. 3600) 1709164799999999999)) = 1709164799 + 3600"
    using timestamp_read_back[of 1709164799999999999 "\<lambda>s. 3600"] by (simp add: tick_ok_def to_time_t_def)
qed

text \<open>
  C31: how a message looks, on any terminal of at least nineteen columns: the timestamp and the
  lines of the text, each on a row of its own and followed by an empty row.  Rows of a received
  message start at the left; rows of a sent message are padded to the full width, so that they end
  at the right.  No line is longer than the side, nor the side than the terminal.
\<close>

theorem chat_message_layout:
  assumes "19 \<le> width" "width < 2 ^ 64" "tick_ok ts" "\<bar>zone (to_time_t ts)\<bar> \<le> 86400"
  shows "\<exists>ls. chat_lines (side_width width) data = Some ls \<and>
    (\<forall>l \<in> set ls. length l \<le> side_width width) \<and> side_width width \<le> width \<and>
    chat_print (timestamp_text zone) width RECEIVER ts data =
      Some (concat (map (\<lambda>l. l @ NEWLINE) (timestamp_text zone ts # ls)) @ NEWLINE) \<and>
    chat_print (timestamp_text zone) width SENDER ts data =
      Some (concat (map (\<lambda>l. replicate (width - length l) (CHR '' '') @ l @ NEWLINE)
        (timestamp_text zone ts # ls)) @ NEWLINE)"
proof -
  have "length (timestamp_text zone ts) = 19"
    using localtime_ticks(1)[of ts zone, OF assms(3,4)] length_put_time by (simp add: timestamp_text_def)
  then show ?thesis
    using chat_print_rows[of width "timestamp_text zone" ts data] assms(1,2) by simp
qed

theorem chat_message_layout_witness:
  "\<exists>ls. chat_lines (side_width 80) ''hello world'' = Some ls \<and>
    (\<forall>l \<in> set ls. length l \<le> side_width 80) \<and> side_width 80 \<le> 80 \<and>
    chat_print (timestamp_text (\<lambda>s. 0)) 80 RECEIVER 3 ''hello world'' =
      Some (concat (map (\<lambda>l. l @ NEWLINE) (timestamp_text (\<lambda>s. 0) 3 # ls)) @ NEWLINE) \<and>
    chat_print (timestamp_text (\<lambda>s. 0)) 80 SENDER 3 ''hello world'' =
      Some (concat (map (\<lambda>l. replicate (80 - length l) (CHR '' '') @ l @ NEWLINE)
        (timestamp_text (\<lambda>s. 0) 3 # ls)) @ NEWLINE)"
  by (rule chat_message_layout) (simp_all add: tick_ok_def)

end
