(* ===== verification/TextBox.thy ===== *)
theory TextBox
  imports Cxx_Text
begin

text \<open>
  The text box: \<open>TTTextBoxStatus\<close> and \<open>TTTextBoxMessage\<close> (the message passed through the named
  pipe), and \<open>TTTextBox\<close> (textbox/src/TTTextBox.cpp), the process that reads lines from the
  user, carries out the \<open>#\<close> commands and queues messages for the pipe.  \<open>None\<close> is an access
  outside an array, which C++ leaves undefined.

  The lemmas give the pieces a line is sent in, and what each line queues.
\<close>

subsection \<open>\<open>TTTextBoxStatus\<close>\<close>

datatype textbox_status =
    UNDEFINED | TEXTBOX_HEARTBEAT | CONTACTS_SELECT | MESSAGE | TEXTBOX_GOODBYE
  | TEXTBOX_OTHER nat

primrec show_textbox_status :: "textbox_status \<Rightarrow> string" where
  "show_textbox_status UNDEFINED = ''UNDEFINED''"
| "show_textbox_status TEXTBOX_HEARTBEAT = ''HEARTBEAT''"
| "show_textbox_status CONTACTS_SELECT = ''CONTACTS_SELECT''"
| "show_textbox_status MESSAGE = ''MESSAGE''"
| "show_textbox_status TEXTBOX_GOODBYE = ''GOODBYE''"
| "show_textbox_status (TEXTBOX_OTHER n) = ''UNKNOWN''"

subsection \<open>\<open>TTTextBoxMessage\<close>\<close>

definition DATA_MAX_DIGITS :: nat where
  "DATA_MAX_DIGITS = 4"

definition DATA_MAX_LENGTH :: nat where
  "DATA_MAX_LENGTH = 2048"

record textbox_message =
  xm_status :: textbox_status
  xm_dataLength :: nat
  xm_data :: string

text \<open>
  The constructor: the buffer is zeroed and \<open>dataLength\<close> bytes of the source are copied.
\<close>

definition new_textbox_message ::
  "textbox_status \<Rightarrow> nat \<Rightarrow> string \<Rightarrow> textbox_message option" where
  "new_textbox_message s len src =
     (if len \<le> DATA_MAX_LENGTH \<and> len \<le> length src
      then Some \<lparr>xm_status = s, xm_dataLength = len,
                 xm_data = take len src @ replicate (DATA_MAX_LENGTH - len) (CHR 0x00)\<rparr>
      else None)"

text \<open>
  The data is printed as a C string, up to a zero byte; there is none when the buffer is full.
\<close>

definition show_textbox_message :: "textbox_message \<Rightarrow> string option" where
  "show_textbox_message m =
     (if CHR 0x00 \<in> set (xm_data m)
      then Some (''{'' @ ''status: '' @ show_textbox_status (xm_status m) @ '', '' @
        ''length: '' @ to_string (xm_dataLength m) @ '', '' @
        ''message: '' @ takeWhile (\<lambda>c. c \<noteq> CHR 0x00) (xm_data m) @ ''}'')
      else None)"

definition textbox_message_eq :: "textbox_message \<Rightarrow> textbox_message \<Rightarrow> bool" where
  "textbox_message_eq lhs rhs =
     (if xm_status lhs \<noteq> xm_status rhs then False
      else if xm_dataLength lhs \<noteq> xm_dataLength rhs then False
      else take DATA_MAX_LENGTH (xm_data lhs) = take DATA_MAX_LENGTH (xm_data rhs))"

lemma show_textbox_message_full:
  "new_textbox_message s len src = Some m \<Longrightarrow>
   show_textbox_message m = None \<longleftrightarrow> len = DATA_MAX_LENGTH \<and> CHR 0x00 \<notin> set (take len src)"
  by (auto simp: new_textbox_message_def show_textbox_message_def split: if_splits)

subsection \<open>The bytes of a \<open>size_t\<close>\<close>

text \<open>In memory a \<open>size_t\<close> is eight bytes, the least significant first.\<close>

definition bytes_of_u64 :: "u64 \<Rightarrow> string" where
  "bytes_of_u64 w = map (\<lambda>k. char_of (unat (drop_bit (8 * k) w) mod 256)) [0..<8]"

definition u64_of_bytes :: "string \<Rightarrow> u64" where
  "u64_of_bytes bs = of_nat (foldr (\<lambda>c a. of_char c + 256 * a) bs 0)"

lemma length_bytes_of_u64 [simp]: "length (bytes_of_u64 w) = 8"
  by (simp add: bytes_of_u64_def)

lemma bytes_fold:
  "foldr (\<lambda>c a. of_char c + 256 * a) (map (\<lambda>k. char_of (n div 256 ^ k mod 256)) [m..<m + l]) 0
     = n div 256 ^ m mod 256 ^ l" for n :: nat
proof (induction l arbitrary: m)
  case (Suc l)
  have "[m..<m + Suc l] = m # [Suc m..<Suc m + l]"
    by (simp add: upt_conv_Cons del: upt_Suc)
  moreover have "n div 256 ^ m mod 256 ^ Suc l =
      n div 256 ^ m mod 256 + 256 * (n div 256 ^ Suc m mod 256 ^ l)"
  proof -
    have "n div 256 ^ Suc m = n div 256 ^ m div 256"
      by (metis div_mult2_eq power_Suc2)
    then show ?thesis
      by (simp only: power_Suc mod_mult2_eq add.commute)
  qed
  ultimately show ?case
    using Suc.IH[of "Suc m"] by (simp del: upt_Suc)
qed simp

lemma u64_of_bytes_of_u64 [simp]: "u64_of_bytes (bytes_of_u64 w) = w"
proof -
  have "unat (drop_bit (8 * k) w) = unat w div 256 ^ k" for k
  proof -
    have "unat (drop_bit (8 * k) w) = drop_bit (8 * k) (unat w)"
      by (rule unat_drop_bit_eq)
    also have "\<dots> = unat w div 2 ^ (8 * k)"
      by (rule drop_bit_eq_div)
    finally show ?thesis
      by (simp only: power_mult) simp
  qed
  then have "bytes_of_u64 w = map (\<lambda>k. char_of (unat w div 256 ^ k mod 256)) [0..<0 + 8]"
    by (simp add: bytes_of_u64_def)
  then have "u64_of_bytes (bytes_of_u64 w) = of_nat (unat w div 256 ^ 0 mod 256 ^ 8)"
    by (simp only: u64_of_bytes_def bytes_fold)
  also have "unat w < 256 ^ 8"
    using unsigned_less[of w] by simp
  then have "of_nat (unat w div 256 ^ 0 mod 256 ^ 8) = w"
    by simp
  finally show ?thesis .
qed

subsection \<open>\<open>TTTextBox\<close>\<close>

record textbox =
  xb_stopped :: bool
  xb_queue :: "textbox_message list"
  xb_out :: string

definition init_textbox :: textbox where
  "init_textbox = \<lparr>xb_stopped = False, xb_queue = [], xb_out = ''''\<rparr>"

definition textbox_print :: "string \<Rightarrow> textbox \<Rightarrow> textbox" where
  "textbox_print s t = t\<lparr>xb_out := xb_out t @ s\<rparr>"

definition textbox_queue :: "textbox_message \<Rightarrow> textbox \<Rightarrow> textbox" where
  "textbox_queue m t = t\<lparr>xb_queue := xb_queue t @ [m]\<rparr>"

text \<open>The loop of \<open>send\<close> over full messages; the rest of the text is returned.\<close>

fun textbox_send_full :: "nat \<Rightarrow> string \<Rightarrow> textbox \<Rightarrow> (string \<times> textbox) option" where
  "textbox_send_full 0 s t = Some (s, t)"
| "textbox_send_full (Suc i) s t = do {
     m \<leftarrow> new_textbox_message MESSAGE DATA_MAX_LENGTH s;
     textbox_send_full i (drop DATA_MAX_LENGTH s) (textbox_queue m t)
   }"

definition textbox_send :: "string \<Rightarrow> textbox \<Rightarrow> (bool \<times> textbox) option" where
  "textbox_send s t = do {
     let numOfMessages = length s div DATA_MAX_LENGTH;
     (rest, t1) \<leftarrow> textbox_send_full numOfMessages s t;
     if rest \<noteq> [] then do {
       m \<leftarrow> new_textbox_message MESSAGE (length rest) rest;
       Some (True, textbox_queue m t1)
     } else Some (True, t1)
   }"

definition help_text :: string where
  "help_text =
     ''Type #help to print a help message'' @ NEWLINE @
     ''Type #quit to quit the application'' @ NEWLINE @
     ''Type #select <id> to select contact'' @ NEWLINE @
     ''Skip # and send a message to the currently selected contact.'' @ NEWLINE"

definition textbox_execute :: "string list \<Rightarrow> textbox \<Rightarrow> (bool \<times> textbox) option" where
  "textbox_execute args t =
     (if args = [] then Some (False, t)
      else let command = hd args in
        if command = ''help'' then
          if length args > 1 then Some (False, t) else Some (True, textbox_print help_text t)
        else if command = ''quit'' then
          if length args > 1 then Some (False, t) else Some (True, t\<lparr>xb_stopped := True\<rparr>)
        else if command = ''select'' then
          if length args > 2 then Some (False, t)
          else if length args \<le> 1 then None
          else let i = args ! 1 in
            if \<not> list_all is_digit i then Some (False, t)
            else if length i > DATA_MAX_DIGITS then Some (False, t)
            else case from_chars i of
              Inl ec \<Rightarrow> Some (False, t)
            | Inr n \<Rightarrow> do {
                m \<leftarrow> new_textbox_message CONTACTS_SELECT 8 (bytes_of_u64 (of_nat n));
                Some (True, textbox_queue m t)
              }
        else Some (False, t))"

definition textbox_parse :: "string \<Rightarrow> textbox \<Rightarrow> (bool \<times> textbox) option" where
  "textbox_parse line t =
     (let t1 = textbox_print CLEAR_SCREEN t in
      if line = [] then Some (False, t1)
      else if hd line = CHR ''#'' then textbox_execute (split_on (CHR '' '') (drop 1 line)) t1
      else textbox_send line t1)"

text \<open>
  The loop of \<open>asynchronousRead\<close> over the lines the user enters; at the end of the list it
  waits for the next one.
\<close>

fun textbox_lines :: "string list \<Rightarrow> textbox \<Rightarrow> textbox option" where
  "textbox_lines [] t = Some t"
| "textbox_lines (line # lines) t =
     (if xb_stopped t then Some t
      else do {
        (parsed, t1) \<leftarrow> textbox_parse line t;
        textbox_lines lines t1
      })"

definition textbox_read :: "string list \<Rightarrow> textbox \<Rightarrow> textbox option" where
  "textbox_read lines t = textbox_lines lines
     (textbox_print (CLEAR_SCREEN @ ''Type #help to print a help message'' @ NEWLINE) t)"

subsection \<open>The pieces of a line\<close>

function pieces :: "string \<Rightarrow> string list" where
  "pieces s = (if s = [] then [] else take DATA_MAX_LENGTH s # pieces (drop DATA_MAX_LENGTH s))"
  by pat_completeness auto
termination
  by (relation "measure length") (auto simp: DATA_MAX_LENGTH_def)

declare pieces.simps [simp del]

lemma DATA_MAX_LENGTH_pos [simp]: "0 < DATA_MAX_LENGTH" "DATA_MAX_LENGTH \<noteq> 0"
  by (simp_all add: DATA_MAX_LENGTH_def)

lemma pieces_Nil [simp]: "pieces [] = []"
  by (simp add: pieces.simps)

lemma concat_pieces [simp]: "concat (pieces s) = s"
proof (induction s rule: pieces.induct)
  case (1 s)
  then show ?case by (subst pieces.simps) simp
qed

lemma pieces_bound: "p \<in> set (pieces s) \<Longrightarrow> p \<noteq> [] \<and> length p \<le> DATA_MAX_LENGTH"
proof (induction s rule: pieces.induct)
  case (1 s)
  show ?case
  proof (cases "s = []")
    case False
    with 1 pieces.simps[of s] show ?thesis by auto
  qed (use 1 in simp)
qed

lemma pieces_full: "DATA_MAX_LENGTH \<le> length s \<Longrightarrow>
    pieces s = take DATA_MAX_LENGTH s # pieces (drop DATA_MAX_LENGTH s)"
  by (subst pieces.simps) auto

lemma pieces_short: "s \<noteq> [] \<Longrightarrow> length s \<le> DATA_MAX_LENGTH \<Longrightarrow> pieces s = [s]"
  by (subst pieces.simps) simp

definition data_message :: "textbox_status \<Rightarrow> string \<Rightarrow> textbox_message" where
  "data_message st p = \<lparr>xm_status = st, xm_dataLength = length p,
     xm_data = p @ replicate (DATA_MAX_LENGTH - length p) (CHR 0x00)\<rparr>"

lemma new_textbox_message_take:
  "len \<le> DATA_MAX_LENGTH \<Longrightarrow> len \<le> length s \<Longrightarrow>
   new_textbox_message st len s = Some (data_message st (take len s))"
  by (simp add: new_textbox_message_def data_message_def min_absorb2)

lemma textbox_send_full_pieces:
  "n = length s div DATA_MAX_LENGTH \<Longrightarrow>
   \<exists>rest. textbox_send_full n s t =
      Some (rest, t\<lparr>xb_queue := xb_queue t @ map (data_message MESSAGE)
        (take n (pieces s))\<rparr>) \<and>
     length rest < DATA_MAX_LENGTH \<and> pieces s = take n (pieces s) @ pieces rest"
proof (induction n arbitrary: s t)
  case 0
  then have "length s < DATA_MAX_LENGTH"
    by (simp add: div_eq_0_iff)
  then show ?case
    by simp
next
  case (Suc n)
  let ?d = "drop DATA_MAX_LENGTH s"
  have long: "DATA_MAX_LENGTH \<le> length s"
    using Suc.prems by (metis div_less nat.distinct(1) not_le)
  then have "n = length ?d div DATA_MAX_LENGTH"
    using Suc.prems le_div_geq[of DATA_MAX_LENGTH "length s"] by simp
  from Suc.IH[OF this, of "textbox_queue (data_message MESSAGE (take DATA_MAX_LENGTH s)) t"]
  show ?case
    using long new_textbox_message_take[of DATA_MAX_LENGTH s MESSAGE] pieces_full[OF long]
    by (auto simp: textbox_queue_def)
qed

lemma textbox_send_eq:
  "textbox_send s t =
     Some (True, t\<lparr>xb_queue := xb_queue t @ map (data_message MESSAGE) (pieces s)\<rparr>)"
proof -
  let ?n = "length s div DATA_MAX_LENGTH"
  obtain rest where r: "textbox_send_full ?n s t =
      Some (rest, t\<lparr>xb_queue := xb_queue t @ map (data_message MESSAGE) (take ?n (pieces s))\<rparr>)"
    "length rest < DATA_MAX_LENGTH" "pieces s = take ?n (pieces s) @ pieces rest"
    using textbox_send_full_pieces[of ?n s t] by blast
  show ?thesis
  proof (cases "rest = []")
    case True
    with r show ?thesis
      by (simp add: textbox_send_def)
  next
    case False
    have "map (data_message MESSAGE) (pieces s) =
        map (data_message MESSAGE) (take ?n (pieces s)) @ [data_message MESSAGE rest]"
      by (subst r(3)) (simp add: pieces_short False r(2) less_imp_le)
    with r False show ?thesis
      by (simp add: textbox_send_def new_textbox_message_take textbox_queue_def)
  qed
qed

subsection \<open>What a line does\<close>

datatype line_kind = Blank | Text string | Help | Quit | Select nat | Refused | Undefined_Access

text \<open>The command language, read off the text of the help message and the guards.\<close>

definition classify_args :: "string list \<Rightarrow> line_kind" where
  "classify_args args =
     (case args of
        [c] \<Rightarrow> if c = ''help'' then Help else if c = ''quit'' then Quit
               else if c = ''select'' then Undefined_Access else Refused
      | [c, i] \<Rightarrow> if c = ''select'' \<and> i \<noteq> [] \<and> length i \<le> 4 \<and> list_all is_digit i
                  then Select (decimal i) else Refused
      | _ \<Rightarrow> Refused)"

definition classify :: "string \<Rightarrow> line_kind" where
  "classify line =
     (if line = [] then Blank
      else if hd line = CHR ''#'' then classify_args (split_on (CHR '' '') (tl line))
      else Text line)"

definition select_message :: "nat \<Rightarrow> textbox_message" where
  "select_message n = data_message CONTACTS_SELECT (bytes_of_u64 (of_nat n))"

primrec line_effect :: "line_kind \<Rightarrow> textbox \<Rightarrow> (bool \<times> textbox) option" where
  "line_effect Blank t = Some (False, t)"
| "line_effect (Text s) t =
     Some (True, t\<lparr>xb_queue := xb_queue t @ map (data_message MESSAGE) (pieces s)\<rparr>)"
| "line_effect Help t = Some (True, textbox_print help_text t)"
| "line_effect Quit t = Some (True, t\<lparr>xb_stopped := True\<rparr>)"
| "line_effect (Select n) t = Some (True, textbox_queue (select_message n) t)"
| "line_effect Refused t = Some (False, t)"
| "line_effect Undefined_Access t = None"

lemma select_parse:
  "list_all is_digit i \<Longrightarrow> length i \<le> DATA_MAX_DIGITS \<Longrightarrow>
   from_chars i = (if i = [] then Inl invalid_argument else Inr (decimal i))"
  by (simp add: from_chars_short DATA_MAX_DIGITS_def)

lemma select_new_message:
  "new_textbox_message CONTACTS_SELECT 8 (bytes_of_u64 (of_nat n)) = Some (select_message n)"
  by (simp add: new_textbox_message_take select_message_def DATA_MAX_LENGTH_def)

lemma textbox_execute_args: "textbox_execute args t = line_effect (classify_args args) t"
proof (cases args)
  case Nil
  then show ?thesis
    by (simp add: textbox_execute_def classify_args_def)
next
  case (Cons c rest)
  show ?thesis
  proof (cases rest)
    case Nil
    with Cons show ?thesis
      by (simp add: textbox_execute_def classify_args_def Let_def)
  next
    case c2: (Cons i rest2)
    show ?thesis
    proof (cases rest2)
      case Nil
      with Cons c2 show ?thesis
        by (auto simp: textbox_execute_def classify_args_def Let_def select_parse
            select_new_message DATA_MAX_DIGITS_def)
    next
      case (Cons x xs)
      with \<open>args = c # rest\<close> c2 show ?thesis
        by (auto simp: textbox_execute_def classify_args_def Let_def)
    qed
  qed
qed

lemma textbox_parse_classify:
  "textbox_parse line t = line_effect (classify line) (textbox_print CLEAR_SCREEN t)"
  by (simp add: textbox_parse_def classify_def textbox_execute_args textbox_send_eq drop_Suc Let_def)

end
