(* ===== verification/TextBox_Handler.thy ===== *)
theory TextBox_Handler
  imports TextBox
begin

text \<open>
  \<open>TTTextBoxHandler\<close> (textbox/src/TTTextBoxHandler.cpp): the engine's end of the named pipe,
  which turns the messages of the text box into the engine's two callbacks.  \<open>None\<close> is a copy
  outside an array: of more than eight bytes into an identifier or more than the buffer into
  a text.

  The lemmas put the text box and the handler together: what the user typed arrives as the
  callbacks its lines mean.
\<close>

datatype callback = MessageSent string | ContactsSelected u64

definition RECEIVE_TRY_COUNT :: nat where
  "RECEIVE_TRY_COUNT = 3"

text \<open>
  The \<open>switch\<close> on a message: whether the loop goes on, and the callbacks made.
\<close>

definition textbox_dispatch :: "textbox_message \<Rightarrow> (bool \<times> callback list) option" where
  "textbox_dispatch m =
     (case xm_status m of
        TEXTBOX_HEARTBEAT \<Rightarrow> Some (True, [])
      | CONTACTS_SELECT \<Rightarrow>
          if 8 < xm_dataLength m then None
          else Some (True, [ContactsSelected (u64_of_bytes
            (take (xm_dataLength m) (xm_data m) @ replicate (8 - xm_dataLength m) (CHR 0x00)))])
      | MESSAGE \<Rightarrow>
          if DATA_MAX_LENGTH < xm_dataLength m then None
          else Some (True, [MessageSent (take (xm_dataLength m) (xm_data m))])
      | TEXTBOX_GOODBYE \<Rightarrow> Some (False, [])
      | UNDEFINED \<Rightarrow> Some (False, [])
      | TEXTBOX_OTHER n \<Rightarrow> Some (False, []))"

text \<open>
  What one turn of the loop of \<open>main\<close> meets: the stop flag set, a failed \<open>receive\<close>, the end of
  the pipe (\<open>read\<close> returns 0 and the message stays \<open>UNDEFINED\<close>), or a message.
\<close>

datatype pipe_event = StopSeen | ReadFailed | ReadEof | Read textbox_message

text \<open>
  The loop with its counter of tries; \<open>True\<close> when it has ended (the handler then stops), and
  \<open>False\<close> when it waits for the next event.  A message sets the counter to
  \<open>RECEIVE_TRY_COUNT + 1\<close>, which the loop then decrements.
\<close>

fun textbox_handler_loop :: "nat \<Rightarrow> pipe_event list \<Rightarrow> (bool \<times> callback list) option" where
  "textbox_handler_loop 0 es = Some (True, [])"
| "textbox_handler_loop (Suc i) [] = Some (False, [])"
| "textbox_handler_loop (Suc i) (StopSeen # es) = Some (True, [])"
| "textbox_handler_loop (Suc i) (ReadFailed # es) = textbox_handler_loop i es"
| "textbox_handler_loop (Suc i) (ReadEof # es) = Some (True, [])"
| "textbox_handler_loop (Suc i) (Read m # es) =
     (case textbox_dispatch m of
        None \<Rightarrow> None
      | Some (False, cbs) \<Rightarrow> Some (True, cbs)
      | Some (True, cbs) \<Rightarrow> do {
          (ended, cbs') \<leftarrow> textbox_handler_loop (RECEIVE_TRY_COUNT + 1 - 1) es;
          Some (ended, cbs @ cbs')
        })"

definition textbox_handler_main :: "bool \<Rightarrow> pipe_event list \<Rightarrow> (bool \<times> callback list) option" where
  "textbox_handler_main alive es =
     (if \<not> alive then Some (True, []) else textbox_handler_loop RECEIVE_TRY_COUNT es)"

subsection \<open>Messages of the text box\<close>

lemma dispatch_text: "length p \<le> DATA_MAX_LENGTH \<Longrightarrow>
    textbox_dispatch (data_message MESSAGE p) = Some (True, [MessageSent p])"
  by (simp add: textbox_dispatch_def data_message_def)

lemma dispatch_select: "textbox_dispatch (select_message n) = Some (True, [ContactsSelected (of_nat n)])"
  by (simp add: textbox_dispatch_def select_message_def data_message_def)

lemma loop_read:
  "textbox_dispatch m = Some (True, cbs) \<Longrightarrow>
   textbox_handler_loop (Suc i) (Read m # es) =
     (case textbox_handler_loop RECEIVE_TRY_COUNT es of
        None \<Rightarrow> None | Some (ended, cbs') \<Rightarrow> Some (ended, cbs @ cbs'))"
  by (simp split: option.split)

lemma RECEIVE_TRY_COUNT_Suc: "RECEIVE_TRY_COUNT = Suc (Suc (Suc 0))"
  by (simp add: RECEIVE_TRY_COUNT_def)

lemma loop_texts:
  "\<forall>p \<in> set ps. length p \<le> DATA_MAX_LENGTH \<Longrightarrow>
   textbox_handler_loop RECEIVE_TRY_COUNT (map (\<lambda>p. Read (data_message MESSAGE p)) ps @ es) =
     (case textbox_handler_loop RECEIVE_TRY_COUNT es of
        None \<Rightarrow> None | Some (ended, cbs) \<Rightarrow> Some (ended, map MessageSent ps @ cbs))"
proof (induction ps)
  case (Cons p ps)
  have "textbox_dispatch (data_message MESSAGE p) = Some (True, [MessageSent p])"
    using Cons.prems by (intro dispatch_text) simp
  from loop_read[OF this, of "Suc (Suc 0)"] Cons show ?case
    by (simp add: RECEIVE_TRY_COUNT_Suc[symmetric] split: option.split
        del: textbox_handler_loop.simps)
qed (simp split: option.split)

text \<open>The callbacks a line means.\<close>

primrec kind_callbacks :: "line_kind \<Rightarrow> callback list" where
  "kind_callbacks Blank = []"
| "kind_callbacks (Text s) = map MessageSent (pieces s)"
| "kind_callbacks Help = []"
| "kind_callbacks Quit = []"
| "kind_callbacks (Select n) = [ContactsSelected (of_nat n)]"
| "kind_callbacks Refused = []"
| "kind_callbacks Undefined_Access = []"

text \<open>The messages a line queues, for a line the text box survives.\<close>

primrec kind_messages :: "line_kind \<Rightarrow> textbox_message list" where
  "kind_messages Blank = []"
| "kind_messages (Text s) = map (data_message MESSAGE) (pieces s)"
| "kind_messages Help = []"
| "kind_messages Quit = []"
| "kind_messages (Select n) = [select_message n]"
| "kind_messages Refused = []"
| "kind_messages Undefined_Access = []"

lemma line_effect_queue:
  assumes "line_effect k t = Some (r, t1)"
  shows "xb_queue t1 = xb_queue t @ kind_messages k"
    "xb_stopped t1 = (xb_stopped t \<or> k = Quit)" "k \<noteq> Undefined_Access"
  using assms by (cases k; auto simp: textbox_queue_def textbox_print_def)+

lemma line_effect_total: "k \<noteq> Undefined_Access \<Longrightarrow> \<exists>r t1. line_effect k t = Some (r, t1)"
  by (cases k) auto

lemma loop_kind:
  "textbox_handler_loop RECEIVE_TRY_COUNT (map Read (kind_messages k) @ es) =
     (case textbox_handler_loop RECEIVE_TRY_COUNT es of
        None \<Rightarrow> None | Some (ended, cbs) \<Rightarrow> Some (ended, kind_callbacks k @ cbs))"
proof (cases k)
  case (Text s)
  then show ?thesis
    using loop_texts[of "pieces s" es] pieces_bound[of _ s] unfolding Text
    by (simp add: comp_def split: option.split)
next
  case (Select n)
  from loop_read[OF dispatch_select, of "Suc (Suc 0)" n es] show ?thesis
    unfolding Select
    by (simp add: RECEIVE_TRY_COUNT_Suc[symmetric] del: textbox_handler_loop.simps split: option.split)
qed (simp_all split: option.split)

lemma loop_kinds:
  "textbox_handler_loop RECEIVE_TRY_COUNT (map Read (concat (map kind_messages ks)) @ es) =
     (case textbox_handler_loop RECEIVE_TRY_COUNT es of
        None \<Rightarrow> None | Some (ended, cbs) \<Rightarrow> Some (ended, concat (map kind_callbacks ks) @ cbs))"
  by (induction ks) (simp_all add: loop_kind split: option.split)

text \<open>The lines that are read: up to and with the first \<open>#quit\<close>.\<close>

fun lines_read :: "string list \<Rightarrow> string list" where
  "lines_read [] = []"
| "lines_read (l # ls) = (if classify l = Quit then [l] else l # lines_read ls)"

lemma textbox_print_frame [simp]:
  "xb_queue (textbox_print s t) = xb_queue t" "xb_stopped (textbox_print s t) = xb_stopped t"
  by (simp_all add: textbox_print_def)

lemma textbox_parse_effect:
  "classify l \<noteq> Undefined_Access \<Longrightarrow> \<exists>r t1. textbox_parse l t = Some (r, t1) \<and>
     xb_queue t1 = xb_queue t @ kind_messages (classify l) \<and>
     xb_stopped t1 = (xb_stopped t \<or> classify l = Quit)"
  using line_effect_total[of "classify l" "textbox_print CLEAR_SCREEN t"]
    line_effect_queue[of "classify l" "textbox_print CLEAR_SCREEN t"]
  unfolding textbox_parse_classify by (metis textbox_print_frame)

lemma textbox_lines_stopped: "xb_stopped t \<Longrightarrow> textbox_lines ls t = Some t"
  by (cases ls) simp_all

lemma textbox_lines_queue:
  assumes "\<not> xb_stopped t" "\<forall>l \<in> set (lines_read ls). classify l \<noteq> Undefined_Access"
  shows "\<exists>t1. textbox_lines ls t = Some t1 \<and>
    xb_queue t1 = xb_queue t @ concat (map (kind_messages \<circ> classify) (lines_read ls))"
  using assms
proof (induction ls arbitrary: t)
  case (Cons l ls)
  have "classify l \<noteq> Undefined_Access"
    using Cons.prems(2) by (simp split: if_splits)
  then obtain r t1 where p: "textbox_parse l t = Some (r, t1)"
    "xb_queue t1 = xb_queue t @ kind_messages (classify l)"
    "xb_stopped t1 = (xb_stopped t \<or> classify l = Quit)"
    using textbox_parse_effect by blast
  show ?case
  proof (cases "classify l = Quit")
    case True
    with p Cons.prems show ?thesis
      by (simp add: textbox_lines_stopped)
  next
    case False
    with p Cons.prems Cons.IH[of t1] show ?thesis
      by simp
  qed
qed simp

subsection \<open>Patience\<close>

text \<open>No event in the list ends the loop when it starts with \<open>i\<close> tries.\<close>

fun quiet :: "nat \<Rightarrow> pipe_event list \<Rightarrow> bool" where
  "quiet i [] = True"
| "quiet i (ReadFailed # es) = (1 < i \<and> quiet (i - 1) es)"
| "quiet i (Read m # es) = ((\<exists>cbs. textbox_dispatch m = Some (True, cbs)) \<and> quiet 3 es)"
| "quiet i (StopSeen # es) = False"
| "quiet i (ReadEof # es) = False"

definition event_callbacks :: "pipe_event \<Rightarrow> callback list" where
  "event_callbacks e = (case e of Read m \<Rightarrow> snd (the (textbox_dispatch m)) | _ \<Rightarrow> [])"

lemma event_callbacks_simps [simp]:
  "event_callbacks (Read m) = snd (the (textbox_dispatch m))"
  "event_callbacks StopSeen = []" "event_callbacks ReadFailed = []" "event_callbacks ReadEof = []"
  by (simp_all add: event_callbacks_def)

lemma typed_lines_queue:
  assumes "\<forall>l \<in> set (lines_read ls). classify l \<noteq> Undefined_Access"
  shows "\<exists>t. textbox_read ls init_textbox = Some t \<and>
    xb_queue t = concat (map kind_messages (map classify (lines_read ls)))"
  using textbox_lines_queue[OF _ assms,
      of "textbox_print (CLEAR_SCREEN @ ''Type #help to print a help message'' @ NEWLINE) init_textbox"]
  by (simp add: textbox_read_def textbox_print_def init_textbox_def)

subsection \<open>Properties\<close>

text \<open>
  Whatever lines the user types, none of them a \<open>#select\<close> without an identifier, the
  text box and the handler together make exactly the callbacks these lines mean, in order: a
  text arrives whole, in pieces of at most \<open>DATA_MAX_LENGTH\<close> bytes, \<open>#select\<close> with at most
  four digits as the number they write, and empty lines, \<open>#help\<close>, unknown or wrong
  commands and everything after \<open>#quit\<close> as nothing.
\<close>

theorem textbox_end_to_end:
  assumes "\<forall>l \<in> set (lines_read ls). classify l \<noteq> Undefined_Access"
  shows "\<exists>t. textbox_read ls init_textbox = Some t \<and>
    textbox_handler_main True (map Read (xb_queue t)) =
      Some (False, concat (map (\<lambda>l. kind_callbacks (classify l)) (lines_read ls)))"
proof -
  obtain t1 where t1: "textbox_read ls init_textbox = Some t1"
    "xb_queue t1 = concat (map kind_messages (map classify (lines_read ls)))"
    using typed_lines_queue[OF assms] by blast
  have "textbox_handler_loop RECEIVE_TRY_COUNT [] = Some (False, [])"
    by (simp add: RECEIVE_TRY_COUNT_Suc)
  then have "textbox_handler_loop RECEIVE_TRY_COUNT (map Read (xb_queue t1)) =
      Some (False, concat (map kind_callbacks (map classify (lines_read ls))))"
    using loop_kinds[of "map classify (lines_read ls)" "[]"] t1(2) by simp
  with t1(1) show ?thesis
    by (simp add: textbox_handler_main_def comp_def)
qed

lemma split_on_select: "split_on (CHR '' '') ''select 12'' = [''select'', ''12'']"
  using split_on_piece[of "CHR '' ''" "''select''" "''12''"] split_on_single[of "CHR '' ''" "''12''"]
  by simp

lemma classify_select_sample: "classify ''#select 12'' = Select 12"
  by (simp add: classify_def split_on_select classify_args_def is_digit_def decimal_def digit_value_def)

theorem textbox_end_to_end_witness:
  "\<exists>t. textbox_read [''hello'', ''#select 12''] init_textbox = Some t \<and>
    textbox_handler_main True (map Read (xb_queue t)) =
      Some (False, [MessageSent ''hello'', ContactsSelected 12])"
proof -
  have k: "classify ''hello'' = Text ''hello''"
    by (simp add: classify_def)
  have p: "pieces ''hello'' = [''hello'']"
    by (rule pieces_short) (simp_all add: DATA_MAX_LENGTH_def)
  have "\<forall>l \<in> set (lines_read [''hello'', ''#select 12'']). classify l \<noteq> Undefined_Access"
    by (simp add: k classify_select_sample)
  from textbox_end_to_end[OF this] show ?thesis
    by (simp add: k classify_select_sample p)
qed

text \<open>
  C35: the only lines that reach outside an array are \<open>#select\<close> and \<open>#select\<close> followed by
  one space: \<open>execute\<close> then reads \<open>args[1]\<close> of a vector with one element.
\<close>

theorem textbox_parse_undefined:
  "textbox_parse line t = None \<longleftrightarrow> line = ''#select'' \<or> line = ''#select ''"
proof -
  have "line_effect k t' = None \<longleftrightarrow> k = Undefined_Access" for k t'
    by (cases k) simp_all
  moreover have "classify_args args = Undefined_Access \<longleftrightarrow> args = [''select'']" for args
    by (auto simp: classify_args_def split: list.splits if_splits)
  moreover have "split_on (CHR '' '') s = [''select''] \<longleftrightarrow> s = ''select'' \<or> s = ''select ''" for s
    using split_on_one[of "''select''" "CHR '' ''" s] by simp
  ultimately show ?thesis
    unfolding textbox_parse_classify classify_def by (cases line) auto
qed

text \<open>
  The handler's loop ends by itself only after three failed reads in a row, at the end
  of the pipe, or at a message that is no heartbeat, selection or text; as long as none of this
  happens and it is not stopped, it has made the callbacks of every message it read.
\<close>

theorem textbox_handler_patience:
  "textbox_handler_loop i es = Some (False, cbs) \<longleftrightarrow>
     0 < i \<and> quiet i es \<and> cbs = concat (map event_callbacks es)"
proof (induction i es arbitrary: cbs rule: textbox_handler_loop.induct)
  case (4 i es)
  show ?case
  proof (cases i)
    case 0
    then show ?thesis by simp
  next
    case (Suc j)
    with 4 show ?thesis by simp
  qed
next
  case (6 i m es)
  show ?case
  proof (cases "textbox_dispatch m")
    case None
    then show ?thesis by simp
  next
    case (Some p)
    obtain c k where p: "p = (c, k)"
      by (cases p)
    show ?thesis
    proof (cases c)
      case False
      with Some p show ?thesis by simp
    next
      case True
      have "textbox_handler_loop (RECEIVE_TRY_COUNT + 1 - 1) es = Some (False, d) \<longleftrightarrow>
          0 < RECEIVE_TRY_COUNT + 1 - 1 \<and> quiet (RECEIVE_TRY_COUNT + 1 - 1) es \<and>
          d = concat (map event_callbacks es)" for d
        by (rule 6[OF Some, of c k]) (simp_all add: p True)
      then have ih: "textbox_handler_loop RECEIVE_TRY_COUNT es = Some (False, d) \<longleftrightarrow>
          quiet 3 es \<and> d = concat (map event_callbacks es)" for d
        by (simp add: RECEIVE_TRY_COUNT_def)
      have step: "textbox_handler_loop (Suc i) (Read m # es) =
          (case textbox_handler_loop RECEIVE_TRY_COUNT es of
             None \<Rightarrow> None | Some (ended, cbs') \<Rightarrow> Some (ended, k @ cbs'))"
        by (rule loop_read) (simp add: Some p True)
      have "textbox_handler_loop (Suc i) (Read m # es) = Some (False, cbs) \<longleftrightarrow>
          (\<exists>d. textbox_handler_loop RECEIVE_TRY_COUNT es = Some (False, d) \<and> cbs = k @ d)"
        unfolding step by (auto split: option.split)
      then show ?thesis
        unfolding ih by (simp add: Some p True)
    qed
  qed
qed auto

end
