(* ===== verification/TextBox_Link.thy ===== *)
theory TextBox_Link
  imports TextBox_Handler Pump_Spec
begin

text \<open>
  The two threads of \<open>TTTextBox\<close> (textbox/src/TTTextBox.cpp): \<open>asynchronousRead\<close>, which parses
  the user's lines and queues their messages, and \<open>main\<close>, which moves the queued messages into the
  named pipe and a heartbeat when there are none.  As in \<open>Contacts_Pump\<close> and \<open>Chat_Link\<close> a
  step of \<open>main\<close> ends where it reads the stop flag, waits or calls the pipe; \<open>reader_step\<close> queues one
  message at a time, so \<open>main\<close> may take the first pieces of a long line before the last are
  queued.  A call of \<open>parse\<close> without a step is one that reaches outside an array.

  \<open>tl_wire\<close> lists the messages written to the pipe; \<open>tl_accepted\<close> and \<open>tl_typed\<close>, which no step
  reads, the messages ever queued and the lines ever parsed.  The last theorem puts the text box, the
  pipe and the engine's \<open>TTTextBoxHandler\<close> together.
\<close>

subsection \<open>State and steps\<close>

datatype textbox_pc =
    X_Head                            \<comment> \<open>at the head of the loop\<close>
  | X_Wait                            \<comment> \<open>in \<open>wait_for\<close>\<close>
  | X_Sending "textbox_message list"  \<comment> \<open>at the head of the loop over the batch\<close>
  | X_Checked "textbox_message list"  \<comment> \<open>the stop flag was read as unset\<close>
  | X_Goodbye                         \<comment> \<open>at \<open>sendGoodbye\<close>\<close>
  | X_Leaving                         \<comment> \<open>at \<open>stop\<close>\<close>
  | X_Exited

record textbox_link =
  tl_box :: textbox
  tl_pc :: textbox_pc
  tl_reading :: bool                  \<comment> \<open>the reader waits for a line\<close>
  tl_parsed :: "textbox_message list" \<comment> \<open>messages of the line being parsed, not yet queued\<close>
  tl_wire :: "textbox_message list"
  tl_accepted :: "textbox_message list"
  tl_typed :: "string list"

definition init_textbox_link :: textbox_link where
  "init_textbox_link = \<lparr>tl_box = init_textbox, tl_pc = X_Head, tl_reading = False, tl_parsed = [],
     tl_wire = [], tl_accepted = [], tl_typed = []\<rparr>"

abbreviation link_queue :: "textbox_link \<Rightarrow> textbox_message list" where
  "link_queue s \<equiv> xb_queue (tl_box s)"

definition set_queue :: "textbox_message list \<Rightarrow> textbox_link \<Rightarrow> textbox_link" where
  "set_queue q s = s\<lparr>tl_box := (tl_box s)\<lparr>xb_queue := q\<rparr>\<rparr>"

definition stop_box :: "textbox_link \<Rightarrow> textbox_link" where
  "stop_box s = s\<lparr>tl_box := (tl_box s)\<lparr>xb_stopped := True\<rparr>\<rparr>"

inductive textbox_main :: "textbox_link \<Rightarrow> textbox_link \<Rightarrow> bool" where
  x_stopped: "tl_pc s = X_Head \<Longrightarrow> xb_stopped (tl_box s) \<Longrightarrow> textbox_main s (s\<lparr>tl_pc := X_Goodbye\<rparr>)"
| x_turn: "tl_pc s = X_Head \<Longrightarrow> \<not> xb_stopped (tl_box s) \<Longrightarrow> textbox_main s (s\<lparr>tl_pc := X_Wait\<rparr>)"
| x_drain: "tl_pc s = X_Wait \<Longrightarrow> link_queue s \<noteq> [] \<Longrightarrow>
     textbox_main s (set_queue [] (s\<lparr>tl_pc := X_Sending (link_queue s)\<rparr>))"
| x_heartbeat: "tl_pc s = X_Wait \<Longrightarrow> link_queue s = [] \<Longrightarrow>
     new_textbox_message TEXTBOX_HEARTBEAT 0 [] = Some m \<Longrightarrow>
     textbox_main s (s\<lparr>tl_pc := X_Sending [m], tl_accepted := tl_accepted s @ [m]\<rparr>)"
| x_batch_end: "tl_pc s = X_Sending [] \<Longrightarrow> textbox_main s (s\<lparr>tl_pc := X_Head\<rparr>)"
| x_break: "tl_pc s = X_Sending (m # ms) \<Longrightarrow> xb_stopped (tl_box s) \<Longrightarrow>
     textbox_main s (s\<lparr>tl_pc := X_Head\<rparr>)"
| x_check: "tl_pc s = X_Sending (m # ms) \<Longrightarrow> \<not> xb_stopped (tl_box s) \<Longrightarrow>
     textbox_main s (s\<lparr>tl_pc := X_Checked (m # ms)\<rparr>)"
| x_sent: "tl_pc s = X_Checked (m # ms) \<Longrightarrow>
     textbox_main s (s\<lparr>tl_pc := X_Sending ms, tl_wire := tl_wire s @ [m]\<rparr>)"
| x_failed: "tl_pc s = X_Checked (m # ms) \<Longrightarrow> textbox_main s (s\<lparr>tl_pc := X_Goodbye\<rparr>)"
| x_goodbye: "tl_pc s = X_Goodbye \<Longrightarrow> new_textbox_message TEXTBOX_GOODBYE 0 [] = Some m \<Longrightarrow>
     textbox_main s (s\<lparr>tl_pc := X_Leaving, tl_wire := tl_wire s @ [m]\<rparr>)"
| x_no_goodbye: "tl_pc s = X_Goodbye \<Longrightarrow> textbox_main s (s\<lparr>tl_pc := X_Leaving\<rparr>)"
| x_leave: "tl_pc s = X_Leaving \<Longrightarrow> textbox_main s (stop_box (s\<lparr>tl_pc := X_Exited\<rparr>))"

inductive reader_step :: "textbox_link \<Rightarrow> textbox_link \<Rightarrow> bool" where
  read_head: "tl_parsed s = [] \<Longrightarrow> \<not> tl_reading s \<Longrightarrow> \<not> xb_stopped (tl_box s) \<Longrightarrow>
     reader_step s (s\<lparr>tl_reading := True\<rparr>)"
| read_line: "tl_reading s \<Longrightarrow>
     textbox_parse line ((tl_box s)\<lparr>xb_queue := []\<rparr>) = Some (r, b) \<Longrightarrow>
     reader_step s (s\<lparr>tl_reading := False, tl_parsed := xb_queue b,
       tl_box := b\<lparr>xb_queue := link_queue s\<rparr>, tl_typed := tl_typed s @ [line]\<rparr>)"
| read_queue: "tl_parsed s = m # ms \<Longrightarrow>
     reader_step s (set_queue (link_queue s @ [m])
       (s\<lparr>tl_parsed := ms, tl_accepted := tl_accepted s @ [m]\<rparr>))"

text \<open>The destructor, or a signal, may stop the text box at any time.\<close>

definition textbox_others :: "textbox_link \<Rightarrow> textbox_link \<Rightarrow> bool" where
  "textbox_others s t \<longleftrightarrow> reader_step s t \<or> t = stop_box s"

definition textbox_goodbye :: textbox_message where
  "textbox_goodbye = data_message TEXTBOX_GOODBYE []"

definition textbox_heartbeat :: textbox_message where
  "textbox_heartbeat = data_message TEXTBOX_HEARTBEAT []"

lemma new_heartbeat: "new_textbox_message TEXTBOX_HEARTBEAT 0 [] = Some textbox_heartbeat"
  by (simp add: new_textbox_message_def textbox_heartbeat_def data_message_def)

lemma new_goodbye: "new_textbox_message TEXTBOX_GOODBYE 0 [] = Some textbox_goodbye"
  by (simp add: new_textbox_message_def textbox_goodbye_def data_message_def)

subsection \<open>What the messages mean\<close>

definition harmless :: "textbox_message \<Rightarrow> bool" where
  "harmless m \<longleftrightarrow> (\<exists>cbs. textbox_dispatch m = Some (True, cbs))"

definition message_callbacks :: "textbox_message \<Rightarrow> callback list" where
  "message_callbacks m = (case textbox_dispatch m of None \<Rightarrow> [] | Some (goes_on, cbs) \<Rightarrow> cbs)"

definition line_callbacks :: "string \<Rightarrow> callback list" where
  "line_callbacks l = kind_callbacks (classify l)"

lemma heartbeat_meaning: "harmless textbox_heartbeat" "message_callbacks textbox_heartbeat = []"
  by (simp_all add: harmless_def message_callbacks_def textbox_dispatch_def textbox_heartbeat_def
      data_message_def)

lemma goodbye_dispatch: "textbox_dispatch textbox_goodbye = Some (False, [])"
  by (simp add: textbox_dispatch_def textbox_goodbye_def data_message_def)

lemma kind_meaning:
  "list_all harmless (kind_messages k) \<and>
   concat (map message_callbacks (kind_messages k)) = kind_callbacks k"
proof (cases k)
  case (Text s)
  have "\<forall>p \<in> set ps. length p \<le> DATA_MAX_LENGTH \<Longrightarrow>
      list_all harmless (map (data_message MESSAGE) ps) \<and>
      concat (map message_callbacks (map (data_message MESSAGE) ps)) = map MessageSent ps" for ps
    by (induction ps) (simp_all add: harmless_def message_callbacks_def dispatch_text)
  with pieces_bound[of _ s] Text show ?thesis
    by simp
qed (simp_all add: harmless_def message_callbacks_def dispatch_select)

lemma loop_harmless:
  "list_all harmless ms \<Longrightarrow>
   textbox_handler_loop RECEIVE_TRY_COUNT (map Read ms @ es) =
     (case textbox_handler_loop RECEIVE_TRY_COUNT es of
        None \<Rightarrow> None | Some (ended, cbs) \<Rightarrow> Some (ended, concat (map message_callbacks ms) @ cbs))"
proof (induction ms)
  case (Cons m ms)
  then obtain cbs where d: "textbox_dispatch m = Some (True, cbs)"
    by (auto simp: harmless_def)
  then have "message_callbacks m = cbs"
    by (simp add: message_callbacks_def)
  with loop_read[OF d, of "Suc (Suc 0)"] Cons show ?case
    by (simp add: RECEIVE_TRY_COUNT_Suc[symmetric] split: option.split del: textbox_handler_loop.simps)
qed (simp split: option.split)

lemma parse_meaning:
  assumes "textbox_parse l (b0\<lparr>xb_queue := []\<rparr>) = Some (r, b)"
  shows "xb_queue b = kind_messages (classify l)"
    "xb_stopped b = (xb_stopped b0 \<or> classify l = Quit)"
  using line_effect_queue[of "classify l" "textbox_print CLEAR_SCREEN (b0\<lparr>xb_queue := []\<rparr>)" r b] assms
  unfolding textbox_parse_classify by simp_all

subsection \<open>What the threads keep\<close>

primrec box_holds :: "textbox_pc \<Rightarrow> textbox_message list" where
  "box_holds X_Head = []"
| "box_holds X_Wait = []"
| "box_holds (X_Sending ms) = ms"
| "box_holds (X_Checked ms) = ms"
| "box_holds X_Goodbye = []"
| "box_holds X_Leaving = []"
| "box_holds X_Exited = []"

definition box_ok :: "textbox_link \<Rightarrow> bool" where
  "box_ok s \<longleftrightarrow>
     (case tl_pc s of
        X_Goodbye \<Rightarrow> True
      | X_Leaving \<Rightarrow> True
      | X_Exited \<Rightarrow> xb_stopped (tl_box s)
      | X_Head \<Rightarrow> xb_stopped (tl_box s) \<or> tl_wire s @ link_queue s = tl_accepted s
      | pc \<Rightarrow> pc \<noteq> X_Checked [] \<and> tl_wire s @ box_holds pc @ link_queue s = tl_accepted s)"

definition typed_ok :: "textbox_link \<Rightarrow> bool" where
  "typed_ok s \<longleftrightarrow> list_all harmless (tl_accepted s @ tl_parsed s) \<and>
     concat (map message_callbacks (tl_accepted s @ tl_parsed s)) =
       concat (map line_callbacks (tl_typed s)) \<and>
     (tl_reading s \<longrightarrow> tl_parsed s = [])"

definition box_inv :: "textbox_link \<Rightarrow> bool" where
  "box_inv s \<longleftrightarrow> box_ok s \<and> typed_ok s"

lemma link_simps [simp]:
  "tl_pc (set_queue q s) = tl_pc s" "link_queue (set_queue q s) = q"
  "xb_stopped (tl_box (set_queue q s)) = xb_stopped (tl_box s)" "tl_wire (set_queue q s) = tl_wire s"
  "tl_accepted (set_queue q s) = tl_accepted s" "tl_parsed (set_queue q s) = tl_parsed s"
  "tl_reading (set_queue q s) = tl_reading s" "tl_typed (set_queue q s) = tl_typed s"
  "tl_pc (stop_box s) = tl_pc s" "link_queue (stop_box s) = link_queue s"
  "xb_stopped (tl_box (stop_box s))" "tl_wire (stop_box s) = tl_wire s"
  "tl_accepted (stop_box s) = tl_accepted s" "tl_parsed (stop_box s) = tl_parsed s"
  "tl_reading (stop_box s) = tl_reading s" "tl_typed (stop_box s) = tl_typed s"
  by (simp_all add: set_queue_def stop_box_def)

lemma box_inv_init: "box_inv init_textbox_link"
  by (simp add: box_inv_def box_ok_def typed_ok_def init_textbox_link_def init_textbox_def)

lemma box_ok_main: "textbox_main s t \<Longrightarrow> box_ok s \<Longrightarrow> box_ok t"
  by (induction rule: textbox_main.induct) (auto simp: box_ok_def)

lemma typed_ok_main: "textbox_main s t \<Longrightarrow> typed_ok s \<Longrightarrow> typed_ok t"
  by (induction rule: textbox_main.induct) (auto simp: typed_ok_def new_heartbeat heartbeat_meaning)

lemma box_ok_reader: "reader_step s t \<Longrightarrow> box_ok s \<Longrightarrow> box_ok t"
proof (induction rule: reader_step.induct)
  case (read_line s l r b)
  then show ?case
    using parse_meaning(2)[OF read_line(2)] by (auto simp: box_ok_def split: textbox_pc.splits)
qed (auto simp: box_ok_def split: textbox_pc.splits)

lemma typed_ok_reader: "reader_step s t \<Longrightarrow> typed_ok s \<Longrightarrow> typed_ok t"
proof (induction rule: reader_step.induct)
  case (read_line s l r b)
  then show ?case
    using parse_meaning(1)[OF read_line(2)] kind_meaning[of "classify l"]
    by (auto simp: typed_ok_def line_callbacks_def)
qed (auto simp: typed_ok_def)

lemma box_inv_main: "textbox_main s t \<Longrightarrow> box_inv s \<Longrightarrow> box_inv t"
  using box_ok_main typed_ok_main by (simp add: box_inv_def)

lemma box_inv_stop: "box_inv s \<Longrightarrow> box_inv (stop_box s)"
  by (simp add: box_inv_def box_ok_def typed_ok_def split: textbox_pc.splits)

lemma box_inv_others: "textbox_others s t \<Longrightarrow> box_inv s \<Longrightarrow> box_inv t"
  using box_ok_reader[of s t] typed_ok_reader[of s t] box_inv_stop[of s]
  unfolding textbox_others_def by (auto simp: box_inv_def)

subsection \<open>The main thread as a pump that can be stopped\<close>

definition box_channel :: "textbox_link \<Rightarrow> textbox_message channel" where
  "box_channel s = \<lparr>ch_accepted = tl_accepted s, ch_wire = tl_wire s,
     ch_closed = (tl_pc s = X_Leaving \<or> tl_pc s = X_Exited)\<rparr>"

lemma textbox_main_channel:
  "textbox_main s t \<Longrightarrow> box_inv s \<Longrightarrow>
   (channel_step textbox_goodbye)\<^sup>*\<^sup>* (box_channel s) (box_channel t)"
proof (induction rule: textbox_main.induct)
  case (x_sent s m ms)
  then show ?case
    by (auto simp: box_channel_def box_inv_def box_ok_def intro: channel_deliver)
qed (simp_all add: box_channel_def new_goodbye channel_moves(2,4,5))

lemma textbox_others_channel:
  assumes "textbox_others s t"
  shows "(channel_step textbox_goodbye)\<^sup>*\<^sup>* (box_channel s) (box_channel t)"
proof -
  have "\<exists>ms. box_channel t = (box_channel s)\<lparr>ch_accepted := ch_accepted (box_channel s) @ ms\<rparr>"
    using assms unfolding textbox_others_def
    by (elim disjE reader_step.cases) (simp_all add: box_channel_def)
  then show ?thesis
    using channel_moves(2)[of textbox_goodbye "tl_accepted s"] by (elim exE) (simp add: box_channel_def)
qed

interpretation textbox_pump: pump textbox_main textbox_others init_textbox_link box_inv
  box_channel textbox_goodbye
proof unfold_locales
  show "box_channel init_textbox_link = open_channel"
    by (simp add: box_channel_def init_textbox_link_def open_channel_def)
qed (use box_inv_init box_inv_main box_inv_others textbox_main_channel textbox_others_channel in blast)+

primrec box_rank :: "textbox_pc \<Rightarrow> nat" where
  "box_rank X_Head = 3"
| "box_rank X_Wait = 5"
| "box_rank (X_Sending ms) = 4"
| "box_rank (X_Checked ms) = 5"
| "box_rank X_Goodbye = 2"
| "box_rank X_Leaving = 1"
| "box_rank X_Exited = 0"

lemma textbox_main_rank:
  "textbox_main s t \<Longrightarrow> xb_stopped (tl_box s) \<Longrightarrow>
   xb_stopped (tl_box t) \<and> box_rank (tl_pc t) < box_rank (tl_pc s)"
  by (induction rule: textbox_main.induct) auto

lemma reader_step_rank:
  "reader_step s t \<Longrightarrow> tl_pc t = tl_pc s \<and> (xb_stopped (tl_box s) \<longrightarrow> xb_stopped (tl_box t))"
  by (induction rule: reader_step.induct) (auto dest: parse_meaning(2))

lemma textbox_main_enabled:
  assumes "box_inv s" "xb_stopped (tl_box s)" "tl_pc s \<noteq> X_Exited"
  shows "\<exists>t. textbox_main s t"
proof (cases "tl_pc s")
  case X_Wait
  then show ?thesis
    using new_heartbeat by (cases "link_queue s = []") (blast intro: x_heartbeat x_drain)+
next
  case (X_Sending ms)
  with assms show ?thesis
    by (cases ms) (auto intro: textbox_main.intros)
next
  case (X_Checked ms)
  with assms show ?thesis
    by (cases ms) (auto simp: box_inv_def box_ok_def intro: textbox_main.intros)
qed (use assms in \<open>auto intro: textbox_main.intros\<close>)

interpretation textbox_stop: stoppable textbox_main textbox_others init_textbox_link box_inv
  "\<lambda>s. xb_stopped (tl_box s)" "\<lambda>s. tl_pc s = X_Exited" "\<lambda>s. box_rank (tl_pc s)" 5
proof unfold_locales
  show "box_rank (tl_pc s) \<le> 5" for s
    by (cases "tl_pc s") simp_all
qed (auto simp: textbox_others_def dest: textbox_main_rank reader_step_rank intro: textbox_main_enabled)

subsection \<open>Properties\<close>

text \<open>
  C14: However the two threads of the text box and its stops interleave and whichever writes fail,
  the engine's handler, reading what was written to the pipe, makes the callbacks of a
  prefix of the lines' meaning, in order, none changed, none twice and none made up; it ends by
  itself exactly when it has read the goodbye, which is at most the last message.
\<close>

theorem textbox_link_callbacks:
  assumes "runs textbox_main textbox_others n init_textbox_link s"
  shows "\<exists>cbs. textbox_handler_main True (map Read (tl_wire s)) =
      Some (textbox_goodbye \<in> set (tl_wire s), cbs) \<and>
    prefix cbs (concat (map line_callbacks (tl_typed s)))"
proof -
  have "box_inv s"
    using textbox_pump.reachable_inv[OF assms] .
  then have ok: "list_all harmless (tl_accepted s)"
    "concat (map message_callbacks (tl_accepted s @ tl_parsed s)) = concat (map line_callbacks (tl_typed s))"
    by (simp_all add: box_inv_def typed_ok_def)
  obtain sent g where w: "tl_wire s = sent @ g" "prefix sent (tl_accepted s)"
    "g = [] \<or> g = [textbox_goodbye]"
    using textbox_pump.pump_wire[OF assms] by (auto simp: box_channel_def)
  from w(2) obtain rest where rest: "tl_accepted s = sent @ rest"
    by (auto elim: prefixE)
  with ok(1) have harmless: "list_all harmless sent"
    by simp
  then have no_bye: "textbox_goodbye \<notin> set sent"
    by (auto simp: list_all_iff harmless_def goodbye_dispatch)
  have "textbox_handler_loop RECEIVE_TRY_COUNT (map Read g) = Some (g \<noteq> [], [])"
    using w(3) by (auto simp: RECEIVE_TRY_COUNT_Suc goodbye_dispatch)
  with loop_harmless[OF harmless, of "map Read g"]
  have "textbox_handler_main True (map Read (tl_wire s)) =
      Some (textbox_goodbye \<in> set (tl_wire s), concat (map message_callbacks sent))"
    using w(1,3) no_bye by (auto simp: textbox_handler_main_def)
  moreover have "prefix (concat (map message_callbacks sent)) (concat (map line_callbacks (tl_typed s)))"
    unfolding ok(2)[symmetric] rest by simp
  ultimately show ?thesis
    by blast
qed

lemma textbox_stopped_run:
  "runs textbox_main textbox_others 0 init_textbox_link (stop_box init_textbox_link)"
  by (rule runs_others[OF runs_nil]) (simp add: textbox_others_def)

theorem textbox_link_callbacks_witness:
  "\<exists>s. runs textbox_main textbox_others 2 init_textbox_link s \<and> tl_wire s = [textbox_goodbye] \<and>
    textbox_handler_main True (map Read (tl_wire s)) = Some (True, [])"
proof -
  let ?s1 = "stop_box init_textbox_link"
  let ?s2 = "?s1\<lparr>tl_pc := X_Goodbye\<rparr>"
  let ?s3 = "?s2\<lparr>tl_pc := X_Leaving, tl_wire := tl_wire ?s2 @ [textbox_goodbye]\<rparr>"
  have "runs textbox_main textbox_others 1 init_textbox_link ?s2"
    using runs_own[OF textbox_stopped_run x_stopped] by (simp add: init_textbox_link_def)
  from runs_own[OF this x_goodbye[OF _ new_goodbye]]
  have r: "runs textbox_main textbox_others 2 init_textbox_link ?s3"
    by (simp add: numeral_2_eq_2)
  have "tl_wire ?s3 = [textbox_goodbye]" "tl_typed ?s3 = []"
    by (simp_all add: init_textbox_link_def)
  with r textbox_link_callbacks[OF r] show ?thesis
    by (intro exI[of _ ?s3]) simp
qed

text \<open>
  Once the text box is stopped its sender thread takes at most five more steps, whatever the
  reader does meanwhile, and can always take one until it has exited.
\<close>

theorem textbox_link_exits:
  assumes "runs textbox_main textbox_others k init_textbox_link s" "xb_stopped (tl_box s)"
    and "runs textbox_main textbox_others n s t"
  shows "n \<le> 5 \<and> (tl_pc t = X_Exited \<or> (\<exists>u. textbox_main t u))"
  using textbox_stop.leaves[OF textbox_pump.reachable_inv[OF assms(1)] assms(2,3)] .

theorem textbox_link_exits_witness:
  "let s = stop_box init_textbox_link
   in runs textbox_main textbox_others 0 init_textbox_link s \<and> (\<exists>u. textbox_main s u)"
proof -
  have "tl_pc (stop_box init_textbox_link) \<noteq> X_Exited" "xb_stopped (tl_box (stop_box init_textbox_link))"
    by (simp_all add: init_textbox_link_def)
  with textbox_link_exits[OF textbox_stopped_run _ runs_nil] textbox_stopped_run show ?thesis
    unfolding Let_def by blast
qed

end
