(* ===== verification/TextBox_Input.thy ===== *)
theory TextBox_Input
  imports TextBox
begin

text \<open>
  The loop of \<open>asynchronousRead\<close> of \<open>TTTextBox\<close> on the standard input itself, which
  \<open>TTUtilsInputStream::readline\<close> reads with \<open>std::getline\<close>.  The loop looks at neither the state of the stream
  nor the difference between an empty line and the end of the input.

  The lemmas show that while there is input the loop does what TextBox says of its lines, and what it does
  after the end.
\<close>

text \<open>A call of \<open>readline\<close>: the line and the input left.  At the end of the input the line is empty.\<close>

definition readline :: "string \<Rightarrow> string \<times> string" where
  "readline input =
     (takeWhile (\<lambda>c. c \<noteq> CHR 0x0A) input, drop 1 (dropWhile (\<lambda>c. c \<noteq> CHR 0x0A) input))"

text \<open>The first turns of the loop.\<close>

fun asynchronousRead :: "nat \<Rightarrow> string \<Rightarrow> textbox \<Rightarrow> (string \<times> textbox) option" where
  "asynchronousRead 0 input t = Some (input, t)"
| "asynchronousRead (Suc k) input t =
     (if xb_stopped t then Some (input, t)
      else do {
        let (line, rest) = readline input;
        (parsed, t1) \<leftarrow> textbox_parse line t;
        asynchronousRead k rest t1
      })"

definition typed_input :: "string list \<Rightarrow> string" where
  "typed_input lines = concat (map (\<lambda>l. l @ NEWLINE) lines)"

lemma readline_typed [simp]:
  assumes "CHR 0x0A \<notin> set l"
  shows "readline (l @ NEWLINE @ s) = (l, s)"
proof -
  have "\<forall>c \<in> set l. c \<noteq> CHR 0x0A"
    using assms by blast
  then show ?thesis
    by (simp add: readline_def NEWLINE_def takeWhile_append2 dropWhile_append2)
qed

lemma readline_end [simp]: "readline [] = ([], [])"
  by (simp add: readline_def)

lemma read_lines:
  "\<forall>l \<in> set ls. CHR 0x0A \<notin> set l \<Longrightarrow> textbox_lines ls t = Some t1 \<Longrightarrow> \<not> xb_stopped t1 \<Longrightarrow>
   asynchronousRead (length ls + k) (typed_input ls @ s) t = asynchronousRead k s t1"
proof (induction ls arbitrary: t)
  case Nil
  then show ?case
    by (simp add: typed_input_def)
next
  case (Cons l ls)
  have "\<not> xb_stopped t"
    using Cons.prems(2,3) by (auto split: if_splits)
  then obtain p t2 where t2: "textbox_parse l t = Some (p, t2)" "textbox_lines ls t2 = Some t1"
    using Cons.prems(2) by (auto simp: bind_eq_Some_conv)
  have "readline (typed_input (l # ls) @ s) = (l, typed_input ls @ s)"
    using Cons.prems(1) by (simp add: typed_input_def)
  with Cons.IH[OF _ t2(2) Cons.prems(3)] Cons.prems(1) t2(1) \<open>\<not> xb_stopped t\<close> show ?case
    by simp
qed

lemma read_end:
  "\<not> xb_stopped t \<Longrightarrow>
   asynchronousRead k [] t = Some ([], textbox_print (concat (replicate k CLEAR_SCREEN)) t)"
proof (induction k arbitrary: t)
  case 0
  then show ?case
    by (simp add: textbox_print_def)
next
  case (Suc k)
  have "textbox_parse [] t = Some (False, textbox_print CLEAR_SCREEN t)"
    by (simp add: textbox_parse_def Let_def)
  with Suc.IH[of "textbox_print CLEAR_SCREEN t"] Suc.prems show ?case
    by (simp add: textbox_print_def)
qed

subsection \<open>Properties\<close>

text \<open>
  C34: the text box does not notice the end of its input: when lines that do not stop it were read and
  the input ends, every further turn of the loop clears the screen at once, queues nothing and goes on, for
  as long as nobody else stops the text box.
\<close>

theorem textbox_end_of_input:
  assumes "\<forall>l \<in> set ls. CHR 0x0A \<notin> set l" "textbox_lines ls t = Some t1" "\<not> xb_stopped t1"
  shows "asynchronousRead (length ls + k) (typed_input ls) t =
    Some ([], t1\<lparr>xb_out := xb_out t1 @ concat (replicate k CLEAR_SCREEN)\<rparr>)"
  using read_lines[OF assms, of k "[]"] read_end[OF assms(3)] by (simp add: textbox_print_def)

theorem textbox_end_of_input_witness:
  "\<exists>t1. textbox_lines [''hello''] init_textbox = Some t1 \<and>
    asynchronousRead 1001 (''hello'' @ NEWLINE) init_textbox =
      Some ([], t1\<lparr>xb_out := xb_out t1 @ concat (replicate 1000 CLEAR_SCREEN)\<rparr>)"
proof -
  have "case textbox_lines [''hello''] init_textbox of None \<Rightarrow> False | Some t1 \<Rightarrow> \<not> xb_stopped t1"
    by (simp add: textbox_parse_def textbox_send_def init_textbox_def textbox_print_def textbox_queue_def
        new_textbox_message_def DATA_MAX_LENGTH_def Let_def)
  then obtain t1 where t1: "textbox_lines [''hello''] init_textbox = Some t1" "\<not> xb_stopped t1"
    by (auto split: option.splits)
  have "typed_input [''hello''] = ''hello'' @ NEWLINE"
    by (simp add: typed_input_def)
  with textbox_end_of_input[OF _ t1, of 1000] t1(1) show ?thesis
    by simp
qed

end
