(* ===== verification/Node_Stores.thy ===== *)
theory Node_Stores
  imports Contacts_Book Chat_Handler
begin

text \<open>
  The two stores the engine keeps side by side, contacts and conversations, seen through what
  its other parts rely on.  The locale \<open>stores\<close> holds that contract: what the operations of
  each store answer and change, as long as it is not stopped.  In it is proved once that the
  pairs of calls the engine makes keep the stores in step: as many conversations as contacts,
  and the same one current in both.  The interpretation discharges the contract for the models
  of \<open>TTContactsHandler\<close> and \<open>TTChatHandler\<close>.
\<close>

locale stores =
  fixes cstep :: "'c \<Rightarrow> contacts_op \<Rightarrow> (bool \<times> 'c) option"
    and cinv :: "'c \<Rightarrow> bool"
    and csize :: "'c \<Rightarrow> nat"
    and ccurrent :: "'c \<Rightarrow> nat option"
    and cstopped :: "'c \<Rightarrow> bool"
    and conline :: "'c \<Rightarrow> nat \<Rightarrow> bool"
    and hstep :: "'h \<Rightarrow> chat_op \<Rightarrow> (bool \<times> 'h) option"
    and hinv :: "'h \<Rightarrow> bool"
    and hsize :: "'h \<Rightarrow> nat"
    and hcurrent :: "'h \<Rightarrow> nat option"
    and hstopped :: "'h \<Rightarrow> bool"
  assumes c_total: "cinv c \<Longrightarrow> contacts_op_ok x \<Longrightarrow> \<exists>r c'. cstep c x = Some (r, c') \<and> cinv c'"
    and c_create: "cinv c \<Longrightarrow> \<not> cstopped c \<Longrightarrow> contacts_op_ok (ContactsCreate n k a) \<Longrightarrow>
      cstep c (ContactsCreate n k a) = Some (r, c') \<Longrightarrow>
      r \<and> csize c' = Suc (csize c) \<and> ccurrent c' = ccurrent c \<and> \<not> cstopped c'"
    and c_send: "cinv c \<Longrightarrow> \<not> cstopped c \<Longrightarrow> cstep c (ContactsSend i) = Some (r, c') \<Longrightarrow>
      (ccurrent c = Some i \<longrightarrow> r) \<and> csize c' = csize c \<and> ccurrent c' = ccurrent c \<and> \<not> cstopped c'"
    and c_receive: "cinv c \<Longrightarrow> \<not> cstopped c \<Longrightarrow> cstep c (ContactsReceive i) = Some (r, c') \<Longrightarrow>
      r = (i < csize c \<and> conline c i) \<and> csize c' = csize c \<and> ccurrent c' = ccurrent c \<and> \<not> cstopped c'"
    and c_activate: "cinv c \<Longrightarrow> \<not> cstopped c \<Longrightarrow> cstep c (ContactsActivate i) = Some (r, c') \<Longrightarrow>
      r = (i < csize c) \<and> csize c' = csize c \<and> ccurrent c' = ccurrent c \<and> \<not> cstopped c'"
    and c_deactivate: "cinv c \<Longrightarrow> \<not> cstopped c \<Longrightarrow> cstep c (ContactsDeactivate i) = Some (r, c') \<Longrightarrow>
      r = (i < csize c) \<and> csize c' = csize c \<and> ccurrent c' = ccurrent c \<and> \<not> cstopped c'"
    and c_select: "cinv c \<Longrightarrow> \<not> cstopped c \<Longrightarrow> cstep c (ContactsSelect i) = Some (r, c') \<Longrightarrow>
      r = (i < csize c) \<and> csize c' = csize c \<and> \<not> cstopped c' \<and>
      ccurrent c' = (if r then Some i else ccurrent c)"
    and h_total: "hinv h \<Longrightarrow> \<exists>r h'. hstep h y = Some (r, h') \<and> hinv h'"
    and h_create: "hinv h \<Longrightarrow> \<not> hstopped h \<Longrightarrow> hstep h (ChatCreate i) = Some (r, h') \<Longrightarrow>
      i = hsize h \<Longrightarrow> r \<and> hsize h' = Suc (hsize h) \<and> hcurrent h' = hcurrent h \<and> \<not> hstopped h'"
    and h_send: "hinv h \<Longrightarrow> \<not> hstopped h \<Longrightarrow> hstep h (ChatSend i m t) = Some (r, h') \<Longrightarrow>
      (hcurrent h = Some i \<longrightarrow> r) \<and> hsize h' = hsize h \<and> hcurrent h' = hcurrent h \<and> \<not> hstopped h'"
    and h_receive: "hinv h \<Longrightarrow> \<not> hstopped h \<Longrightarrow> hstep h (ChatReceive i m t) = Some (r, h') \<Longrightarrow>
      r = (i < hsize h) \<and> hsize h' = hsize h \<and> hcurrent h' = hcurrent h \<and> \<not> hstopped h'"
    and h_select: "hinv h \<Longrightarrow> \<not> hstopped h \<Longrightarrow> hstep h (ChatSelect t i) = Some (r, h') \<Longrightarrow>
      r = (i < hsize h) \<and> hsize h' = hsize h \<and> \<not> hstopped h' \<and>
      hcurrent h' = (if r then Some i else hcurrent h)"
begin

definition sync :: "'c \<Rightarrow> 'h \<Rightarrow> bool" where
  "sync c h \<longleftrightarrow> cinv c \<and> hinv h \<and> \<not> cstopped c \<and> \<not> hstopped h \<and>
     hsize h = csize c \<and> hcurrent h = ccurrent c"

lemma c_keeps: "cinv c \<Longrightarrow> contacts_op_ok x \<Longrightarrow> cstep c x = Some (r, c') \<Longrightarrow> cinv c'"
  using c_total[of c x] by auto

lemma h_keeps: "hinv h \<Longrightarrow> hstep h y = Some (r, h') \<Longrightarrow> hinv h'"
  using h_total[of h y] by auto

lemma create_both:
  assumes "sync c h" "contacts_op_ok (ContactsCreate n k a)"
  shows "\<exists>c' h'. cstep c (ContactsCreate n k a) = Some (True, c') \<and>
    hstep h (ChatCreate (csize c)) = Some (True, h') \<and> sync c' h' \<and> csize c' = Suc (csize c)"
proof -
  obtain r c' where c: "cstep c (ContactsCreate n k a) = Some (r, c')" "cinv c'"
    using c_total[of c] assms unfolding sync_def by blast
  obtain r2 h' where h: "hstep h (ChatCreate (csize c)) = Some (r2, h')" "hinv h'"
    using h_total[of h] assms unfolding sync_def by blast
  show ?thesis
    using c h c_create[OF _ _ assms(2) c(1)] h_create[OF _ _ h(1)] assms(1) by (auto simp: sync_def)
qed

lemma select_both:
  assumes "sync c h" "i < csize c"
  shows "\<exists>c' h'. cstep c (ContactsSelect i) = Some (True, c') \<and>
    hstep h (ChatSelect t i) = Some (True, h') \<and> sync c' h' \<and> ccurrent c' = Some i \<and> csize c' = csize c"
proof -
  obtain r c' where c: "cstep c (ContactsSelect i) = Some (r, c')" "cinv c'"
    using c_total[of c "ContactsSelect i"] assms unfolding sync_def by auto
  obtain r2 h' where h: "hstep h (ChatSelect t i) = Some (r2, h')" "hinv h'"
    using h_total[of h] assms unfolding sync_def by blast
  show ?thesis
    using c h c_select[OF _ _ c(1)] h_select[OF _ _ h(1)] assms by (auto simp: sync_def)
qed

lemma send_both:
  assumes "sync c h" "ccurrent c = Some i"
  shows "\<exists>c' h'. cstep c (ContactsSend i) = Some (True, c') \<and>
    hstep h (ChatSend i m t) = Some (True, h') \<and> sync c' h' \<and> ccurrent c' = Some i \<and> csize c' = csize c"
proof -
  obtain r c' where c: "cstep c (ContactsSend i) = Some (r, c')" "cinv c'"
    using c_total[of c "ContactsSend i"] assms unfolding sync_def by auto
  obtain r2 h' where h: "hstep h (ChatSend i m t) = Some (r2, h')" "hinv h'"
    using h_total[of h] assms unfolding sync_def by blast
  show ?thesis
    using c h c_send[OF _ _ c(1)] h_send[OF _ _ h(1)] assms by (auto simp: sync_def)
qed

lemma receive_contact:
  assumes "sync c h"
  shows "\<exists>c'. cstep c (ContactsReceive i) = Some (i < csize c \<and> conline c i, c') \<and> sync c' h \<and>
    csize c' = csize c"
proof -
  obtain r c' where c: "cstep c (ContactsReceive i) = Some (r, c')" "cinv c'"
    using c_total[of c "ContactsReceive i"] assms unfolding sync_def by auto
  show ?thesis
    using c c_receive[OF _ _ c(1)] assms by (auto simp: sync_def)
qed

lemma receive_chat:
  assumes "sync c h" "i < csize c"
  shows "\<exists>h'. hstep h (ChatReceive i m t) = Some (True, h') \<and> sync c h'"
proof -
  obtain r h' where h: "hstep h (ChatReceive i m t) = Some (r, h')" "hinv h'"
    using h_total[of h] assms unfolding sync_def by blast
  show ?thesis
    using h h_receive[OF _ _ h(1)] assms by (auto simp: sync_def)
qed

lemma activate_contact:
  assumes "sync c h" "i < csize c" "x = ContactsActivate i \<or> x = ContactsDeactivate i"
  shows "\<exists>c'. cstep c x = Some (True, c') \<and> sync c' h \<and> csize c' = csize c"
proof -
  obtain r c' where c: "cstep c x = Some (r, c')" "cinv c'"
    using c_total[of c x] assms unfolding sync_def by auto
  show ?thesis
    using c c_activate[of c i r c'] c_deactivate[of c i r c'] assms by (auto simp: sync_def)
qed

end

subsection \<open>The contract holds for the two handlers\<close>

definition contacts_online :: "contacts_handler \<Rightarrow> nat \<Rightarrow> bool" where
  "contacts_online h i = isActive (state (mContacts h ! i))"

definition chat_length :: "chat_handler \<Rightarrow> nat" where
  "chat_length h = length (mMessages h)"

lemma book_of_simps [simp]:
  "book_stopped (book_of h) = ch_stopped h"
  "book_current (book_of h) = mCurrentContact h"
  "length (book_flags (book_of h)) = length (mContacts h)"
  "i < length (mContacts h) \<Longrightarrow> book_flags (book_of h) ! i = flags_of (state (mContacts h ! i))"
  by (simp_all add: book_of_def)

text \<open>Reading the effect of an operation off the contact book.\<close>

lemma contacts_step_book:
  assumes "contacts_inv h" "contacts_op_ok x" "contacts_step h x = Some (r, h')"
  shows "r = fst (book_step (book_of h) x)"
    and "ch_stopped h' = book_stopped (snd (book_step (book_of h) x))"
    and "mCurrentContact h' = book_current (snd (book_step (book_of h) x))"
    and "length (mContacts h') = length (book_flags (snd (book_step (book_of h) x)))"
proof -
  have b: "book_step (book_of h) x = (r, book_of h')"
    by (rule contacts_step_refines[OF assms])
  show "r = fst (book_step (book_of h) x)"
    "ch_stopped h' = book_stopped (snd (book_step (book_of h) x))"
    "mCurrentContact h' = book_current (snd (book_step (book_of h) x))"
    "length (mContacts h') = length (book_flags (snd (book_step (book_of h) x)))"
    unfolding b by simp_all
qed

lemma current_selected:
  assumes "contacts_inv h" "\<not> ch_stopped h" "mCurrentContact h = Some i"
  shows "i < length (mContacts h)" "selected (flags_of (state (mContacts h ! i)))"
proof -
  have "selection_ok h"
    using assms(1) by (simp add: contacts_inv_def)
  from selection_okD(2,3)[OF this assms(3)] assms(2)
  show "i < length (mContacts h)" "selected (flags_of (state (mContacts h ! i)))"
    by (simp_all add: flags_of_predicates)
qed

lemma others_unselected:
  assumes "contacts_inv h" "i < length (mContacts h)" "mCurrentContact h \<noteq> Some i"
  shows "\<not> selected (flags_of (state (mContacts h ! i)))"
proof -
  have "selection_ok h"
    using assms(1) by (simp add: contacts_inv_def)
  from selection_okD(1)[OF this assms(2)] assms(3) show ?thesis
    by (auto simp: flags_of_predicates)
qed

lemma book_update_simps [simp]:
  "book_stopped (snd (book_update i f b)) = book_stopped b"
  "book_current (snd (book_update i f b)) = book_current b"
  "length (book_flags (snd (book_update i f b))) = length (book_flags b)"
  "\<not> book_stopped b \<Longrightarrow> fst (book_update i f b)"
  by (simp_all add: book_update_def)

lemma select_book:
  fixes i :: nat
  assumes "contacts_inv h" "\<not> ch_stopped h"
  defines "b \<equiv> snd (book_step (book_of h) (ContactsSelect i))"
  shows "fst (book_step (book_of h) (ContactsSelect i)) = (i < length (mContacts h))"
    "\<not> book_stopped b" "length (book_flags b) = length (mContacts h)"
    "book_current b = (if i < length (mContacts h) then Some i else mCurrentContact h)"
proof -
  have *: "fst (book_step (book_of h) (ContactsSelect i)) = (i < length (mContacts h)) \<and>
    \<not> book_stopped b \<and> length (book_flags b) = length (mContacts h) \<and>
    book_current b = (if i < length (mContacts h) then Some i else mCurrentContact h)"
  proof (cases "i < length (mContacts h)")
    case False
    then show ?thesis
      using assms(2) by (simp add: b_def)
  next
    case i: True
    show ?thesis
    proof (cases "mCurrentContact h")
      case None
      then have "\<not> selected (flags_of (state (mContacts h ! i)))"
        using others_unselected[OF assms(1) i] by simp
      with None i assms(2) show ?thesis
        by (simp add: b_def book_select_def Let_def)
    next
      case (Some p)
      note p = current_selected[OF assms(1,2) Some]
      have "\<not> selected (book_flags (snd (book_update p ((book_flags (book_of h) ! p)\<lparr>selected := False\<rparr>)
          (book_of h))) ! i)"
        using i p others_unselected[OF assms(1) i] Some
        by (cases "i = p") (auto simp: book_update_def)
      with Some i p assms(2) show ?thesis
        by (simp add: b_def book_select_def Let_def split_beta)
    qed
  qed
  then show "fst (book_step (book_of h) (ContactsSelect i)) = (i < length (mContacts h))"
    "\<not> book_stopped b" "length (book_flags b) = length (mContacts h)"
    "book_current b = (if i < length (mContacts h) then Some i else mCurrentContact h)"
    by blast+
qed

lemma chat_select_lengths:
  "chat_select t i h = Some (r, h') \<Longrightarrow> \<not> th_stopped h \<Longrightarrow>
   r = (i < length (mMessages h)) \<and> length (mMessages h') = length (mMessages h) \<and>
   \<not> th_stopped h' \<and> mCurrentId h' = (if r then Some i else mCurrentId h)"
  by (auto simp: chat_select_eq split: if_splits)

interpretation pair: stores contacts_step contacts_inv contacts_size mCurrentContact ch_stopped
    contacts_online chat_step chat_inv chat_length mCurrentId th_stopped
proof unfold_locales
  fix c x assume "contacts_inv c" "contacts_op_ok x"
  then show "\<exists>r c'. contacts_step c x = Some (r, c') \<and> contacts_inv c'"
    by (rule contacts_step_total)
next
  fix c n k a r c'
  assume "contacts_inv c" "\<not> ch_stopped c" "contacts_op_ok (ContactsCreate n k a)"
    "contacts_step c (ContactsCreate n k a) = Some (r, c')"
  with contacts_step_book[of c "ContactsCreate n k a" r c'] show
    "r \<and> contacts_size c' = Suc (contacts_size c) \<and> mCurrentContact c' = mCurrentContact c \<and> \<not> ch_stopped c'"
    by (simp add: contacts_size_def)
next
  fix c i r c'
  assume a: "contacts_inv c" "\<not> ch_stopped c" "contacts_step c (ContactsSend i) = Some (r, c')"
  with contacts_step_book[of c "ContactsSend i" r c'] current_selected[OF a(1,2), of i] show
    "(mCurrentContact c = Some i \<longrightarrow> r) \<and> contacts_size c' = contacts_size c \<and>
     mCurrentContact c' = mCurrentContact c \<and> \<not> ch_stopped c'"
    by (auto simp: contacts_size_def Let_def split: if_splits)
next
  fix c i r c'
  assume "contacts_inv c" "\<not> ch_stopped c" "contacts_step c (ContactsReceive i) = Some (r, c')"
  with contacts_step_book[of c "ContactsReceive i" r c'] show
    "r = (i < contacts_size c \<and> contacts_online c i) \<and> contacts_size c' = contacts_size c \<and>
     mCurrentContact c' = mCurrentContact c \<and> \<not> ch_stopped c'"
    by (auto simp: contacts_size_def contacts_online_def flags_of_predicates Let_def split: if_splits)
next
  fix c i r c'
  assume "contacts_inv c" "\<not> ch_stopped c" "contacts_step c (ContactsActivate i) = Some (r, c')"
  with contacts_step_book[of c "ContactsActivate i" r c'] show
    "r = (i < contacts_size c) \<and> contacts_size c' = contacts_size c \<and>
     mCurrentContact c' = mCurrentContact c \<and> \<not> ch_stopped c'"
    by (auto simp: contacts_size_def split: if_splits)
next
  fix c i r c'
  assume "contacts_inv c" "\<not> ch_stopped c" "contacts_step c (ContactsDeactivate i) = Some (r, c')"
  with contacts_step_book[of c "ContactsDeactivate i" r c'] show
    "r = (i < contacts_size c) \<and> contacts_size c' = contacts_size c \<and>
     mCurrentContact c' = mCurrentContact c \<and> \<not> ch_stopped c'"
    by (auto simp: contacts_size_def split: if_splits)
next
  fix c i r c'
  assume a: "contacts_inv c" "\<not> ch_stopped c" "contacts_step c (ContactsSelect i) = Some (r, c')"
  then show "r = (i < contacts_size c) \<and> contacts_size c' = contacts_size c \<and> \<not> ch_stopped c' \<and>
     mCurrentContact c' = (if r then Some i else mCurrentContact c)"
    using contacts_step_book[OF a(1) _ a(3)] select_book[OF a(1,2), of i]
    by (simp add: contacts_size_def del: book_step.simps)
next
  fix h y assume "chat_inv h"
  then show "\<exists>r h'. chat_step h y = Some (r, h') \<and> chat_inv h'"
    by (rule chat_step_inv)
next
  fix h i r h'
  assume "\<not> th_stopped h" "chat_step h (ChatCreate i) = Some (r, h')" "i = chat_length h"
  then show "r \<and> chat_length h' = Suc (chat_length h) \<and> mCurrentId h' = mCurrentId h \<and> \<not> th_stopped h'"
    by (auto simp: chat_create_def chat_length_def)
next
  fix h i m t r h'
  assume a: "chat_inv h" "\<not> th_stopped h" "chat_step h (ChatSend i m t) = Some (r, h')"
  then have "mCurrentId h = Some i \<Longrightarrow> i < length (mMessages h)"
    by (simp add: chat_inv_def)
  with a show "(mCurrentId h = Some i \<longrightarrow> r) \<and> chat_length h' = chat_length h \<and>
      mCurrentId h' = mCurrentId h \<and> \<not> th_stopped h'"
    by (auto simp: chat_send_eq chat_length_def Let_def split: if_splits)
next
  fix h i m t r h'
  assume "\<not> th_stopped h" "chat_step h (ChatReceive i m t) = Some (r, h')"
  then show "r = (i < chat_length h) \<and> chat_length h' = chat_length h \<and>
      mCurrentId h' = mCurrentId h \<and> \<not> th_stopped h'"
    by (auto simp: chat_receive_eq chat_length_def Let_def split: if_splits)
next
  fix h t i r h'
  assume "\<not> th_stopped h" "chat_step h (ChatSelect t i) = Some (r, h')"
  with chat_select_lengths[of t i h r h'] show "r = (i < chat_length h) \<and>
      chat_length h' = chat_length h \<and> \<not> th_stopped h' \<and>
      mCurrentId h' = (if r then Some i else mCurrentId h)"
    by (simp add: chat_length_def)
qed

end
