(* ===== verification/Node.thy ===== *)
theory Node
  imports Node_Stores
begin

text \<open>
  The state of the engine's process (\<open>engine/src\<close>): the two stores, what
  \<open>TTBroadcasterChat\<close> and \<open>TTBroadcasterDiscovery\<close> keep about neighbors, and the stop flags;
  \<open>TTUtilsTimer\<close>, and the requests the neighbors exchange.  The operations are in the
  theories that import this one.

  Every operation runs with the locks it needs, so it is one function on the node.  \<open>None\<close> is an
  abort: the failed assertion of \<open>setNickname\<close>, or \<open>value()\<close> of an empty optional outside any
  \<open>try\<close>.
\<close>

subsection \<open>\<open>TTUtilsTimer\<close>\<close>

text \<open>Milliseconds for the threshold, nanoseconds of the steady clock for the time stamp.\<close>

record timer =
  mThreshold :: int
  mTimestamp :: int

definition new_timer :: "int \<Rightarrow> int \<Rightarrow> timer" where
  "new_timer threshold now = \<lparr>mThreshold = threshold, mTimestamp = now\<rparr>"

text \<open>\<open>duration_cast\<close> truncates towards zero.  Despite its name this is the time that has passed.\<close>

definition timer_remaining :: "int \<Rightarrow> timer \<Rightarrow> int" where
  "timer_remaining now t =
     (let d = now - mTimestamp t in if 0 \<le> d then d div 1000000 else - ((- d) div 1000000))"

definition timer_expired :: "int \<Rightarrow> timer \<Rightarrow> bool" where
  "timer_expired now t \<longleftrightarrow> mThreshold t \<le> timer_remaining now t"

definition timer_expire :: "timer \<Rightarrow> timer" where
  "timer_expire t = t\<lparr>mTimestamp := 0\<rparr>"

definition timer_kick :: "int \<Rightarrow> timer \<Rightarrow> timer" where
  "timer_kick now t = t\<lparr>mTimestamp := now\<rparr>"

text \<open>
  A timer expires by itself once the threshold has passed, and when it is made to expire, once
  the clock is past the threshold.
\<close>

lemma timer_kick_expired:
  assumes "0 \<le> mThreshold t" "now \<le> now'"
  shows "timer_expired now' (timer_kick now t) \<longleftrightarrow> mThreshold t * 1000000 \<le> now' - now"
proof -
  have "mThreshold t \<le> (now' - now) div 1000000 \<longleftrightarrow> mThreshold t * 1000000 \<le> now' - now"
    by linarith
  with assms show ?thesis
    by (simp add: timer_expired_def timer_remaining_def timer_kick_def Let_def)
qed

subsection \<open>\<open>TTNeighborsMessage\<close>\<close>

datatype request =
    TellRequest string string            \<comment> \<open>identity, message\<close>
  | NarrateRequest string "string list"  \<comment> \<open>identity, messages\<close>
  | GreetRequest string string string    \<comment> \<open>nickname, identity, address and port\<close>
  | HeartbeatRequest string              \<comment> \<open>identity\<close>

record greet_response =
  gr_status :: bool
  gr_nickname :: string
  gr_identity :: string
  gr_ipAddressAndPort :: string

record heartbeat_response =
  hr_status :: bool
  hr_identity :: string

subsection \<open>The node\<close>

text \<open>
  A stub is only ever compared with null, so it is a \<open>bool\<close>.  \<open>mNeighbors\<close> and
  \<open>mDynamicNeighbors\<close> are ordered maps: lists sorted by key.
\<close>

record chat_neighbor =
  nb_stub :: bool
  nb_timer :: timer
  pendingMessages :: "string list"

record static_neighbor =
  sn_timer :: timer
  sn_trials :: nat
  sn_address :: string

record dynamic_neighbor =
  dn_timer :: timer
  dn_trials :: nat
  dn_stub :: bool

text \<open>
  \<open>nd_calls\<close> lists the remote calls made to contacts, with the contact called and whether the
  call succeeded, and \<open>nd_greets\<close> those made to static neighbors; no operation reads them.
\<close>

record node =
  nd_contacts :: contacts_handler
  nd_chat :: chat_handler
  nd_address :: string
  bc_stopped :: bool
  mNeighbors :: "(nat \<times> chat_neighbor) list"
  bd_stopped :: bool
  mStaticNeighbors :: "static_neighbor list"
  mDynamicNeighbors :: "(nat \<times> dynamic_neighbor) list"
  nd_calls :: "(nat \<times> request \<times> bool) list"
  nd_greets :: "(string \<times> request \<times> bool) list"

definition bc_stop :: "node \<Rightarrow> node" where
  "bc_stop n = n\<lparr>bc_stopped := True\<rparr>"

definition bd_stop :: "node \<Rightarrow> node" where
  "bd_stop n = n\<lparr>bd_stopped := True\<rparr>"

text \<open>Calls on the two stores.\<close>

definition on_contacts :: "contacts_op \<Rightarrow> node \<Rightarrow> (bool \<times> node) option" where
  "on_contacts x n = map_option (\<lambda>(r, c). (r, n\<lparr>nd_contacts := c\<rparr>)) (contacts_step (nd_contacts n) x)"

definition on_chat :: "chat_op \<Rightarrow> node \<Rightarrow> (bool \<times> node) option" where
  "on_chat x n = map_option (\<lambda>(r, h). (r, n\<lparr>nd_chat := h\<rparr>)) (chat_step (nd_chat n) x)"

text \<open>\<open>getIdentity\<close>, \<open>getNickname\<close> and \<open>getIpAddressAndPort\<close> of the broadcasters.\<close>

definition bc_getIdentity :: "node \<Rightarrow> string \<times> node" where
  "bc_getIdentity n =
     (case contacts_get 0 (nd_contacts n) of None \<Rightarrow> ('''', bc_stop n) | Some e \<Rightarrow> (identity e, n))"

definition bd_getIdentity :: "node \<Rightarrow> string \<times> node" where
  "bd_getIdentity n =
     (case contacts_get 0 (nd_contacts n) of None \<Rightarrow> ('''', bd_stop n) | Some e \<Rightarrow> (identity e, n))"

definition bd_getNickname :: "node \<Rightarrow> string \<times> node" where
  "bd_getNickname n =
     (case contacts_get 0 (nd_contacts n) of None \<Rightarrow> ('''', bd_stop n) | Some e \<Rightarrow> (nickname e, n))"

definition bd_getIpAddressAndPort :: "node \<Rightarrow> string \<times> node" where
  "bd_getIpAddressAndPort n =
     (case contacts_get 0 (nd_contacts n) of
        None \<Rightarrow> ('''', bd_stop n) | Some e \<Rightarrow> (ipAddressAndPort e, n))"

subsection \<open>Ordered maps\<close>

fun map_insert :: "nat \<Rightarrow> 'a \<Rightarrow> (nat \<times> 'a) list \<Rightarrow> (nat \<times> 'a) list" where
  "map_insert k v [] = [(k, v)]"
| "map_insert k v ((j, w) # xs) =
     (if k < j then (k, v) # (j, w) # xs
      else if k = j then (k, v) # xs else (j, w) # map_insert k v xs)"

definition keys :: "(nat \<times> 'a) list \<Rightarrow> nat set" where
  "keys xs = fst ` set xs"

lemma keys_simps [simp]:
  "keys [] = {}" "keys ((i, v) # xs) = insert i (keys xs)" "keys (xs @ ys) = keys xs \<union> keys ys"
  by (auto simp: keys_def)

lemma keys_map_fst: "map fst xs = map fst ys \<Longrightarrow> keys xs = keys ys"
  unfolding keys_def by (metis list.set_map)

text \<open>\<open>emplace\<close> leaves a key that is there alone.\<close>

definition map_emplace :: "nat \<Rightarrow> 'a \<Rightarrow> (nat \<times> 'a) list \<Rightarrow> (nat \<times> 'a) list" where
  "map_emplace k v xs = (case map_of xs k of None \<Rightarrow> map_insert k v xs | Some w \<Rightarrow> xs)"

abbreviation keys_sorted :: "(nat \<times> 'a) list \<Rightarrow> bool" where
  "keys_sorted xs \<equiv> sorted_wrt (<) (map fst xs)"

lemma keys_map_insert [simp]: "keys (map_insert k v xs) = insert k (keys xs)"
  by (induction k v xs rule: map_insert.induct) auto

lemma map_fst_insert: "set (map fst (map_insert k v xs)) = insert k (set (map fst xs))"
  using keys_map_insert[of k v xs] by (simp add: keys_def)

lemma keys_sorted_insert: "keys_sorted xs \<Longrightarrow> keys_sorted (map_insert k v xs)"
proof (induction k v xs rule: map_insert.induct)
  case (2 k v j w xs)
  then show ?case
    using map_fst_insert[of k v xs] by auto
qed simp

lemma keys_map_of: "map_of xs k = Some v \<Longrightarrow> k \<in> keys xs"
  unfolding keys_def by (force dest: map_of_SomeD)

lemma keys_map_emplace [simp]: "keys (map_emplace k v xs) = insert k (keys xs)"
  using keys_map_of[of xs k] by (auto simp: map_emplace_def split: option.split)

lemma keys_sorted_emplace: "keys_sorted xs \<Longrightarrow> keys_sorted (map_emplace k v xs)"
  by (simp add: map_emplace_def keys_sorted_insert split: option.split)

lemma map_of_insert: "keys_sorted xs \<Longrightarrow> map_of (map_insert k v xs) = (map_of xs)(k \<mapsto> v)"
proof (induction k v xs rule: map_insert.induct)
  case (2 k v j w xs)
  then show ?case
    by (auto simp: fun_eq_iff)
qed simp

subsection \<open>Who the contacts are\<close>

text \<open>Names, identities and addresses; only a creation changes them, at the end.\<close>

definition card_of :: "handler_entry \<Rightarrow> string \<times> string \<times> string" where
  "card_of e = (nickname e, identity e, ipAddressAndPort e)"

definition cards :: "contacts_handler \<Rightarrow> (string \<times> string \<times> string) list" where
  "cards h = map card_of (mContacts h)"

lemma length_cards [simp]: "length (cards h) = length (mContacts h)"
  by (simp add: cards_def)

lemma nth_cards: "i < length (mContacts h) \<Longrightarrow> cards h ! i = card_of (mContacts h ! i)"
  by (simp add: cards_def)

lemma cards_update:
  "card_of e = card_of (mContacts h ! i) \<Longrightarrow> map card_of ((mContacts h)[i := e]) = cards h"
  by (cases "i < length (mContacts h)") (simp_all add: cards_def map_update map_update[symmetric])

lemma cards_queue [simp]: "cards (snd (contacts_queue m h)) = cards h"
  by (simp add: cards_def)

lemma contacts_notify_frame:
  "contacts_notify i h = Some (r, h') \<Longrightarrow>
   mContacts h' = mContacts h \<and> mIdentityMap h' = mIdentityMap h"
  by (auto simp: contacts_notify_def contacts_queue_def bind_eq_Some_conv split: if_splits)

lemma cards_set_state [simp]: "cards (set_state i s h) = cards h"
  by (simp add: cards_def set_state_def cards_update[unfolded cards_def] card_of_def)

lemma set_state_frame [simp]:
  "mIdentityMap (set_state i s h) = mIdentityMap h"
  "length (mContacts (set_state i s h)) = length (mContacts h)"
  by (simp_all add: set_state_def)

lemma cards_notify:
  "contacts_notify i h = Some (r, h') \<Longrightarrow> cards h' = cards h \<and> mIdentityMap h' = mIdentityMap h"
  using contacts_notify_frame by (simp add: cards_def)

primrec is_create :: "contacts_op \<Rightarrow> bool" where
  "is_create (ContactsCreate n k a) = True"
| "is_create (ContactsSend i) = False"
| "is_create (ContactsReceive i) = False"
| "is_create (ContactsActivate i) = False"
| "is_create (ContactsDeactivate i) = False"
| "is_create (ContactsSelect i) = False"
| "is_create ContactsStop = False"

lemma cards_counted:
  "cards (h\<lparr>mContacts := (mContacts h)[i := (mContacts h ! i)\<lparr>sentMessages := v\<rparr>]\<rparr>) = cards h"
  "cards (h\<lparr>mContacts := (mContacts h)[i := (mContacts h ! i)\<lparr>receivedMessages := v\<rparr>]\<rparr>) = cards h"
  by (simp_all add: cards_def cards_update[unfolded cards_def] card_of_def)

lemma cards_unselect:
  "contacts_unselect h = Some (r, h') \<Longrightarrow> cards h' = cards h \<and> mIdentityMap h' = mIdentityMap h"
  by (auto simp: contacts_unselect_def Let_def cards_def[of "_\<lparr>mPreviousContact := _\<rparr>"]
      cards_def[symmetric] dest!: cards_notify split: option.splits if_splits)

lemma cards_select:
  assumes "contacts_select i h = Some (r, h')"
  shows "cards h' = cards h \<and> mIdentityMap h' = mIdentityMap h"
proof -
  have frame: "cards (h\<lparr>mCurrentContact := c\<rparr>) = cards h" for h c
    by (simp add: cards_def)
  from assms show ?thesis
    by (auto simp: contacts_select_def Let_def frame bind_eq_Some_conv
        dest!: cards_unselect cards_notify split: option.splits if_splits)
qed

lemma contacts_step_cards:
  assumes "contacts_step h x = Some (r, h')" "\<not> is_create x"
  shows "cards h' = cards h \<and> mIdentityMap h' = mIdentityMap h"
proof (cases x)
  case (ContactsSend i)
  with assms(1) show ?thesis
    by (auto simp: contacts_send_def Let_def cards_counted dest!: cards_notify
        split: option.splits if_splits)
next
  case (ContactsReceive i)
  with assms(1) show ?thesis
    by (auto simp: contacts_receive_def Let_def cards_counted dest!: cards_notify
        split: option.splits if_splits)
next
  case (ContactsActivate i)
  with assms(1) show ?thesis
    by (auto simp: contacts_activate_def Let_def dest!: cards_notify split: if_splits)
next
  case (ContactsDeactivate i)
  with assms(1) show ?thesis
    by (auto simp: contacts_deactivate_def Let_def dest!: cards_notify split: if_splits)
next
  case (ContactsSelect i)
  with assms(1) show ?thesis
    by (simp add: cards_select)
next
  case ContactsStop
  with assms(1) show ?thesis
    by (auto simp: contacts_stop_def cards_def)
qed (use assms(2) in simp)

lemma contacts_step_create:
  assumes "contacts_step h (ContactsCreate n k a) = Some (r, h')"
  shows "cards h' = cards h @ [(n, k, a)]"
    "mIdentityMap h' = (mIdentityMap h)(k \<mapsto> length (mContacts h))"
proof -
  have "length n < TTCONTACTS_DATA_MAX_LENGTH"
    using assms by (auto simp: contacts_create_def setNickname_def split: if_splits)
  from contacts_create_eq[OF this, of k a h] assms
  have h': "h' = snd (contacts_queue (state_message (length (mContacts h)) (new_handler_entry n k a))
      (h\<lparr>mContacts := mContacts h @ [new_handler_entry n k a],
         mIdentityMap := (mIdentityMap h)(k \<mapsto> length (mContacts h))\<rparr>))"
    by simp
  show "cards h' = cards h @ [(n, k, a)]"
    unfolding h' by (simp add: cards_def card_of_def)
  show "mIdentityMap h' = (mIdentityMap h)(k \<mapsto> length (mContacts h))"
    unfolding h' by simp
qed

end
