(* ===== verification/Broadcaster_Chat.thy ===== *)
theory Broadcaster_Chat
  imports Node
begin

text \<open>
  \<open>TTBroadcasterChat\<close> (engine/src/TTBroadcasterChat.cpp): what happens to a message the user
  sends and to the messages neighbors send, and one turn of the loop of \<open>run\<close>, which tells
  neighbors what is pending for them.  Parameters stand for what the code cannot decide: the
  clocks, the threshold a timer factory draws, whether a stub could be created and whether a
  remote call succeeded.

  The lemmas give the effect of each operation on the node's invariant; the ledger is the part of it
  that says no message is lost: what was sent to a contact is what was delivered to it, in
  order, followed by what is pending.
\<close>

subsection \<open>Operations\<close>

definition bc_fail :: "node \<Rightarrow> (bool \<times> node) option" where
  "bc_fail n = Some (False, bc_stop n)"

text \<open>\<open>lower_bound\<close> and the insertion it leads to, into an ordered map.\<close>

definition push_pending ::
  "nat \<Rightarrow> chat_neighbor \<Rightarrow> string \<Rightarrow> (nat \<times> chat_neighbor) list \<Rightarrow> (nat \<times> chat_neighbor) list" where
  "push_pending i fresh message xs =
     (case map_of xs i of
        Some nb \<Rightarrow> map_insert i (nb\<lparr>pendingMessages := pendingMessages nb @ [message]\<rparr>) xs
      | None \<Rightarrow> map_insert i (fresh\<lparr>pendingMessages := [message]\<rparr>) xs)"

definition fresh_neighbor :: "bool \<Rightarrow> int \<Rightarrow> int \<Rightarrow> chat_neighbor" where
  "fresh_neighbor stub threshold steady =
     \<lparr>nb_stub = stub, nb_timer = timer_expire (new_timer threshold steady), pendingMessages = []\<rparr>"

definition bc_handleSend ::
  "timestamp \<Rightarrow> chat_neighbor \<Rightarrow> string \<Rightarrow> node \<Rightarrow> (bool \<times> node) option" where
  "bc_handleSend now fresh message n =
     (case contacts_current (nd_contacts n) of
        None \<Rightarrow> bc_fail n
      | Some contactsCurrentId \<Rightarrow>
          (case chat_current (nd_chat n) of
             None \<Rightarrow> bc_fail n
           | Some chatCurrentId \<Rightarrow>
               if chatCurrentId \<noteq> contactsCurrentId then bc_fail n
               else do {
                 (sent, n1) \<leftarrow> on_contacts (ContactsSend contactsCurrentId) n;
                 if \<not> sent then bc_fail n1
                 else do {
                   (stored, n2) \<leftarrow> on_chat (ChatSend chatCurrentId message now) n1;
                   if \<not> stored then bc_fail n2
                   else case contacts_get contactsCurrentId (nd_contacts n2) of
                     None \<Rightarrow> bc_fail n2
                   | Some e \<Rightarrow>
                       if ipAddressAndPort e = nd_address n2 then Some (True, n2)
                       else Some (True, n2\<lparr>mNeighbors :=
                         push_pending contactsCurrentId fresh message (mNeighbors n2)\<rparr>)
                 }
               }))"

text \<open>The common start of both \<open>handleReceive\<close>: who is it, and is it the host itself?\<close>

definition bc_sender :: "string \<Rightarrow> node \<Rightarrow> (bool \<times> node) + nat" where
  "bc_sender ident n =
     (case contacts_find ident (nd_contacts n) of
        None \<Rightarrow> Inl (False, n)
      | Some i \<Rightarrow>
          (case contacts_get i (nd_contacts n) of
             None \<Rightarrow> Inl (False, bc_stop n)
           | Some e \<Rightarrow>
               if ipAddressAndPort e = nd_address n then Inl (True, n) else Inr i))"

definition bc_handleTell ::
  "timestamp \<Rightarrow> string \<Rightarrow> string \<Rightarrow> node \<Rightarrow> (bool \<times> node) option" where
  "bc_handleTell now ident message n =
     (case bc_sender ident n of
        Inl answer \<Rightarrow> Some answer
      | Inr i \<Rightarrow> do {
          (noted, n1) \<leftarrow> on_contacts (ContactsReceive i) n;
          if \<not> noted then bc_fail n1
          else do {
            (stored, n2) \<leftarrow> on_chat (ChatReceive i message now) n1;
            if \<not> stored then bc_fail n2 else Some (True, n2)
          }
        })"

fun bc_receive_all ::
  "(nat \<Rightarrow> timestamp) \<Rightarrow> nat \<Rightarrow> nat \<Rightarrow> string list \<Rightarrow> node \<Rightarrow> (bool \<times> node) option" where
  "bc_receive_all clock k i [] n = Some (True, n)"
| "bc_receive_all clock k i (m # ms) n = do {
     (stored, n1) \<leftarrow> on_chat (ChatReceive i m (clock k)) n;
     if \<not> stored then bc_fail n1 else bc_receive_all clock (Suc k) i ms n1
   }"

definition bc_handleNarrate ::
  "(nat \<Rightarrow> timestamp) \<Rightarrow> string \<Rightarrow> string list \<Rightarrow> node \<Rightarrow> (bool \<times> node) option" where
  "bc_handleNarrate clock ident messages n =
     (case bc_sender ident n of
        Inl answer \<Rightarrow> Some answer
      | Inr i \<Rightarrow> do {
          (noted, n1) \<leftarrow> on_contacts (ContactsReceive i) n;
          if \<not> noted then bc_fail n1 else bc_receive_all clock 0 i messages n1
        })"

text \<open>
  What one turn of \<open>run\<close> meets at a neighbor: the steady clock when the timer is asked and when it is
  kicked, whether a stub can be created, whether the remote call succeeds.
\<close>

type_synonym chat_env = "nat \<Rightarrow> int \<times> int \<times> bool \<times> bool"

definition bc_call :: "nat \<Rightarrow> request \<Rightarrow> bool \<Rightarrow> node \<Rightarrow> node" where
  "bc_call i rq ok n = n\<lparr>nd_calls := nd_calls n @ [(i, rq, ok)]\<rparr>"

definition bc_neighbor ::
  "int \<times> int \<times> bool \<times> bool \<Rightarrow> nat \<Rightarrow> chat_neighbor \<Rightarrow> node \<Rightarrow> (chat_neighbor \<times> node) option" where
  "bc_neighbor env i nb n =
     (let (steady, kick, stub_ok, call_ok) = env in
      if \<not> timer_expired steady (nb_timer nb) then Some (nb, n)
      else let nb1 = nb\<lparr>nb_timer := timer_kick kick (nb_timer nb)\<rparr> in
        case contacts_get i (nd_contacts n) of
          None \<Rightarrow> None
        | Some e \<Rightarrow>
            if isInactive (state e) then Some (nb1, n)
            else let nb2 = nb1\<lparr>nb_stub := nb_stub nb1 \<or> stub_ok\<rparr> in
              if \<not> nb_stub nb2 then Some (nb2, n)
              else if length (pendingMessages nb2) > 1 then
                let (ident, n1) = bc_getIdentity n;
                    n2 = bc_call i (NarrateRequest ident (pendingMessages nb2)) call_ok n1
                in Some (if call_ok then nb2\<lparr>pendingMessages := []\<rparr> else nb2, n2)
              else if pendingMessages nb2 \<noteq> [] then
                let (ident, n1) = bc_getIdentity n;
                    n2 = bc_call i (TellRequest ident (last (pendingMessages nb2))) call_ok n1
                in Some (if call_ok then nb2\<lparr>pendingMessages := []\<rparr> else nb2, n2)
              else Some (nb2, n))"

fun bc_neighbors ::
  "chat_env \<Rightarrow> (nat \<times> chat_neighbor) list \<Rightarrow> node \<Rightarrow>
   ((nat \<times> chat_neighbor) list \<times> node) option" where
  "bc_neighbors env [] n = Some ([], n)"
| "bc_neighbors env ((i, nb) # xs) n =
     (if bc_stopped n then Some ((i, nb) # xs, n)
      else do {
        (nb', n1) \<leftarrow> bc_neighbor (env i) i nb n;
        (xs', n2) \<leftarrow> bc_neighbors env xs n1;
        Some ((i, nb') # xs', n2)
      })"

definition bc_run_turn :: "chat_env \<Rightarrow> node \<Rightarrow> (bool \<times> node) option" where
  "bc_run_turn env n =
     (if bc_stopped n then Some (False, n)
      else do {
        (xs, n1) \<leftarrow> bc_neighbors env (mNeighbors n) n;
        Some (True, n1\<lparr>mNeighbors := xs\<rparr>)
      })"

subsection \<open>The invariant of a node\<close>

definition address_of :: "node \<Rightarrow> nat \<Rightarrow> string" where
  "address_of n i = snd (snd (cards (nd_contacts n) ! i))"

definition node_size :: "node \<Rightarrow> nat" where
  "node_size n = contacts_size (nd_contacts n)"

text \<open>The texts the user sent in each conversation.\<close>

definition own_talks :: "chat_handler \<Rightarrow> string list list" where
  "own_talks h = map (\<lambda>es. map te_data (filter (\<lambda>e. te_type e = SENDER) es)) (mMessages h)"

primrec request_texts :: "request \<Rightarrow> string list" where
  "request_texts (TellRequest k m) = [m]"
| "request_texts (NarrateRequest k ms) = ms"
| "request_texts (GreetRequest n k a) = []"
| "request_texts (HeartbeatRequest k) = []"

definition delivered :: "nat \<Rightarrow> (nat \<times> request \<times> bool) list \<Rightarrow> string list" where
  "delivered i calls =
     concat (map (\<lambda>(j, rq, ok). if j = i \<and> ok then request_texts rq else []) calls)"

definition pending_for :: "nat \<Rightarrow> (nat \<times> chat_neighbor) list \<Rightarrow> string list" where
  "pending_for i xs = (case map_of xs i of None \<Rightarrow> [] | Some nb \<Rightarrow> pendingMessages nb)"

text \<open>The ledger of contact \<open>i\<close>.\<close>

definition ledger :: "node \<Rightarrow> nat \<Rightarrow> bool" where
  "ledger n i \<longleftrightarrow> own_talks (nd_chat n) ! i = delivered i (nd_calls n) @ pending_for i (mNeighbors n)"

definition node_inv :: "node \<Rightarrow> bool" where
  "node_inv n \<longleftrightarrow> pair.sync (nd_contacts n) (nd_chat n) \<and>
     mCurrentContact (nd_contacts n) \<noteq> None \<and>
     keys_sorted (mNeighbors n) \<and> (\<forall>i \<in> keys (mNeighbors n). i < node_size n) \<and>
     keys_sorted (mDynamicNeighbors n) \<and> (\<forall>i \<in> keys (mDynamicNeighbors n). i < node_size n) \<and>
     (\<forall>i \<in> keys (nd_calls n). i < node_size n) \<and>
     (\<forall>i < node_size n. address_of n i \<noteq> nd_address n \<longrightarrow> ledger n i)"

lemma node_invD:
  assumes "node_inv n"
  shows "pair.sync (nd_contacts n) (nd_chat n)" "mCurrentContact (nd_contacts n) \<noteq> None"
    "keys_sorted (mNeighbors n)" "\<And>i. i \<in> keys (mNeighbors n) \<Longrightarrow> i < node_size n"
    "keys_sorted (mDynamicNeighbors n)" "\<And>i. i \<in> keys (mDynamicNeighbors n) \<Longrightarrow> i < node_size n"
    "\<And>i. i \<in> keys (nd_calls n) \<Longrightarrow> i < node_size n"
    "\<And>i. i < node_size n \<Longrightarrow> address_of n i \<noteq> nd_address n \<Longrightarrow> ledger n i"
  using assms unfolding node_inv_def by blast+

lemma sync_contacts_inv: "pair.sync c h \<Longrightarrow> contacts_inv c \<and> chat_inv h \<and> \<not> ch_stopped c \<and> \<not> th_stopped h"
  by (simp add: pair.sync_def)

lemma sync_current: "pair.sync c h \<Longrightarrow> mCurrentContact c = Some i \<Longrightarrow> i < contacts_size c"
  using current_selected(1)[of c i] by (simp add: pair.sync_def contacts_size_def)

lemma sync_length: "pair.sync c h \<Longrightarrow> length (mMessages h) = length (mContacts c)"
  by (simp add: pair.sync_def contacts_size_def chat_length_def)

subsection \<open>What the stores' operations do to texts\<close>

lemma own_talks_send:
  assumes "chat_step h (ChatSend i m t) = Some (True, h')"
  shows "own_talks h' = (own_talks h)[i := own_talks h ! i @ [m]]" "i < length (mMessages h)"
  using assms by (auto simp: own_talks_def chat_send_eq Let_def map_update split: if_splits)

lemma own_talks_same:
  assumes "chat_step h x = Some (r, h')" "\<And>i m t. x \<noteq> ChatSend i m t" "\<And>i. x \<noteq> ChatCreate i"
  shows "own_talks h' = own_talks h"
proof (cases x)
  case (ChatReceive i m t)
  have "own_talks (h\<lparr>mMessages := (mMessages h)[i := mMessages h ! i @
      [\<lparr>te_type = RECEIVER, te_timestamp = t, te_data = m\<rparr>]]\<rparr>) = own_talks h"
    (is "own_talks ?h = _")
  proof (rule nth_equalityI)
    fix j assume "j < length (own_talks ?h)"
    then show "own_talks ?h ! j = own_talks h ! j"
      by (cases "j = i") (simp_all add: own_talks_def)
  qed (simp add: own_talks_def)
  with ChatReceive assms(1) show ?thesis
    by (auto simp: own_talks_def chat_receive_eq Let_def split: if_splits)
next
  case (ChatSelect t i)
  with assms(1) show ?thesis
    by (auto simp: own_talks_def chat_select_eq split: if_splits)
next
  case (ChatHeartbeat t)
  with assms(1) show ?thesis
    by (auto simp: own_talks_def chat_queue_data_eq split: if_splits)
next
  case ChatStop
  with assms(1) show ?thesis
    by (auto simp: own_talks_def chat_stop_def)
qed (use assms(2,3) in auto)

lemma own_talks_create:
  "chat_step h (ChatCreate i) = Some (True, h') \<Longrightarrow> own_talks h' = own_talks h @ [[]]"
  by (auto simp: own_talks_def chat_create_def split: if_splits)

lemma length_own_talks [simp]: "length (own_talks h) = length (mMessages h)"
  by (simp add: own_talks_def)

subsection \<open>Frames\<close>

lemma on_contacts_Some:
  "on_contacts x n = Some (r, n') \<longleftrightarrow>
   (\<exists>c. contacts_step (nd_contacts n) x = Some (r, c) \<and> n' = n\<lparr>nd_contacts := c\<rparr>)"
  by (auto simp: on_contacts_def)

lemma on_chat_Some:
  "on_chat x n = Some (r, n') \<longleftrightarrow>
   (\<exists>h. chat_step (nd_chat n) x = Some (r, h) \<and> n' = n\<lparr>nd_chat := h\<rparr>)"
  by (auto simp: on_chat_def)

lemma node_frame [simp]:
  "address_of (n\<lparr>nd_chat := h\<rparr>) = address_of n"
  "address_of (n\<lparr>mNeighbors := xs\<rparr>) = address_of n"
  "address_of (n\<lparr>nd_calls := cs\<rparr>) = address_of n"
  "address_of (n\<lparr>mDynamicNeighbors := ds\<rparr>) = address_of n"
  "address_of (n\<lparr>mStaticNeighbors := ss\<rparr>) = address_of n"
  "address_of (n\<lparr>nd_greets := gs\<rparr>) = address_of n"
  "node_size (n\<lparr>nd_greets := gs\<rparr>) = node_size n"
  "address_of (bc_stop n) = address_of n"
  "address_of (bd_stop n) = address_of n"
  "node_size (n\<lparr>nd_chat := h\<rparr>) = node_size n"
  "node_size (n\<lparr>mNeighbors := xs\<rparr>) = node_size n"
  "node_size (n\<lparr>nd_calls := cs\<rparr>) = node_size n"
  "node_size (n\<lparr>mDynamicNeighbors := ds\<rparr>) = node_size n"
  "node_size (n\<lparr>mStaticNeighbors := ss\<rparr>) = node_size n"
  "node_size (bc_stop n) = node_size n"
  "node_size (bd_stop n) = node_size n"
  by (simp_all add: address_of_def node_size_def fun_eq_iff bc_stop_def bd_stop_def)

lemma ledger_frame [simp]:
  "ledger (n\<lparr>nd_contacts := c\<rparr>) i = ledger n i"
  "ledger (n\<lparr>mDynamicNeighbors := ds\<rparr>) i = ledger n i"
  "ledger (n\<lparr>mStaticNeighbors := ss\<rparr>) i = ledger n i"
  "ledger (n\<lparr>nd_greets := gs\<rparr>) i = ledger n i"
  "ledger (bc_stop n) i = ledger n i"
  "ledger (bd_stop n) i = ledger n i"
  by (simp_all add: ledger_def bc_stop_def bd_stop_def)

lemma node_inv_stops [simp]: "node_inv (bc_stop n) = node_inv n" "node_inv (bd_stop n) = node_inv n"
  by (simp_all add: node_inv_def) (simp_all add: bc_stop_def bd_stop_def)

lemma node_size_contacts: "node_size (n\<lparr>nd_contacts := c\<rparr>) = contacts_size c"
  by (simp add: node_size_def)

lemma address_of_contacts:
  "cards c = cards (nd_contacts n) \<Longrightarrow> address_of (n\<lparr>nd_contacts := c\<rparr>) = address_of n"
  by (simp add: address_of_def fun_eq_iff)

lemma address_of_get:
  "contacts_get i (nd_contacts n) = Some e \<Longrightarrow> address_of n i = ipAddressAndPort e \<and> i < node_size n"
  by (auto simp: contacts_get_def address_of_def node_size_def contacts_size_def nth_cards card_of_def
      split: if_splits)

lemma contacts_get_some: "i < node_size n \<Longrightarrow> \<exists>e. contacts_get i (nd_contacts n) = Some e"
  by (simp add: contacts_get_def node_size_def contacts_size_def)

text \<open>An operation on a contact that keeps the stores in step keeps the invariant.\<close>

lemma node_inv_contacts:
  assumes "node_inv n" "contacts_step (nd_contacts n) x = Some (r, c)" "\<not> is_create x"
    and "pair.sync c (nd_chat n)" "contacts_size c = node_size n" "mCurrentContact c \<noteq> None"
  shows "node_inv (n\<lparr>nd_contacts := c\<rparr>)"
proof -
  have "cards c = cards (nd_contacts n)"
    using contacts_step_cards[OF assms(2,3)] by simp
  note a = address_of_contacts[OF this]
  show ?thesis
    using assms(1,4-6) unfolding node_inv_def a node_size_contacts by simp
qed

lemma node_inv_chat:
  assumes "node_inv n" "pair.sync (nd_contacts n) h" "own_talks h = own_talks (nd_chat n)"
  shows "node_inv (n\<lparr>nd_chat := h\<rparr>)"
  using assms by (simp add: node_inv_def ledger_def)

subsection \<open>Pending messages\<close>

lemma pending_push:
  assumes "keys_sorted xs"
  shows "pending_for j (push_pending i fresh m xs) =
    (if j = i then pending_for i xs @ [m] else pending_for j xs)"
  using map_of_insert[OF assms] by (auto simp: push_pending_def pending_for_def split: option.split)

lemma keys_push:
  "keys (push_pending i fresh m xs) = insert i (keys xs)"
  "keys_sorted xs \<Longrightarrow> keys_sorted (push_pending i fresh m xs)"
  by (simp_all add: push_pending_def keys_sorted_insert split: option.split)

lemma delivered_append [simp]: "delivered i (cs @ ds) = delivered i cs @ delivered i ds"
  by (simp add: delivered_def)

lemma delivered_Nil [simp]: "delivered i [] = []"
  by (simp add: delivered_def)

lemma delivered_one [simp]:
  "delivered i [(j, rq, ok)] = (if j = i \<and> ok then request_texts rq else [])"
  by (simp add: delivered_def)

lemma delivered_none: "i \<notin> keys cs \<Longrightarrow> delivered i cs = []"
  by (force simp: delivered_def keys_def)

subsection \<open>Sending\<close>

text \<open>What an operation of the chat broadcaster leaves alone.\<close>

definition bc_frame :: "node \<Rightarrow> node \<Rightarrow> bool" where
  "bc_frame n n' \<longleftrightarrow> node_inv n' \<and> node_size n' = node_size n \<and> nd_address n' = nd_address n \<and>
     bd_stopped n' = bd_stopped n \<and> mStaticNeighbors n' = mStaticNeighbors n \<and>
     mDynamicNeighbors n' = mDynamicNeighbors n"

lemma node_inv_send:
  fixes fresh :: chat_neighbor
  assumes inv: "node_inv n" and cur: "mCurrentContact (nd_contacts n) = Some i"
    and c: "contacts_step (nd_contacts n) (ContactsSend i) = Some (True, c)"
    and h: "chat_step (nd_chat n) (ChatSend i m t) = Some (True, h)"
    and sync: "pair.sync c h" "mCurrentContact c = Some i" "contacts_size c = node_size n"
  defines "n' \<equiv> n\<lparr>nd_contacts := c, nd_chat := h,
    mNeighbors := if address_of n i = nd_address n then mNeighbors n
                  else push_pending i fresh m (mNeighbors n)\<rparr>"
  shows "bc_frame n n'" "bc_stopped n' = bc_stopped n" "nd_calls n' = nd_calls n"
proof -
  note I = node_invD[OF inv]
  have cards: "cards c = cards (nd_contacts n)"
    using contacts_step_cards[OF c] by simp
  have size: "node_size n' = node_size n" and addr: "address_of n' = address_of n"
    using sync(3) cards by (simp_all add: n'_def node_size_def address_of_def fun_eq_iff)
  have i: "i < node_size n" "i < length (mMessages (nd_chat n))"
    using sync_current[OF I(1) cur] own_talks_send(2)[OF h] by (simp_all add: node_size_def)
  have own: "own_talks h = (own_talks (nd_chat n))[i := own_talks (nd_chat n) ! i @ [m]]"
    using own_talks_send(1)[OF h] .
  have ledger: "ledger n' j" if j: "j < node_size n" "address_of n j \<noteq> nd_address n" for j
    using I(8)[OF j] j(2) own i(2) pending_push[OF I(3)]
    by (cases "j = i") (simp_all add: ledger_def n'_def)
  have keys: "keys_sorted (mNeighbors n')" "\<forall>j \<in> keys (mNeighbors n'). j < node_size n"
    using I(3,4) i(1) keys_push by (auto simp: n'_def)
  have "node_inv n'"
    unfolding node_inv_def size addr
    using sync ledger keys I(5-7) by (simp add: n'_def)
  then show "bc_frame n n'"
    using size by (simp add: bc_frame_def n'_def)
qed (simp_all add: n'_def)

lemma bc_handleSend_inv:
  assumes inv: "node_inv n"
  shows "\<exists>n'. bc_handleSend now fresh m n = Some (True, n') \<and> bc_frame n n' \<and>
    bc_stopped n' = bc_stopped n \<and> nd_calls n' = nd_calls n"
proof -
  note I = node_invD[OF inv]
  obtain i where cur: "mCurrentContact (nd_contacts n) = Some i"
    using I(2) by auto
  then have hcur: "mCurrentId (nd_chat n) = Some i"
    using I(1) by (simp add: pair.sync_def)
  obtain c h where c: "contacts_step (nd_contacts n) (ContactsSend i) = Some (True, c)"
    and h: "chat_step (nd_chat n) (ChatSend i m now) = Some (True, h)"
    and sync: "pair.sync c h" "mCurrentContact c = Some i" "contacts_size c = node_size n"
    using pair.send_both[OF I(1) cur, of m now] by (auto simp: node_size_def)
  let ?n2 = "n\<lparr>nd_contacts := c, nd_chat := h\<rparr>"
  obtain e where e: "contacts_get i c = Some e"
    using sync_current[OF sync(1,2)] by (auto simp: contacts_get_def contacts_size_def)
  have "address_of ?n2 i = address_of n i"
    using contacts_step_cards[OF c] by (simp add: address_of_def)
  then have addr: "ipAddressAndPort e = address_of n i"
    using address_of_get[of i ?n2 e] e by simp
  have ops: "on_contacts (ContactsSend i) n = Some (True, n\<lparr>nd_contacts := c\<rparr>)"
    "on_chat (ChatSend i m now) (n\<lparr>nd_contacts := c\<rparr>) = Some (True, ?n2)"
    using c h by (simp_all add: on_contacts_def on_chat_def)
  have "bc_handleSend now fresh m n = Some (True, n\<lparr>nd_contacts := c, nd_chat := h,
      mNeighbors := if address_of n i = nd_address n then mNeighbors n
                    else push_pending i fresh m (mNeighbors n)\<rparr>)"
    by (simp add: bc_handleSend_def contacts_current_def chat_current_def cur hcur ops e addr)
  with node_inv_send[OF inv cur c h sync] show ?thesis
    by blast
qed

subsection \<open>Receiving\<close>

text \<open>
  A neighbor the node can hear: unknown, the host itself, or shown as active.
\<close>

definition heard :: "string \<Rightarrow> node \<Rightarrow> bool" where
  "heard ident n \<longleftrightarrow> (case contacts_find ident (nd_contacts n) of
     None \<Rightarrow> True
   | Some i \<Rightarrow> address_of n i = nd_address n \<or> contacts_online (nd_contacts n) i)"

lemma contacts_find_size:
  "contacts_inv h \<Longrightarrow> contacts_find k h = Some i \<Longrightarrow> i < contacts_size h \<and> identity (mContacts h ! i) = k"
  by (simp add: contacts_inv_def identities_ok_def contacts_find_def contacts_size_def)

lemma bc_sender_cases:
  assumes "node_inv n"
  shows "bc_sender ident n = (case contacts_find ident (nd_contacts n) of
     None \<Rightarrow> Inl (False, n)
   | Some i \<Rightarrow> if address_of n i = nd_address n then Inl (True, n) else Inr i)"
proof (cases "contacts_find ident (nd_contacts n)")
  case (Some i)
  then have "i < node_size n"
    using contacts_find_size sync_contacts_inv[OF node_invD(1)[OF assms]] by (simp add: node_size_def)
  then obtain e where "contacts_get i (nd_contacts n) = Some e"
    using contacts_get_some by blast
  with Some address_of_get[OF this] show ?thesis
    by (simp add: bc_sender_def)
qed (simp add: bc_sender_def)

lemma node_inv_receive:
  assumes inv: "node_inv n" and i: "i < node_size n"
  shows "\<exists>n1. on_contacts (ContactsReceive i) n = Some (contacts_online (nd_contacts n) i, n1) \<and>
    bc_frame n n1 \<and> bc_stopped n1 = bc_stopped n \<and> nd_calls n1 = nd_calls n"
proof -
  note I = node_invD[OF inv]
  obtain c where c: "contacts_step (nd_contacts n) (ContactsReceive i) =
      Some (i < contacts_size (nd_contacts n) \<and> contacts_online (nd_contacts n) i, c)"
    and sync: "pair.sync c (nd_chat n)" "contacts_size c = contacts_size (nd_contacts n)"
    using pair.receive_contact[OF I(1)] by blast
  have cur: "mCurrentContact c \<noteq> None"
    using sync(1) I(1,2) by (simp add: pair.sync_def)
  have "node_inv (n\<lparr>nd_contacts := c\<rparr>)"
    by (rule node_inv_contacts[OF inv c _ sync(1) _ cur]) (simp_all add: sync(2) node_size_def)
  then have "bc_frame n (n\<lparr>nd_contacts := c\<rparr>)"
    using sync(2) by (simp add: bc_frame_def node_size_def)
  with c i show ?thesis
    by (simp add: on_contacts_def node_size_def)
qed

lemma node_inv_store:
  assumes inv: "node_inv n" and i: "i < node_size n"
  shows "\<exists>n1. on_chat (ChatReceive i m t) n = Some (True, n1) \<and>
    bc_frame n n1 \<and> bc_stopped n1 = bc_stopped n \<and> nd_calls n1 = nd_calls n"
proof -
  obtain h where h: "chat_step (nd_chat n) (ChatReceive i m t) = Some (True, h)"
    "pair.sync (nd_contacts n) h"
    using pair.receive_chat[OF node_invD(1)[OF inv] i[unfolded node_size_def]] by blast
  have "own_talks h = own_talks (nd_chat n)"
    by (rule own_talks_same[OF h(1)]) simp_all
  with node_inv_chat[OF inv h(2)] h(1) show ?thesis
    by (simp add: on_chat_def bc_frame_def)
qed

lemma bc_frame_refl [simp]: "node_inv n \<Longrightarrow> bc_frame n n"
  by (simp add: bc_frame_def)

lemma bc_frame_trans: "bc_frame n n1 \<Longrightarrow> bc_frame n1 n2 \<Longrightarrow> bc_frame n n2"
  by (simp add: bc_frame_def)

lemma bc_stop_simps [simp]:
  "bc_stopped (bc_stop n) = True" "nd_calls (bc_stop n) = nd_calls n"
  "bd_stopped (bc_stop n) = bd_stopped n" "nd_address (bc_stop n) = nd_address n"
  by (simp_all add: bc_stop_def)

lemma bc_frame_stop [simp]: "bc_frame n (bc_stop n1) = bc_frame n n1"
  by (simp add: bc_frame_def) (simp add: bc_stop_def)

lemma bc_receive_all_inv:
  "node_inv n \<Longrightarrow> i < node_size n \<Longrightarrow>
   \<exists>n1. bc_receive_all clock k i ms n = Some (True, n1) \<and> bc_frame n n1 \<and>
     bc_stopped n1 = bc_stopped n \<and> nd_calls n1 = nd_calls n"
proof (induction ms arbitrary: n k)
  case (Cons m ms)
  obtain n1 where n1: "on_chat (ChatReceive i m (clock k)) n = Some (True, n1)" "bc_frame n n1"
    "bc_stopped n1 = bc_stopped n" "nd_calls n1 = nd_calls n"
    using node_inv_store[OF Cons.prems] by blast
  then have "node_inv n1" "i < node_size n1"
    using Cons.prems by (simp_all add: bc_frame_def)
  from Cons.IH[OF this, of "Suc k"] n1 show ?case
    by (auto intro: bc_frame_trans)
qed simp

text \<open>Both requests, with the continuation that stores their messages.\<close>

lemma bc_handle_inv:
  assumes inv: "node_inv n"
    and store: "\<And>n1 i. node_inv n1 \<Longrightarrow> i < node_size n1 \<Longrightarrow>
      \<exists>n2. store i n1 = Some (True, n2) \<and> bc_frame n1 n2 \<and> bc_stopped n2 = bc_stopped n1 \<and>
        nd_calls n2 = nd_calls n1"
  shows "\<exists>r n'. (case bc_sender ident n of
      Inl answer \<Rightarrow> Some answer
    | Inr i \<Rightarrow> do {
        (noted, n1) \<leftarrow> on_contacts (ContactsReceive i) n;
        if \<not> noted then bc_fail n1 else store i n1
      }) = Some (r, n') \<and> bc_frame n n' \<and> nd_calls n' = nd_calls n \<and>
    bc_stopped n' = (bc_stopped n \<or> \<not> heard ident n) \<and>
    r = (heard ident n \<and> contacts_find ident (nd_contacts n) \<noteq> None)"
proof (cases "contacts_find ident (nd_contacts n)")
  case None
  with inv show ?thesis
    by (auto simp: bc_sender_cases heard_def)
next
  case (Some i)
  show ?thesis
  proof (cases "address_of n i = nd_address n")
    case True
    with inv Some show ?thesis
      by (auto simp: bc_sender_cases heard_def)
  next
    case False
    have i: "i < node_size n"
      using Some contacts_find_size sync_contacts_inv[OF node_invD(1)[OF inv]]
      by (simp add: node_size_def)
    obtain n1 where n1: "on_contacts (ContactsReceive i) n = Some (contacts_online (nd_contacts n) i, n1)"
      "bc_frame n n1" "bc_stopped n1 = bc_stopped n" "nd_calls n1 = nd_calls n"
      using node_inv_receive[OF inv i] by blast
    show ?thesis
    proof (cases "contacts_online (nd_contacts n) i")
      case True
      obtain n2 where n2: "store i n1 = Some (True, n2)" "bc_frame n1 n2" "bc_stopped n2 = bc_stopped n1"
        "nd_calls n2 = nd_calls n1"
        using store[of n1 i] n1(2) i by (auto simp: bc_frame_def)
      have "heard ident n"
        using Some True by (simp add: heard_def)
      moreover have "bc_frame n n2"
        using n1(2) n2(2) by (rule bc_frame_trans)
      ultimately show ?thesis
        using n1 n2 True False Some
        by (intro exI[of _ True] exI[of _ n2]) (simp add: bc_sender_cases[OF inv])
    next
      case offline: False
      have "\<not> heard ident n"
        using Some False offline by (simp add: heard_def)
      then show ?thesis
        using n1 False offline Some
        by (intro exI[of _ False] exI[of _ "bc_stop n1"]) (simp add: bc_sender_cases[OF inv] bc_fail_def)
    qed
  qed
qed

lemma bc_handleTell_inv:
  assumes "node_inv n"
  shows "\<exists>r n'. bc_handleTell now ident m n = Some (r, n') \<and> bc_frame n n' \<and> nd_calls n' = nd_calls n \<and>
    bc_stopped n' = (bc_stopped n \<or> \<not> heard ident n) \<and>
    r = (heard ident n \<and> contacts_find ident (nd_contacts n) \<noteq> None)"
  unfolding bc_handleTell_def
proof (rule bc_handle_inv[OF assms])
  fix n1 :: node and i
  assume "node_inv n1" "i < node_size n1"
  from node_inv_store[OF this, of m now] show
    "\<exists>n2. (do { (stored, n2) \<leftarrow> on_chat (ChatReceive i m now) n1;
        if \<not> stored then bc_fail n2 else Some (True, n2) }) = Some (True, n2) \<and>
      bc_frame n1 n2 \<and> bc_stopped n2 = bc_stopped n1 \<and> nd_calls n2 = nd_calls n1"
    by auto
qed

lemma bc_handleNarrate_inv:
  assumes "node_inv n"
  shows "\<exists>r n'. bc_handleNarrate clock ident ms n = Some (r, n') \<and> bc_frame n n' \<and>
    nd_calls n' = nd_calls n \<and> bc_stopped n' = (bc_stopped n \<or> \<not> heard ident n) \<and>
    r = (heard ident n \<and> contacts_find ident (nd_contacts n) \<noteq> None)"
  unfolding bc_handleNarrate_def by (rule bc_handle_inv[OF assms]) (rule bc_receive_all_inv)

subsection \<open>A turn of the loop\<close>

lemma bc_getIdentity_eq:
  "0 < node_size n \<Longrightarrow> bc_getIdentity n = (fst (snd (cards (nd_contacts n) ! 0)), n)"
  by (auto simp: bc_getIdentity_def contacts_get_def nth_cards card_of_def node_size_def contacts_size_def)

text \<open>At one neighbor: calls are added, and what they deliver is what is no longer pending.\<close>

lemma bc_neighbor_ok:
  assumes "i < node_size n"
  shows "\<exists>nb' cs. bc_neighbor env i nb n = Some (nb', n\<lparr>nd_calls := nd_calls n @ cs\<rparr>) \<and>
    keys cs \<subseteq> {i} \<and> delivered i cs @ pendingMessages nb' = pendingMessages nb"
proof -
  obtain steady kick stub_ok call_ok where env: "env = (steady, kick, stub_ok, call_ok)"
    by (cases env)
  obtain e where e: "contacts_get i (nd_contacts n) = Some e"
    using contacts_get_some[OF assms] by blast
  have root: "bc_getIdentity n = (fst (snd (cards (nd_contacts n) ! 0)), n)"
    using assms by (intro bc_getIdentity_eq) simp
  let ?nb1 = "nb\<lparr>nb_timer := timer_kick kick (nb_timer nb)\<rparr>"
  let ?nb2 = "?nb1\<lparr>nb_stub := nb_stub ?nb1 \<or> stub_ok\<rparr>"
  let ?key = "fst (snd (cards (nd_contacts n) ! 0))"
  consider (idle) "\<not> timer_expired steady (nb_timer nb)"
    | (away) "timer_expired steady (nb_timer nb)" "isInactive (state e)"
    | (no_stub) "timer_expired steady (nb_timer nb)" "\<not> isInactive (state e)" "\<not> nb_stub ?nb2"
    | (call) "timer_expired steady (nb_timer nb)" "\<not> isInactive (state e)" "nb_stub ?nb2"
    by blast
  then show ?thesis
  proof cases
    case idle
    then have "bc_neighbor env i nb n = Some (nb, n)"
      by (simp add: bc_neighbor_def env)
    then show ?thesis
      by (intro exI[of _ "nb"] exI[of _ "[]"]) simp
  next
    case away
    then have "bc_neighbor env i nb n = Some (?nb1, n)"
      by (simp add: bc_neighbor_def env e)
    then show ?thesis
      by (intro exI[of _ "?nb1"] exI[of _ "[]"]) simp
  next
    case no_stub
    then have "bc_neighbor env i nb n = Some (?nb2, n)"
      by (simp add: bc_neighbor_def env e)
    then show ?thesis
      by (intro exI[of _ "?nb2"] exI[of _ "[]"]) simp
  next
    case call
    let ?nb3 = "if call_ok then ?nb2\<lparr>pendingMessages := []\<rparr> else ?nb2"
    let ?cs = "if pendingMessages nb = [] then []
      else [(i, if length (pendingMessages nb) > 1 then NarrateRequest ?key (pendingMessages nb)
                else TellRequest ?key (last (pendingMessages nb)), call_ok)]"
    have "pendingMessages nb = [] \<or> length (pendingMessages nb) > 1 \<or> (\<exists>m. pendingMessages nb = [m])"
      by (cases "pendingMessages nb" rule: remdups_adj.cases) auto
    then have "bc_neighbor env i nb n =
        Some (if pendingMessages nb = [] then ?nb2 else ?nb3, n\<lparr>nd_calls := nd_calls n @ ?cs\<rparr>)"
      using call by (auto simp: bc_neighbor_def env e root bc_call_def)
    moreover have "delivered i ?cs @ pendingMessages (if pendingMessages nb = [] then ?nb2 else ?nb3) =
        pendingMessages nb"
      by (cases "pendingMessages nb" rule: remdups_adj.cases) auto
    ultimately show ?thesis
      by (intro exI[of _ "if pendingMessages nb = [] then ?nb2 else ?nb3"] exI[of _ ?cs]) simp
  qed
qed

lemma bc_neighbors_ok:
  "\<not> bc_stopped n \<Longrightarrow> \<forall>i \<in> keys xs. i < node_size n \<Longrightarrow> keys_sorted xs \<Longrightarrow>
   \<exists>xs' cs. bc_neighbors env xs n = Some (xs', n\<lparr>nd_calls := nd_calls n @ cs\<rparr>) \<and>
     map fst xs' = map fst xs \<and> keys cs \<subseteq> keys xs \<and>
     (\<forall>i. delivered i cs @ pending_for i xs' = pending_for i xs)"
proof (induction xs arbitrary: n)
  case Nil
  show ?case
    by (intro exI[of _ "[]"]) (simp add: pending_for_def)
next
  case (Cons x xs)
  obtain i nb where x: "x = (i, nb)"
    by (cases x)
  obtain nb' cs where nb': "bc_neighbor (env i) i nb n = Some (nb', n\<lparr>nd_calls := nd_calls n @ cs\<rparr>)"
    "keys cs \<subseteq> {i}" "delivered i cs @ pendingMessages nb' = pendingMessages nb"
    using bc_neighbor_ok[of i n "env i" nb] Cons.prems(2) x by auto
  let ?n = "n\<lparr>nd_calls := nd_calls n @ cs\<rparr>"
  obtain xs' cs' where xs': "bc_neighbors env xs ?n = Some (xs', ?n\<lparr>nd_calls := nd_calls ?n @ cs'\<rparr>)"
    "map fst xs' = map fst xs" "keys cs' \<subseteq> keys xs"
    "\<forall>i. delivered i cs' @ pending_for i xs' = pending_for i xs"
    using Cons.IH[of ?n] Cons.prems unfolding x by auto
  have i: "i \<notin> keys xs"
    using Cons.prems(3) x by (auto simp: keys_def)
  then have i': "i \<notin> keys cs'"
    using xs'(3) by blast
  have "delivered j (cs @ cs') @ pending_for j ((i, nb') # xs') = pending_for j ((i, nb) # xs)" for j
  proof (cases "j = i")
    case True
    with nb'(3) delivered_none[OF i'] show ?thesis
      by (simp add: pending_for_def)
  next
    case False
    then have "j \<notin> keys cs"
      using nb'(2) by blast
    with xs'(4) False delivered_none[of j cs] show ?thesis
      by (simp add: pending_for_def)
  qed
  moreover have "keys (cs @ cs') \<subseteq> keys ((i, nb) # xs)"
    using nb'(2) xs'(3) by auto
  moreover have "bc_neighbors env ((i, nb) # xs) n =
      Some ((i, nb') # xs', n\<lparr>nd_calls := nd_calls n @ cs @ cs'\<rparr>)"
    using Cons.prems(1) nb'(1) xs'(1) by simp
  ultimately show ?case
    using xs'(2) unfolding x by (intro exI[of _ "(i, nb') # xs'"] exI[of _ "cs @ cs'"]) simp
qed

lemma bc_run_turn_inv:
  assumes inv: "node_inv n"
  shows "\<exists>n'. bc_run_turn env n = Some (\<not> bc_stopped n, n') \<and> bc_frame n n' \<and>
    bc_stopped n' = bc_stopped n"
proof (cases "bc_stopped n")
  case True
  with inv show ?thesis
    by (simp add: bc_run_turn_def)
next
  case False
  note I = node_invD[OF inv]
  obtain xs cs where xs: "bc_neighbors env (mNeighbors n) n = Some (xs, n\<lparr>nd_calls := nd_calls n @ cs\<rparr>)"
    "map fst xs = map fst (mNeighbors n)" "keys cs \<subseteq> keys (mNeighbors n)"
    "\<forall>i. delivered i cs @ pending_for i xs = pending_for i (mNeighbors n)"
    using bc_neighbors_ok[OF False _ I(3)] I(4) by blast
  let ?n = "n\<lparr>nd_calls := nd_calls n @ cs, mNeighbors := xs\<rparr>"
  have frames: "node_size ?n = node_size n" "address_of ?n = address_of n"
    by (simp_all add: node_size_def address_of_def fun_eq_iff)
  have keys: "keys xs = keys (mNeighbors n)"
    using xs(2) by (rule keys_map_fst)
  have "ledger ?n i" if "i < node_size n" "address_of n i \<noteq> nd_address n" for i
    using I(8)[OF that] xs(4) by (simp add: ledger_def)
  then have "node_inv ?n"
    unfolding node_inv_def frames using I xs(2,3) keys by auto
  then have "bc_frame n ?n"
    using frames by (simp add: bc_frame_def)
  with False xs(1) show ?thesis
    by (simp add: bc_run_turn_def)
qed

end
