(* ===== verification/Broadcaster_Discovery.thy ===== *)
theory Broadcaster_Discovery
  imports Broadcaster_Chat
begin

text \<open>
  \<open>TTBroadcasterDiscovery\<close> (engine/src/TTBroadcasterDiscovery.cpp): adding neighbors, the
  greet and heartbeat requests, and one turn of each of its two loops: over the static
  neighbors of the command line, which are greeted a few times, and over the neighbors found, which
  are asked for a heartbeat.  Parameters stand for the clocks, the random thresholds, whether a
  stub could be created, and the responses of the remote calls.

  The lemmas show that each operation keeps the node's invariant and stops neither
  broadcaster, and bound the number of calls made to a neighbor that does not answer.
\<close>

subsection \<open>Operations\<close>

definition discoveryTrials :: nat where
  "discoveryTrials = 3"

definition inactivityTrials :: nat where
  "inactivityTrials = 5"

definition fresh_static :: "int \<Rightarrow> int \<Rightarrow> string \<Rightarrow> static_neighbor" where
  "fresh_static threshold steady address =
     \<lparr>sn_timer = timer_expire (new_timer threshold steady), sn_trials = discoveryTrials,
      sn_address = address\<rparr>"

definition fresh_dynamic :: "int \<Rightarrow> int \<Rightarrow> bool \<Rightarrow> dynamic_neighbor" where
  "fresh_dynamic threshold steady stub =
     \<lparr>dn_timer = timer_expire (new_timer threshold steady), dn_trials = inactivityTrials,
      dn_stub = stub\<rparr>"

definition bd_fail :: "node \<Rightarrow> (bool \<times> node) option" where
  "bd_fail n = Some (False, bd_stop n)"

definition bd_addNeighbor ::
  "dynamic_neighbor \<Rightarrow> string \<Rightarrow> string \<Rightarrow> string \<Rightarrow> node \<Rightarrow> (bool \<times> node) option" where
  "bd_addNeighbor fresh nick ident address n =
     (if nick = [] \<or> ident = [] \<or> address = [] then Some (False, n)
      else case contacts_find ident (nd_contacts n) of
        Some i \<Rightarrow> do {
          (active, n1) \<leftarrow> on_contacts (ContactsActivate i) n;
          if \<not> active then bd_fail n1 else Some (True, n1)
        }
      | None \<Rightarrow> do {
          (created, n1) \<leftarrow> on_contacts (ContactsCreate nick ident address) n;
          if \<not> created then Some (False, n1)
          else case contacts_find ident (nd_contacts n1) of
            None \<Rightarrow> bd_fail n1
          | Some i \<Rightarrow> do {
              (stored, n2) \<leftarrow> on_chat (ChatCreate i) n1;
              if \<not> stored then bd_fail n2
              else Some (True, n2\<lparr>mDynamicNeighbors := map_emplace i fresh (mDynamicNeighbors n2)\<rparr>)
            }
        })"

definition bd_handleGreet ::
  "int \<Rightarrow> int \<Rightarrow> string \<Rightarrow> string \<Rightarrow> string \<Rightarrow> node \<Rightarrow> (bool \<times> node) option" where
  "bd_handleGreet threshold steady nick ident address n =
     bd_addNeighbor (fresh_dynamic threshold steady False) nick ident address n"

definition bd_handleHeartbeat :: "string \<Rightarrow> node \<Rightarrow> (bool \<times> node) option" where
  "bd_handleHeartbeat ident n =
     (case contacts_find ident (nd_contacts n) of
        None \<Rightarrow> Some (False, n)
      | Some i \<Rightarrow> do {
          (active, n1) \<leftarrow> on_contacts (ContactsActivate i) n;
          if \<not> active then bd_fail n1 else Some (True, n1)
        })"

text \<open>
  What a turn meets at a static neighbor: the clock when the timer is asked, whether a stub can
  be created, the response, the threshold drawn for the new neighbor, the clock at the kick.
\<close>

record static_env =
  se_steady :: int
  se_stub :: bool
  se_response :: greet_response
  se_threshold :: int
  se_kick :: int

definition bd_static ::
  "static_env \<Rightarrow> static_neighbor \<Rightarrow> node \<Rightarrow> (bool \<times> static_neighbor \<times> node) option" where
  "bd_static env sn n =
     (if 0 < sn_trials sn then
        if timer_expired (se_steady env) (sn_timer sn) then do {
          let sn1 = sn\<lparr>sn_trials := sn_trials sn - 1\<rparr>;
          (sn2, n2) \<leftarrow>
            (if se_stub env then
               let (nick, na) = bd_getNickname n;
                   (ident, nb) = bd_getIdentity na;
                   (address, nc) = bd_getIpAddressAndPort nb;
                   response = se_response env;
                   nd = nc\<lparr>nd_greets := nd_greets nc @
                     [(sn_address sn, GreetRequest nick ident address, gr_status response)]\<rparr>
               in if gr_status response then do {
                    (added, ne) \<leftarrow> bd_addNeighbor
                      (fresh_dynamic (se_threshold env) (se_steady env) True)
                      (gr_nickname response) (gr_identity response) (gr_ipAddressAndPort response) nd;
                    Some (if added then sn1\<lparr>sn_trials := 0\<rparr> else sn1, ne)
                  } else Some (sn1, nd)
             else Some (sn1, n));
          Some (False, sn2\<lparr>sn_timer := timer_kick (se_kick env) (sn_timer sn2)\<rparr>, n2)
        } else Some (False, sn, n)
      else Some (True, sn, n))"

fun bd_statics ::
  "(nat \<Rightarrow> static_env) \<Rightarrow> nat \<Rightarrow> static_neighbor list \<Rightarrow> node \<Rightarrow>
   (bool \<times> static_neighbor list \<times> node) option" where
  "bd_statics env k [] n = Some (True, [], n)"
| "bd_statics env k (sn # sns) n =
     (if bd_stopped n then Some (True, sn # sns, n)
      else do {
        (resolved1, sn', n1) \<leftarrow> bd_static (env k) sn n;
        (resolved, sns', n2) \<leftarrow> bd_statics env (Suc k) sns n1;
        Some (resolved1 \<and> resolved, sn' # sns', n2)
      })"

text \<open>One turn of \<open>resolveStaticNeighbors\<close>; \<open>True\<close> when the loop goes on.\<close>

definition bd_static_turn :: "(nat \<Rightarrow> static_env) \<Rightarrow> node \<Rightarrow> (bool \<times> node) option" where
  "bd_static_turn env n = do {
     (resolved, sns, n1) \<leftarrow> bd_statics env 0 (mStaticNeighbors n) n;
     let n2 = n1\<lparr>mStaticNeighbors := sns\<rparr>;
     Some (\<not> resolved \<and> \<not> bd_stopped n2, n2)
   }"

record dynamic_env =
  de_steady :: int
  de_stub :: bool
  de_response :: heartbeat_response
  de_kick :: int

text \<open>
  One turn at a neighbor: whether the loop over the neighbors goes on, which a \<open>break\<close> ends.
\<close>

definition bd_dynamic ::
  "dynamic_env \<Rightarrow> nat \<Rightarrow> dynamic_neighbor \<Rightarrow> node \<Rightarrow> (bool \<times> dynamic_neighbor \<times> node) option" where
  "bd_dynamic env i dn n =
     (if \<not> timer_expired (de_steady env) (dn_timer dn) then Some (True, dn, n)
      else if dn_trials dn = 0 then Some (True, dn, n)
      else case (if dn_stub dn then Some dn
                 else case contacts_get i (nd_contacts n) of
                   None \<Rightarrow> None | Some e \<Rightarrow> Some (dn\<lparr>dn_stub := de_stub env\<rparr>)) of
        None \<Rightarrow> Some (False, dn, bd_stop n)
      | Some dn1 \<Rightarrow>
          let done = (\<lambda>d m. Some (True,
            d\<lparr>dn_trials := dn_trials d - 1, dn_timer := timer_kick (de_kick env) (dn_timer d)\<rparr>, m))
          in if \<not> dn_stub dn1 then done dn1 n
          else let (ident, na) = bd_getIdentity n;
                   response = de_response env;
                   nb = na\<lparr>nd_calls := nd_calls na @ [(i, HeartbeatRequest ident, hr_status response)]\<rparr>
            in if hr_status response \<and> hr_identity response \<noteq> [] then do {
                 let dn2 = dn1\<lparr>dn_trials := inactivityTrials + 1\<rparr>;
                 (active, nc) \<leftarrow> on_contacts (ContactsActivate i) nb;
                 if \<not> active then Some (False, dn2, bd_stop nc) else done dn2 nc
               } else do {
                 (inactive, nc) \<leftarrow> on_contacts (ContactsDeactivate i) nb;
                 if \<not> inactive then Some (False, dn1, bd_stop nc) else done dn1 nc
               })"

fun bd_dynamics ::
  "(nat \<Rightarrow> dynamic_env) \<Rightarrow> (nat \<times> dynamic_neighbor) list \<Rightarrow> node \<Rightarrow>
   ((nat \<times> dynamic_neighbor) list \<times> node) option" where
  "bd_dynamics env [] n = Some ([], n)"
| "bd_dynamics env ((i, dn) # ds) n =
     (if bd_stopped n then Some ((i, dn) # ds, n)
      else do {
        (continued, dn', n1) \<leftarrow> bd_dynamic (env i) i dn n;
        if \<not> continued then Some ((i, dn') # ds, n1)
        else do {
          (ds', n2) \<leftarrow> bd_dynamics env ds n1;
          Some ((i, dn') # ds', n2)
        }
      })"

text \<open>One turn of \<open>resolveDynamicNeighbors\<close>.\<close>

definition bd_dynamic_turn :: "(nat \<Rightarrow> dynamic_env) \<Rightarrow> node \<Rightarrow> (bool \<times> node) option" where
  "bd_dynamic_turn env n =
     (if bd_stopped n then Some (False, n)
      else do {
        (ds, n1) \<leftarrow> bd_dynamics env (mDynamicNeighbors n) n;
        Some (True, n1\<lparr>mDynamicNeighbors := ds\<rparr>)
      })"

subsection \<open>Frames\<close>

text \<open>
  What an operation of the discovery broadcaster keeps: the invariant, the stop flags, the
  address, what is pending for whom; contacts are only added.
\<close>

definition bd_frame :: "node \<Rightarrow> node \<Rightarrow> bool" where
  "bd_frame n n' \<longleftrightarrow> node_inv n' \<and> node_size n \<le> node_size n' \<and> nd_address n' = nd_address n \<and>
     bc_stopped n' = bc_stopped n \<and> bd_stopped n' = bd_stopped n \<and> mNeighbors n' = mNeighbors n"

lemma bd_frame_refl [simp]: "node_inv n \<Longrightarrow> bd_frame n n"
  by (simp add: bd_frame_def)

lemma bd_frame_trans: "bd_frame n n1 \<Longrightarrow> bd_frame n1 n2 \<Longrightarrow> bd_frame n n2"
  by (simp add: bd_frame_def)

lemma node_inv_greets [simp]: "node_inv (n\<lparr>nd_greets := gs\<rparr>) = node_inv n"
  by (simp add: node_inv_def)

lemma node_inv_statics [simp]: "node_inv (n\<lparr>mStaticNeighbors := ss\<rparr>) = node_inv n"
  by (simp add: node_inv_def)

lemma node_inv_size: "node_inv n \<Longrightarrow> 0 < node_size n"
  using sync_current[OF node_invD(1)] node_invD(2) by (force simp: node_size_def)

lemma bd_gets:
  assumes "node_inv n"
  shows "bd_getIdentity n = (fst (snd (cards (nd_contacts n) ! 0)), n)"
    "bd_getNickname n = (fst (cards (nd_contacts n) ! 0), n)"
    "bd_getIpAddressAndPort n = (snd (snd (cards (nd_contacts n) ! 0)), n)"
  using node_inv_size[OF assms]
  by (auto simp: bd_getIdentity_def bd_getNickname_def bd_getIpAddressAndPort_def contacts_get_def
      nth_cards card_of_def node_size_def contacts_size_def)

lemma node_inv_activate:
  assumes inv: "node_inv n" and i: "i < node_size n"
    and x: "x = ContactsActivate i \<or> x = ContactsDeactivate i"
  shows "\<exists>n1. on_contacts x n = Some (True, n1) \<and> bd_frame n n1 \<and> node_size n1 = node_size n \<and>
    mDynamicNeighbors n1 = mDynamicNeighbors n \<and> nd_calls n1 = nd_calls n"
proof -
  note I = node_invD[OF inv]
  obtain c where c: "contacts_step (nd_contacts n) x = Some (True, c)"
    and sync: "pair.sync c (nd_chat n)" "contacts_size c = contacts_size (nd_contacts n)"
    using pair.activate_contact[OF I(1) _ x] i by (auto simp: node_size_def)
  have cur: "mCurrentContact c \<noteq> None"
    using sync(1) I(1,2) by (simp add: pair.sync_def)
  have "\<not> is_create x"
    using x by auto
  then have "node_inv (n\<lparr>nd_contacts := c\<rparr>)"
    by (rule node_inv_contacts[OF inv c _ sync(1) _ cur]) (simp add: sync(2) node_size_def)
  with c sync(2) show ?thesis
    by (simp add: on_contacts_def bd_frame_def node_size_def)
qed

text \<open>A new contact comes last, with an empty ledger.\<close>

lemma node_inv_create:
  assumes inv: "node_inv n" and new: "contacts_find ident (nd_contacts n) = None"
    and ok: "length nick < TTCONTACTS_DATA_MAX_LENGTH"
  shows "\<exists>c h. contacts_step (nd_contacts n) (ContactsCreate nick ident address) = Some (True, c) \<and>
    contacts_find ident c = Some (node_size n) \<and>
    chat_step (nd_chat n) (ChatCreate (node_size n)) = Some (True, h) \<and>
    bd_frame n (n\<lparr>nd_contacts := c, nd_chat := h,
      mDynamicNeighbors := map_emplace (node_size n) fresh (mDynamicNeighbors n)\<rparr>) \<and>
    contacts_size c = Suc (node_size n)"
proof -
  note I = node_invD[OF inv]
  have "contacts_op_ok (ContactsCreate nick ident address)"
    using ok by simp
  from pair.create_both[OF I(1) this] obtain c h where
    c: "contacts_step (nd_contacts n) (ContactsCreate nick ident address) = Some (True, c)"
    and h: "chat_step (nd_chat n) (ChatCreate (node_size n)) = Some (True, h)"
    and sync: "pair.sync c h" "contacts_size c = Suc (node_size n)"
    unfolding node_size_def by blast
  note created = contacts_step_create[OF c]
  have find: "contacts_find ident c = Some (node_size n)"
    using created(2) by (simp add: contacts_find_def node_size_def contacts_size_def)
  have own: "own_talks h = own_talks (nd_chat n) @ [[]]"
    by (rule own_talks_create[OF h])
  have len: "length (own_talks (nd_chat n)) = node_size n"
    using sync_length[OF I(1)] by (simp add: node_size_def contacts_size_def)
  have "mCurrentContact c = mCurrentContact (nd_contacts n)"
    using pair.c_create[OF _ _ _ c] sync_contacts_inv[OF I(1)] ok by simp
  with I(2) have cur: "mCurrentContact c \<noteq> None"
    by simp
  let ?n = "n\<lparr>nd_contacts := c, nd_chat := h,
      mDynamicNeighbors := map_emplace (node_size n) fresh (mDynamicNeighbors n)\<rparr>"
  have size: "node_size ?n = Suc (node_size n)"
    using sync(2) by (simp add: node_size_def)
  have addr: "address_of ?n i = address_of n i" if "i < node_size n" for i
    using created(1) that by (simp add: address_of_def nth_append node_size_def contacts_size_def)
  have ledger: "ledger ?n i" if i: "i < Suc (node_size n)" "address_of ?n i \<noteq> nd_address n" for i
  proof (cases "i < node_size n")
    case True
    with I(8)[OF True] i(2) addr[OF True] own len show ?thesis
      by (simp add: ledger_def nth_append)
  next
    case False
    then have "i = node_size n"
      using i(1) by simp
    moreover have "node_size n \<notin> keys (nd_calls n)" "node_size n \<notin> keys (mNeighbors n)"
      using I(4,7) by blast+
    then have "delivered (node_size n) (nd_calls n) = []" "pending_for (node_size n) (mNeighbors n) = []"
      using delivered_none keys_map_of[of "mNeighbors n" "node_size n"]
      by (auto simp: pending_for_def split: option.split)
    ultimately show ?thesis
      using own len by (simp add: ledger_def nth_append)
  qed
  have "node_inv ?n"
    unfolding node_inv_def size
    using sync(1) cur ledger I(3,5) I(4)[THEN less_SucI] I(6)[THEN less_SucI] I(7)[THEN less_SucI]
    by (auto simp: keys_sorted_emplace)
  then have "bd_frame n ?n"
    using size by (simp add: bd_frame_def)
  with c h find sync(2) show ?thesis
    by blast
qed

subsection \<open>Requests\<close>

lemma bd_addNeighbor_inv:
  assumes inv: "node_inv n" and ok: "length nick < TTCONTACTS_DATA_MAX_LENGTH"
  shows "\<exists>r n'. bd_addNeighbor fresh nick ident address n = Some (r, n') \<and> bd_frame n n' \<and>
    r = (nick \<noteq> [] \<and> ident \<noteq> [] \<and> address \<noteq> [])"
proof (cases "nick = [] \<or> ident = [] \<or> address = []")
  case True
  with inv have "bd_addNeighbor fresh nick ident address n = Some (False, n)"
    by (auto simp: bd_addNeighbor_def)
  with True inv show ?thesis
    by auto
next
  case complete: False
  show ?thesis
  proof (cases "contacts_find ident (nd_contacts n)")
    case None
    obtain c h where c: "contacts_step (nd_contacts n) (ContactsCreate nick ident address) = Some (True, c)"
      "contacts_find ident c = Some (node_size n)"
      "chat_step (nd_chat n) (ChatCreate (node_size n)) = Some (True, h)"
      and f: "bd_frame n (n\<lparr>nd_contacts := c, nd_chat := h,
        mDynamicNeighbors := map_emplace (node_size n) fresh (mDynamicNeighbors n)\<rparr>)"
      using node_inv_create[OF inv None ok] by blast
    have "bd_addNeighbor fresh nick ident address n = Some (True, n\<lparr>nd_contacts := c, nd_chat := h,
        mDynamicNeighbors := map_emplace (node_size n) fresh (mDynamicNeighbors n)\<rparr>)"
      using complete None c by (simp add: bd_addNeighbor_def on_contacts_def on_chat_def
          del: contacts_step.simps chat_step.simps)
    with f complete show ?thesis
      by blast
  next
    case (Some i)
    then have "i < node_size n"
      using contacts_find_size sync_contacts_inv[OF node_invD(1)[OF inv]] by (simp add: node_size_def)
    then obtain n1 where "on_contacts (ContactsActivate i) n = Some (True, n1)" "bd_frame n n1"
      using node_inv_activate[OF inv, of i "ContactsActivate i"] by blast
    with complete Some show ?thesis
      by (auto simp: bd_addNeighbor_def)
  qed
qed

lemma on_contacts_greets: "on_contacts x n = Some (r, n') \<Longrightarrow> nd_greets n' = nd_greets n"
  by (auto simp: on_contacts_Some)

lemma on_chat_greets: "on_chat x n = Some (r, n') \<Longrightarrow> nd_greets n' = nd_greets n"
  by (auto simp: on_chat_Some)

lemma bd_addNeighbor_greets:
  assumes "bd_addNeighbor fresh nick ident address n = Some (r, n')"
  shows "nd_greets n' = nd_greets n"
  using assms
  by (auto simp: bd_addNeighbor_def bd_fail_def bd_stop_def bind_eq_Some_conv
      dest!: on_contacts_greets on_chat_greets split: if_splits option.splits)

lemma bd_handleHeartbeat_inv:
  assumes inv: "node_inv n"
  shows "\<exists>r n'. bd_handleHeartbeat ident n = Some (r, n') \<and> bd_frame n n' \<and>
    r = (contacts_find ident (nd_contacts n) \<noteq> None)"
proof (cases "contacts_find ident (nd_contacts n)")
  case None
  with inv show ?thesis
    by (auto simp: bd_handleHeartbeat_def)
next
  case (Some i)
  then have "i < node_size n"
    using contacts_find_size sync_contacts_inv[OF node_invD(1)[OF inv]] by (simp add: node_size_def)
  then obtain n1 where "on_contacts (ContactsActivate i) n = Some (True, n1)" "bd_frame n n1"
    using node_inv_activate[OF inv, of i "ContactsActivate i"] by blast
  with Some show ?thesis
    by (auto simp: bd_handleHeartbeat_def)
qed

subsection \<open>A turn over the static neighbors\<close>

text \<open>The responses the program can digest: a nickname that fits a message.\<close>

definition response_ok :: "greet_response \<Rightarrow> bool" where
  "response_ok r \<longleftrightarrow> length (gr_nickname r) < TTCONTACTS_DATA_MAX_LENGTH"

lemma bd_static_inv:
  assumes inv: "node_inv n" and ok: "response_ok (se_response env)"
  shows "\<exists>sn' n'. bd_static env sn n = Some (sn_trials sn = 0, sn', n') \<and> bd_frame n n' \<and>
    sn_trials sn' \<le> sn_trials sn \<and>
    (nd_greets n' = nd_greets n \<or> sn_trials sn' < sn_trials sn \<and>
      (\<exists>rq r. nd_greets n' = nd_greets n @ [(sn_address sn, rq, r)]))"
proof -
  let ?sn1 = "sn\<lparr>sn_trials := sn_trials sn - 1\<rparr>"
  let ?kick = "\<lambda>s. s\<lparr>sn_timer := timer_kick (se_kick env) (sn_timer s)\<rparr>"
  let ?rq = "GreetRequest (fst (cards (nd_contacts n) ! 0)) (fst (snd (cards (nd_contacts n) ! 0)))
    (snd (snd (cards (nd_contacts n) ! 0)))"
  let ?n1 = "n\<lparr>nd_greets := nd_greets n @ [(sn_address sn, ?rq, gr_status (se_response env))]\<rparr>"
  have inv1: "node_inv ?n1"
    using inv by simp
  have frame1: "bd_frame n ?n1"
    using inv by (simp add: bd_frame_def)
  consider (resolved) "sn_trials sn = 0"
    | (early) "0 < sn_trials sn" "\<not> timer_expired (se_steady env) (sn_timer sn)"
    | (no_stub) "0 < sn_trials sn" "timer_expired (se_steady env) (sn_timer sn)" "\<not> se_stub env"
    | (refused) "0 < sn_trials sn" "timer_expired (se_steady env) (sn_timer sn)" "se_stub env"
        "\<not> gr_status (se_response env)"
    | (greeted) "0 < sn_trials sn" "timer_expired (se_steady env) (sn_timer sn)" "se_stub env"
        "gr_status (se_response env)"
    by blast
  then show ?thesis
  proof cases
    case resolved
    with inv show ?thesis
      by (intro exI[of _ sn] exI[of _ n]) (simp add: bd_static_def)
  next
    case early
    with inv show ?thesis
      by (intro exI[of _ sn] exI[of _ n]) (simp add: bd_static_def)
  next
    case no_stub
    with inv show ?thesis
      by (intro exI[of _ "?kick ?sn1"] exI[of _ n]) (simp add: bd_static_def)
  next
    case refused
    with frame1 show ?thesis
      by (intro exI[of _ "?kick ?sn1"] exI[of _ ?n1]) (auto simp: bd_static_def bd_gets[OF inv] Let_def)
  next
    case greeted
    let ?r = "se_response env"
    obtain r n2 where n2: "bd_addNeighbor (fresh_dynamic (se_threshold env) (se_steady env) True)
        (gr_nickname ?r) (gr_identity ?r) (gr_ipAddressAndPort ?r) ?n1 = Some (r, n2)" "bd_frame ?n1 n2"
      using bd_addNeighbor_inv[OF inv1] ok unfolding response_ok_def by blast
    have greets: "nd_greets n2 = nd_greets ?n1"
      using n2(1) by (rule bd_addNeighbor_greets)
    let ?sn2 = "if r then ?sn1\<lparr>sn_trials := 0\<rparr> else ?sn1"
    have "bd_static env sn n = Some (False, ?kick ?sn2, n2)"
      using greeted n2(1) by (simp add: bd_static_def bd_gets[OF inv] Let_def)
    moreover have "bd_frame n n2"
      using frame1 n2(2) by (rule bd_frame_trans)
    ultimately show ?thesis
      using greeted(1) greets by (intro exI[of _ "?kick ?sn2"] exI[of _ n2]) auto
  qed
qed

lemma bd_statics_inv:
  "node_inv n \<Longrightarrow> \<forall>k. response_ok (se_response (env k)) \<Longrightarrow>
   \<exists>r sns' n'. bd_statics env k sns n = Some (r, sns', n') \<and> bd_frame n n' \<and>
     length sns' = length sns \<and> sum_list (map sn_trials sns') \<le> sum_list (map sn_trials sns) \<and>
     (\<exists>gs. nd_greets n' = nd_greets n @ gs \<and>
        length gs + sum_list (map sn_trials sns') \<le> sum_list (map sn_trials sns))"
proof (induction sns arbitrary: k n)
  case (Cons sn sns)
  show ?case
  proof (cases "bd_stopped n")
    case True
    with Cons.prems show ?thesis
      by auto
  next
    case False
    obtain sn' n1 where s: "bd_static (env k) sn n = Some (sn_trials sn = 0, sn', n1)" "bd_frame n n1"
      "sn_trials sn' \<le> sn_trials sn"
      and g: "nd_greets n1 = nd_greets n \<or> sn_trials sn' < sn_trials sn \<and>
        (\<exists>rq r. nd_greets n1 = nd_greets n @ [(sn_address sn, rq, r)])"
      using bd_static_inv[OF Cons.prems(1)] Cons.prems(2) by blast
    then obtain gs0 where gs0: "nd_greets n1 = nd_greets n @ gs0" "length gs0 + sn_trials sn' \<le> sn_trials sn"
      by fastforce
    have "node_inv n1"
      using s(2) by (simp add: bd_frame_def)
    then obtain r sns' n' gs where t: "bd_statics env (Suc k) sns n1 = Some (r, sns', n')" "bd_frame n1 n'"
      "length sns' = length sns" "sum_list (map sn_trials sns') \<le> sum_list (map sn_trials sns)"
      "nd_greets n' = nd_greets n1 @ gs"
      "length gs + sum_list (map sn_trials sns') \<le> sum_list (map sn_trials sns)"
      using Cons.IH[of n1 "Suc k"] Cons.prems(2) by blast
    have "bd_statics env k (sn # sns) n = Some (sn_trials sn = 0 \<and> r, sn' # sns', n')"
      using False s(1) t(1) by simp
    moreover have "bd_frame n n'"
      using s(2) t(2) by (rule bd_frame_trans)
    ultimately show ?thesis
      using s(3) t(3-6) gs0
      by (intro exI[of _ "sn_trials sn = 0 \<and> r"] exI[of _ "sn' # sns'"] exI[of _ n'] conjI)
        (auto intro!: exI[of _ "gs0 @ gs"])
  qed
qed auto

lemma bd_static_turn_inv:
  assumes "node_inv n" "\<forall>k. response_ok (se_response (env k))"
  shows "\<exists>r n'. bd_static_turn env n = Some (r, n') \<and> bd_frame n n' \<and>
    (\<exists>gs. nd_greets n' = nd_greets n @ gs \<and>
      length gs + sum_list (map sn_trials (mStaticNeighbors n')) \<le>
        sum_list (map sn_trials (mStaticNeighbors n)))"
proof -
  obtain r sns n1 gs where s: "bd_statics env 0 (mStaticNeighbors n) n = Some (r, sns, n1)" "bd_frame n n1"
    "nd_greets n1 = nd_greets n @ gs"
    "length gs + sum_list (map sn_trials sns) \<le> sum_list (map sn_trials (mStaticNeighbors n))"
    using bd_statics_inv[OF assms, of 0 "mStaticNeighbors n"] by blast
  then have "bd_frame n (n1\<lparr>mStaticNeighbors := sns\<rparr>)"
    by (simp add: bd_frame_def)
  with s show ?thesis
    by (auto simp: bd_static_turn_def Let_def)
qed

subsection \<open>A turn over the neighbors found\<close>

lemma bd_frame_calls:
  assumes inv: "node_inv n" and i: "i < node_size n"
  shows "bd_frame n (n\<lparr>nd_calls := nd_calls n @ [(i, HeartbeatRequest k, r)]\<rparr>)"
proof -
  let ?n = "n\<lparr>nd_calls := nd_calls n @ [(i, HeartbeatRequest k, r)]\<rparr>"
  note I = node_invD[OF inv]
  have "ledger ?n j" if "j < node_size n" "address_of n j \<noteq> nd_address n" for j
    using I(8)[OF that] by (simp add: ledger_def)
  moreover have "\<forall>j \<in> keys (nd_calls ?n). j < node_size n"
    using I(7) i by simp
  moreover have "node_size ?n = node_size n" "address_of ?n = address_of n"
    by simp_all
  ultimately have "node_inv ?n"
    unfolding node_inv_def using I(1-6) by simp
  then show ?thesis
    by (simp add: bd_frame_def)
qed

lemma bd_dynamic_inv:
  assumes inv: "node_inv n" and i: "i < node_size n"
  shows "\<exists>dn' n'. bd_dynamic env i dn n = Some (True, dn', n') \<and> bd_frame n n' \<and>
    node_size n' = node_size n \<and> mDynamicNeighbors n' = mDynamicNeighbors n"
proof -
  let ?kick = "\<lambda>d. d\<lparr>dn_trials := dn_trials d - 1, dn_timer := timer_kick (de_kick env) (dn_timer d)\<rparr>"
  let ?dn1 = "if dn_stub dn then dn else dn\<lparr>dn_stub := de_stub env\<rparr>"
  let ?key = "fst (snd (cards (nd_contacts n) ! 0))"
  let ?n1 = "n\<lparr>nd_calls := nd_calls n @ [(i, HeartbeatRequest ?key, hr_status (de_response env))]\<rparr>"
  obtain e where e: "contacts_get i (nd_contacts n) = Some e"
    using contacts_get_some[OF i] by blast
  consider (early) "\<not> timer_expired (de_steady env) (dn_timer dn) \<or> dn_trials dn = 0"
    | (no_stub) "timer_expired (de_steady env) (dn_timer dn)" "dn_trials dn \<noteq> 0" "\<not> dn_stub ?dn1"
    | (call) "timer_expired (de_steady env) (dn_timer dn)" "dn_trials dn \<noteq> 0" "dn_stub ?dn1"
    by blast
  then show ?thesis
  proof cases
    case early
    with inv show ?thesis
      by (intro exI[of _ dn] exI[of _ n]) (auto simp: bd_dynamic_def)
  next
    case no_stub
    with inv e show ?thesis
      by (intro exI[of _ "?kick ?dn1"] exI[of _ n]) (simp add: bd_dynamic_def split: if_splits)
  next
    case call
    define good where "good \<longleftrightarrow> hr_status (de_response env) \<and> hr_identity (de_response env) \<noteq> []"
    let ?x = "if good then ContactsActivate i else ContactsDeactivate i"
    let ?dn2 = "if good then ?dn1\<lparr>dn_trials := inactivityTrials + 1\<rparr> else ?dn1"
    have f1: "bd_frame n ?n1"
      by (rule bd_frame_calls[OF inv i])
    then have inv1: "node_inv ?n1"
      by (simp add: bd_frame_def)
    have "i < node_size ?n1" "?x = ContactsActivate i \<or> ?x = ContactsDeactivate i"
      using i by simp_all
    from node_inv_activate[OF inv1 this] obtain n2 where
      n2: "on_contacts ?x ?n1 = Some (True, n2)" "bd_frame ?n1 n2" "node_size n2 = node_size ?n1"
      "mDynamicNeighbors n2 = mDynamicNeighbors ?n1"
      by blast
    have "bd_dynamic env i dn n = Some (True, ?kick ?dn2, n2)"
      by (cases "dn_stub dn"; cases good) (use call e n2(1) in
        \<open>simp_all add: bd_dynamic_def bd_gets(1)[OF inv] Let_def good_def[symmetric]\<close>)
    moreover have "bd_frame n n2"
      using f1 n2(2) by (rule bd_frame_trans)
    ultimately show ?thesis
      using n2(3,4) by simp
  qed
qed

lemma bd_dynamics_inv:
  "node_inv n \<Longrightarrow> \<forall>i \<in> keys ds. i < node_size n \<Longrightarrow>
   \<exists>ds' n'. bd_dynamics env ds n = Some (ds', n') \<and> bd_frame n n' \<and> node_size n' = node_size n \<and>
     map fst ds' = map fst ds \<and> mDynamicNeighbors n' = mDynamicNeighbors n"
proof (induction ds arbitrary: n)
  case (Cons d ds)
  obtain i dn where d: "d = (i, dn)"
    by (cases d)
  show ?case
  proof (cases "bd_stopped n")
    case True
    with Cons.prems(1) d show ?thesis
      by simp
  next
    case False
    have i: "i < node_size n"
      using Cons.prems(2) d by simp
    obtain dn' n1 where s: "bd_dynamic (env i) i dn n = Some (True, dn', n1)" "bd_frame n n1"
      "node_size n1 = node_size n" "mDynamicNeighbors n1 = mDynamicNeighbors n"
      using bd_dynamic_inv[OF Cons.prems(1) i] by blast
    have "node_inv n1" "\<forall>i \<in> keys ds. i < node_size n1"
      using s(2,3) Cons.prems(2) d by (simp_all add: bd_frame_def)
    from Cons.IH[OF this] obtain ds' n' where t: "bd_dynamics env ds n1 = Some (ds', n')" "bd_frame n1 n'"
      "node_size n' = node_size n1" "map fst ds' = map fst ds" "mDynamicNeighbors n' = mDynamicNeighbors n1"
      by blast
    have "bd_dynamics env (d # ds) n = Some ((i, dn') # ds', n')"
      using False s(1) t(1) d by simp
    moreover have "bd_frame n n'"
      using s(2) t(2) by (rule bd_frame_trans)
    ultimately show ?thesis
      using s(3,4) t(3-5) d by simp
  qed
qed simp

lemma bd_dynamic_turn_inv:
  assumes inv: "node_inv n"
  shows "\<exists>n'. bd_dynamic_turn env n = Some (\<not> bd_stopped n, n') \<and> bd_frame n n'"
proof (cases "bd_stopped n")
  case True
  with inv show ?thesis
    by (simp add: bd_dynamic_turn_def)
next
  case False
  note I = node_invD[OF inv]
  have "\<forall>i \<in> keys (mDynamicNeighbors n). i < node_size n"
    using I(6) by blast
  from bd_dynamics_inv[OF inv this, of env] obtain ds n1 where
    d: "bd_dynamics env (mDynamicNeighbors n) n = Some (ds, n1)" "bd_frame n n1" "node_size n1 = node_size n"
    "map fst ds = map fst (mDynamicNeighbors n)" "mDynamicNeighbors n1 = mDynamicNeighbors n"
    by blast
  have "node_inv n1"
    using d(2) by (simp add: bd_frame_def)
  note inv1 = this
  let ?n = "n1\<lparr>mDynamicNeighbors := ds\<rparr>"
  have fst: "map fst ds = map fst (mDynamicNeighbors n1)"
    using d(4,5) by simp
  then have "keys ds = keys (mDynamicNeighbors n1)"
    by (rule keys_map_fst)
  moreover have "keys_sorted ds"
    unfolding fst by (rule node_invD(5)[OF inv1])
  ultimately have "node_inv ?n"
    using inv1 by (simp add: node_inv_def)
  then have "bd_frame n ?n"
    using d(2) by (simp add: bd_frame_def)
  with False d(1) show ?thesis
    by (simp add: bd_dynamic_turn_def)
qed

end
