(* ===== verification/Services.thy ===== *)
theory Services
  imports Broadcaster_Discovery
begin

text \<open>
  The remote calls: \<open>TTNeighborsServiceChat\<close> and \<open>TTNeighborsServiceDiscovery\<close>, which answer
  them, and \<open>TTNeighborsStub\<close>, which makes them (engine/src).  What gRPC does with a request, that
  is whether it arrives, fails or throws, is a parameter of the stub's functions; a null
  pointer among the arguments of a service is \<open>None\<close> or \<open>False\<close>.

  The lemmas give the answer of each service on each branch, and the round trip of a narration:
  the stream the stub writes is handled as the one request it was made from.
\<close>

subsection \<open>The services\<close>

datatype grpc_status = GRPC_OK | INVALID_ARGUMENT string | UNKNOWN string

text \<open>The checks every service starts with; \<open>None\<close> when all pass.\<close>

definition null_check :: "bool \<Rightarrow> bool \<Rightarrow> string \<Rightarrow> bool \<Rightarrow> grpc_status option" where
  "null_check context request what reply =
     (if \<not> context then Some (INVALID_ARGUMENT ''Context is null!'')
      else if \<not> request then Some (INVALID_ARGUMENT (what @ '' is null!''))
      else if \<not> reply then Some (INVALID_ARGUMENT ''Reply is null!'')
      else None)"

definition handle_failed :: grpc_status where
  "handle_failed = UNKNOWN ''Failed to handle request!''"

text \<open>\<open>Tell\<close>: the status, the identity put into the reply, and the node after it.\<close>

definition service_Tell ::
  "timestamp \<Rightarrow> bool \<Rightarrow> (string \<times> string) option \<Rightarrow> bool \<Rightarrow> node \<Rightarrow>
   (grpc_status \<times> string option \<times> node) option" where
  "service_Tell now context request reply n =
     (case null_check context (request \<noteq> None) ''Request'' reply of
        Some status \<Rightarrow> Some (status, None, n)
      | None \<Rightarrow> do {
          (handled, n1) \<leftarrow> bc_handleTell now (fst (the request)) (snd (the request)) n;
          if handled then let (ident, n2) = bc_getIdentity n1 in Some (GRPC_OK, Some ident, n2)
          else Some (handle_failed, None, n1)
        })"

text \<open>
  \<open>Narrate\<close>: the stream is read to its end, the identity of the last part counts, and all parts
  must have the same identity up to its hash; \<open>std::hash\<close> is the parameter \<open>hasher\<close>.
\<close>

definition service_Narrate ::
  "(string \<Rightarrow> nat) \<Rightarrow> (nat \<Rightarrow> timestamp) \<Rightarrow> bool \<Rightarrow> (string \<times> string) list option \<Rightarrow> bool \<Rightarrow> node \<Rightarrow>
   (grpc_status \<times> string option \<times> node) option" where
  "service_Narrate hasher clock context stream reply n =
     (case null_check context (stream \<noteq> None) ''Stream'' reply of
        Some status \<Rightarrow> Some (status, None, n)
      | None \<Rightarrow>
          let requests = the stream;
              uniqueIds = remdups (map (\<lambda>(ident, m). hasher ident) requests)
          in if length uniqueIds \<noteq> 1
             then Some (INVALID_ARGUMENT ''Wrong number of unique ids!'', None, n)
             else do {
               (handled, n1) \<leftarrow> bc_handleNarrate clock (fst (last requests)) (map snd requests) n;
               if handled then let (ident, n2) = bc_getIdentity n1 in Some (GRPC_OK, Some ident, n2)
               else Some (handle_failed, None, n1)
             })"

definition service_Greet ::
  "int \<Rightarrow> int \<Rightarrow> bool \<Rightarrow> (string \<times> string \<times> string) option \<Rightarrow> bool \<Rightarrow> node \<Rightarrow>
   (grpc_status \<times> (string \<times> string \<times> string) option \<times> node) option" where
  "service_Greet threshold steady context request reply n =
     (case null_check context (request \<noteq> None) ''Request'' reply of
        Some status \<Rightarrow> Some (status, None, n)
      | None \<Rightarrow> do {
          let (nick, ident, address) = the request;
          (handled, n1) \<leftarrow> bd_handleGreet threshold steady nick ident address n;
          if handled then
            let (my_nick, na) = bd_getNickname n1;
                (my_ident, nb) = bd_getIdentity na;
                (my_address, nc) = bd_getIpAddressAndPort nb
            in Some (GRPC_OK, Some (my_nick, my_ident, my_address), nc)
          else Some (handle_failed, None, n1)
        })"

definition service_Heartbeat ::
  "bool \<Rightarrow> string option \<Rightarrow> bool \<Rightarrow> node \<Rightarrow> (grpc_status \<times> string option \<times> node) option" where
  "service_Heartbeat context request reply n =
     (case null_check context (request \<noteq> None) ''Request'' reply of
        Some status \<Rightarrow> Some (status, None, n)
      | None \<Rightarrow> do {
          (handled, n1) \<leftarrow> bd_handleHeartbeat (the request) n;
          if handled then let (ident, n2) = bd_getIdentity n1 in Some (GRPC_OK, Some ident, n2)
          else Some (handle_failed, None, n1)
        })"

subsection \<open>The stub\<close>

text \<open>
  A remote call: \<open>None\<close> when it throws, otherwise the status and the reply.  The reply of a
  call that did not end with \<open>OK\<close> is not read.
\<close>

definition stub_sendTell ::
  "(string \<times> string \<Rightarrow> (grpc_status \<times> 'a) option) \<Rightarrow> string \<Rightarrow> string \<Rightarrow> bool" where
  "stub_sendTell tell ident message =
     (case tell (ident, message) of Some (GRPC_OK, reply) \<Rightarrow> True | _ \<Rightarrow> False)"

text \<open>
  \<open>sendNarrate\<close>: \<open>writer\<close> says whether a writer was created, \<open>write_ok\<close> whether the \<open>k\<close>-th part could
  be written, and \<open>finish\<close> is the status at the end of the parts; \<open>None\<close> for an exception.
\<close>

fun write_parts ::
  "(nat \<Rightarrow> bool option) \<Rightarrow> nat \<Rightarrow> string \<Rightarrow> string list \<Rightarrow> (string \<times> string) list \<times> bool" where
  "write_parts write_ok k ident [] = ([], True)"
| "write_parts write_ok k ident (m # ms) =
     (case write_ok k of
        Some True \<Rightarrow>
          let (parts, ok) = write_parts write_ok (Suc k) ident ms in ((ident, m) # parts, ok)
      | _ \<Rightarrow> ([], False))"

definition stub_sendNarrate ::
  "bool \<Rightarrow> (nat \<Rightarrow> bool option) \<Rightarrow> ((string \<times> string) list \<Rightarrow> grpc_status option) \<Rightarrow>
   string \<Rightarrow> string list \<Rightarrow> bool" where
  "stub_sendNarrate writer write_ok finish ident messages =
     (if \<not> writer then False
      else let (parts, written) = write_parts write_ok 0 ident messages in
        if \<not> written then False
        else case finish parts of Some GRPC_OK \<Rightarrow> True | _ \<Rightarrow> False)"

definition stub_sendGreet ::
  "(string \<times> string \<times> string \<Rightarrow> (grpc_status \<times> string \<times> string \<times> string) option) \<Rightarrow>
   string \<Rightarrow> string \<Rightarrow> string \<Rightarrow> greet_response" where
  "stub_sendGreet greet nick ident address =
     (case greet (nick, ident, address) of
        Some (GRPC_OK, n, i, a) \<Rightarrow> \<lparr>gr_status = True, gr_nickname = n, gr_identity = i, gr_ipAddressAndPort = a\<rparr>
      | _ \<Rightarrow> \<lparr>gr_status = False, gr_nickname = '''', gr_identity = '''', gr_ipAddressAndPort = ''''\<rparr>)"

definition stub_sendHeartbeat ::
  "(string \<Rightarrow> (grpc_status \<times> string) option) \<Rightarrow> string \<Rightarrow> heartbeat_response" where
  "stub_sendHeartbeat heartbeat ident =
     (case heartbeat ident of
        Some (GRPC_OK, i) \<Rightarrow> \<lparr>hr_status = True, hr_identity = i\<rparr>
      | _ \<Rightarrow> \<lparr>hr_status = False, hr_identity = ''''\<rparr>)"

subsection \<open>Lemmas\<close>

lemma bc_getIdentity_inv: "node_inv n \<Longrightarrow> bc_getIdentity n = (fst (snd (cards (nd_contacts n) ! 0)), n)"
  using bc_getIdentity_eq node_inv_size by blast

lemma remdups_constant: "xs \<noteq> [] \<Longrightarrow> \<forall>x \<in> set xs. x = a \<Longrightarrow> remdups xs = [a]"
proof (induction xs)
  case (Cons x xs)
  then show ?case by (cases xs) auto
qed simp

text \<open>A stream of parts with one identity is the request it came from.\<close>

lemma service_Narrate_stream:
  assumes "ms \<noteq> []"
  shows "service_Narrate hasher clock True (Some (map (Pair ident) ms)) True n = do {
      (handled, n1) \<leftarrow> bc_handleNarrate clock ident ms n;
      if handled then let (i, n2) = bc_getIdentity n1 in Some (GRPC_OK, Some i, n2)
      else Some (handle_failed, None, n1)
    }"
proof -
  have "remdups (map (\<lambda>(ident, m). hasher ident) (map (Pair ident) ms)) = [hasher ident]"
    by (rule remdups_constant) (use assms in auto)
  moreover have "fst (last (map (Pair ident) ms)) = ident" "map snd (map (Pair ident) ms) = ms"
    using assms by (simp_all add: last_map comp_def)
  ultimately show ?thesis
    by (simp add: service_Narrate_def null_check_def Let_def del: map_map)
qed

lemma write_parts_all:
  "(\<And>j. write_ok j = Some True) \<Longrightarrow> write_parts write_ok k ident ms = (map (Pair ident) ms, True)"
  by (induction ms arbitrary: k) simp_all

lemma write_parts_written:
  "snd (write_parts write_ok k ident ms) \<Longrightarrow> fst (write_parts write_ok k ident ms) = map (Pair ident) ms"
  by (induction ms arbitrary: k) (auto simp: split_beta Let_def split: option.splits bool.splits)

subsection \<open>Properties\<close>

text \<open>
  C26: when the stub reports a narration as sent, everything went over the stream in order:
  if the service at the other end answers from the parts it read, then it handled exactly the
  identity and the messages the sender had, whatever the hash function.
\<close>

theorem narrate_round_trip:
  assumes "stub_sendNarrate writer write_ok
      (\<lambda>parts. map_option fst (service_Narrate hasher clock True (Some parts) True n)) ident ms"
    and "ms \<noteq> []"
  shows "\<exists>n1. bc_handleNarrate clock ident ms n = Some (True, n1)"
proof -
  obtain parts where w: "write_parts write_ok 0 ident ms = (parts, True)"
    and ok: "map_option fst (service_Narrate hasher clock True (Some parts) True n) = Some GRPC_OK"
    using assms(1) by (auto simp: stub_sendNarrate_def Let_def split_beta prod_eq_iff
        split: if_splits option.splits grpc_status.splits)
  have "parts = map (Pair ident) ms"
    using write_parts_written[of write_ok 0 ident ms] w by simp
  with ok have "map_option fst (service_Narrate hasher clock True (Some (map (Pair ident) ms)) True n) =
      Some GRPC_OK"
    by simp
  then show ?thesis
    unfolding service_Narrate_stream[OF assms(2)]
    by (auto simp: handle_failed_def Let_def split_beta bind_eq_Some_conv split: if_splits)
qed

definition lone_node :: node where
  "lone_node = \<lparr>nd_contacts = init_contacts_handler\<lparr>
       mContacts := [new_handler_entry ''ann'' ''id-ann'' ''10.0.0.1:80''],
       mIdentityMap := [''id-ann'' \<mapsto> 0]\<rparr>,
     nd_chat = init_chat_handler, nd_address = ''10.0.0.1:80'', bc_stopped = False, mNeighbors = [],
     bd_stopped = False, mStaticNeighbors = [], mDynamicNeighbors = [], nd_calls = [], nd_greets = []\<rparr>"

theorem narrate_round_trip_witness:
  "\<exists>n1. bc_handleNarrate (\<lambda>k. 0) ''id-ann'' [''hi'', ''you''] lone_node = Some (True, n1)"
proof (rule narrate_round_trip)
  show "stub_sendNarrate True (\<lambda>k. Some True) (\<lambda>parts. map_option fst
      (service_Narrate length (\<lambda>k. 0) True (Some parts) True lone_node)) ''id-ann'' [''hi'', ''you'']"
    by (simp add: stub_sendNarrate_def service_Narrate_def null_check_def bc_handleNarrate_def
        bc_sender_def lone_node_def contacts_find_def contacts_get_def bc_getIdentity_def Let_def)
qed simp

end
