(* ===== verification/Engine.thy ===== *)
theory Engine
  imports Services
begin

text \<open>
  \<open>TTEngine\<close> (engine/src/TTEngine.cpp): the process that owns the two stores, the broadcasters,
  the services and the text box handler; its constructor, the two callbacks of the text box,
  the supervision loop of \<open>run\<close>, and what a stop does (\<open>TTUtilsStopable\<close>).  \<open>engine_step\<close> is every
  call another thread or a neighbor can make, in any order.

  The lemmas show that these calls keep the node's invariant, so that the contacts and the
  conversations never get out of step and no message the user sent is lost, and which call
  alone can bring the engine down.
\<close>

subsection \<open>State\<close>

text \<open>
  \<open>en_once\<close> is the \<open>once_flag\<close> of the engine; \<open>en_server\<close> and \<open>en_textbox\<close> are the stop flags of
  the server and of the text box handler.
\<close>

record engine =
  en_node :: node
  en_stopped :: bool
  en_once :: bool
  en_server :: bool
  en_textbox :: bool

definition engine_onStop :: "engine \<Rightarrow> engine" where
  "engine_onStop e =
     (let n = en_node e in
      e\<lparr>en_server := True, en_textbox := True,
        en_node := bd_stop (bc_stop (n\<lparr>nd_contacts := contacts_stop (nd_contacts n),
                                      nd_chat := chat_stop (nd_chat n)\<rparr>))\<rparr>)"

text \<open>\<open>stop\<close> of \<open>TTUtilsStopable\<close>: the flag, and \<open>onStop\<close> once.\<close>

definition engine_stop :: "engine \<Rightarrow> engine" where
  "engine_stop e =
     (let e1 = e\<lparr>en_stopped := True\<rparr> in
      if en_once e1 then e1 else engine_onStop (e1\<lparr>en_once := True\<rparr>))"

text \<open>
  The constructor.  The results of the four calls on the stores are ignored.  The static
  neighbors are the addresses of the settings with the port of the network interface.
\<close>

definition new_engine ::
  "string \<Rightarrow> string \<Rightarrow> string \<Rightarrow> string \<Rightarrow> (string \<times> int \<times> int) list \<Rightarrow> timestamp \<Rightarrow> engine option" where
  "new_engine nick ident ip port neighbors now = do {
     let address = ip @ '':'' @ port;
     (r1, c1) \<leftarrow> contacts_create nick ident address init_contacts_handler;
     (r2, c2) \<leftarrow> contacts_select 0 c1;
     (r3, h1) \<leftarrow> chat_create 0 init_chat_handler;
     (r4, h2) \<leftarrow> chat_select now 0 h1;
     Some \<lparr>en_node = \<lparr>nd_contacts = c2, nd_chat = h2, nd_address = address, bc_stopped = False,
             mNeighbors = [], bd_stopped = False,
             mStaticNeighbors = map (\<lambda>(a, threshold, steady).
               fresh_static threshold steady (a @ '':'' @ port)) neighbors,
             mDynamicNeighbors = [], nd_calls = [], nd_greets = []\<rparr>,
           en_stopped = False, en_once = False, en_server = False, en_textbox = False\<rparr>
   }"

subsection \<open>Callbacks and the supervision loop\<close>

definition engine_mailbox ::
  "timestamp \<Rightarrow> chat_neighbor \<Rightarrow> string \<Rightarrow> engine \<Rightarrow> (bool \<times> engine) option" where
  "engine_mailbox now fresh message e = do {
     (r, n) \<leftarrow> bc_handleSend now fresh message (en_node e);
     let e1 = e\<lparr>en_node := n\<rparr>;
     Some (r, if \<not> r then engine_stop e1 else e1)
   }"

definition engine_selection :: "timestamp \<Rightarrow> nat \<Rightarrow> engine \<Rightarrow> (bool \<times> engine) option" where
  "engine_selection now i e =
     (if i < contacts_size (nd_contacts (en_node e)) then do {
        (r1, n1) \<leftarrow> on_contacts (ContactsSelect i) (en_node e);
        (r2, n2) \<leftarrow> on_chat (ChatSelect now i) n1;
        let e1 = e\<lparr>en_node := n2\<rparr>;
        Some (r1 \<and> r2, if \<not> (r1 \<and> r2) then engine_stop e1 else e1)
      } else Some (False, e))"

text \<open>One turn of \<open>run\<close>; \<open>False\<close> when the loop ends.\<close>

definition engine_watch :: "engine \<Rightarrow> bool \<times> engine" where
  "engine_watch e =
     (let n = en_node e;
          stopped = (en_stopped e \<or> en_server e \<or> ch_stopped (nd_contacts n) \<or> th_stopped (nd_chat n) \<or>
            en_textbox e \<or> bc_stopped n \<or> bd_stopped n)
      in if stopped then (False, engine_stop e) else (True, e))"

text \<open>The callbacks of the text box and the requests of neighbors, and the turns of the loops.\<close>

datatype engine_op =
    EngineMailbox timestamp chat_neighbor string
  | EngineSelection timestamp nat
  | EngineTell timestamp string string
  | EngineNarrate "string \<Rightarrow> nat" "nat \<Rightarrow> timestamp" "(string \<times> string) list"
  | EngineGreet int int string string string
  | EngineHeartbeat string
  | EngineChatTurn chat_env
  | EngineStaticTurn "nat \<Rightarrow> static_env"
  | EngineDynamicTurn "nat \<Rightarrow> dynamic_env"

text \<open>A service's answer: whether it is \<open>OK\<close>, and the node after it.\<close>

definition answered :: "(grpc_status \<times> 'a \<times> node) option \<Rightarrow> (bool \<times> node) option" where
  "answered = map_option (\<lambda>(status, reply, n). (status = GRPC_OK, n))"

definition on_node :: "(node \<Rightarrow> (bool \<times> node) option) \<Rightarrow> engine \<Rightarrow> (bool \<times> engine) option" where
  "on_node f e = map_option (\<lambda>(r, n). (r, e\<lparr>en_node := n\<rparr>)) (f (en_node e))"

primrec engine_step :: "engine \<Rightarrow> engine_op \<Rightarrow> (bool \<times> engine) option" where
  "engine_step e (EngineMailbox now fresh message) = engine_mailbox now fresh message e"
| "engine_step e (EngineSelection now i) = engine_selection now i e"
| "engine_step e (EngineTell now ident message) =
     on_node (\<lambda>n. answered (service_Tell now True (Some (ident, message)) True n)) e"
| "engine_step e (EngineNarrate hasher clock parts) =
     on_node (\<lambda>n. answered (service_Narrate hasher clock True (Some parts) True n)) e"
| "engine_step e (EngineGreet threshold steady nick ident address) =
     on_node (\<lambda>n. answered (service_Greet threshold steady True (Some (nick, ident, address)) True n)) e"
| "engine_step e (EngineHeartbeat ident) =
     on_node (\<lambda>n. answered (service_Heartbeat True (Some ident) True n)) e"
| "engine_step e (EngineChatTurn env) = on_node (bc_run_turn env) e"
| "engine_step e (EngineStaticTurn env) = on_node (bd_static_turn env) e"
| "engine_step e (EngineDynamicTurn env) = on_node (bd_dynamic_turn env) e"

text \<open>The nicknames neighbors send must fit a message; longer ones fail an assertion.\<close>

primrec engine_op_ok :: "engine_op \<Rightarrow> bool" where
  "engine_op_ok (EngineMailbox now fresh message) = True"
| "engine_op_ok (EngineSelection now i) = True"
| "engine_op_ok (EngineTell now ident message) = True"
| "engine_op_ok (EngineNarrate hasher clock parts) = True"
| "engine_op_ok (EngineGreet threshold steady nick ident address) =
     (length nick < TTCONTACTS_DATA_MAX_LENGTH)"
| "engine_op_ok (EngineHeartbeat ident) = True"
| "engine_op_ok (EngineChatTurn env) = True"
| "engine_op_ok (EngineStaticTurn env) = (\<forall>k. response_ok (se_response (env k)))"
| "engine_op_ok (EngineDynamicTurn env) = True"

subsection \<open>The invariant\<close>

definition engine_inv :: "engine \<Rightarrow> bool" where
  "engine_inv e \<longleftrightarrow> node_inv (en_node e) \<and> \<not> bd_stopped (en_node e) \<and> \<not> en_stopped e \<and>
     \<not> en_once e \<and> \<not> en_server e \<and> \<not> en_textbox e"

text \<open>The request, if it is one, whose sender is shown as inactive.\<close>

primrec unheard :: "engine_op \<Rightarrow> node \<Rightarrow> bool" where
  "unheard (EngineMailbox now fresh message) n = False"
| "unheard (EngineSelection now i) n = False"
| "unheard (EngineTell now ident message) n = (\<not> heard ident n)"
| "unheard (EngineNarrate hasher clock parts) n =
     (length (remdups (map (\<lambda>(ident, m). hasher ident) parts)) = 1 \<and> \<not> heard (fst (last parts)) n)"
| "unheard (EngineGreet threshold steady nick ident address) n = False"
| "unheard (EngineHeartbeat ident) n = False"
| "unheard (EngineChatTurn env) n = False"
| "unheard (EngineStaticTurn env) n = False"
| "unheard (EngineDynamicTurn env) n = False"

text \<open>What each step does to the node.\<close>

definition node_frame :: "node \<Rightarrow> node \<Rightarrow> bool" where
  "node_frame n n' \<longleftrightarrow> node_inv n' \<and> node_size n \<le> node_size n' \<and> nd_address n' = nd_address n \<and>
     bd_stopped n' = bd_stopped n"

lemma node_frame_bc: "bc_frame n n' \<Longrightarrow> node_frame n n'"
  by (simp add: bc_frame_def node_frame_def)

lemma node_frame_bd: "bd_frame n n' \<Longrightarrow> node_frame n n' \<and> bc_stopped n' = bc_stopped n"
  by (simp add: bd_frame_def node_frame_def)

lemma select_inv:
  assumes inv: "node_inv n" and i: "i < node_size n"
  shows "\<exists>c h. contacts_step (nd_contacts n) (ContactsSelect i) = Some (True, c) \<and>
    chat_step (nd_chat n) (ChatSelect now i) = Some (True, h) \<and>
    node_frame n (n\<lparr>nd_contacts := c, nd_chat := h\<rparr>)"
proof -
  note I = node_invD[OF inv]
  obtain c h where c: "contacts_step (nd_contacts n) (ContactsSelect i) = Some (True, c)"
    and h: "chat_step (nd_chat n) (ChatSelect now i) = Some (True, h)"
    and sync: "pair.sync c h" "mCurrentContact c = Some i" "contacts_size c = contacts_size (nd_contacts n)"
    using pair.select_both[OF I(1) i[unfolded node_size_def]] by blast
  let ?n = "n\<lparr>nd_contacts := c, nd_chat := h\<rparr>"
  have "cards c = cards (nd_contacts n)"
    using contacts_step_cards[OF c] by simp
  then have frames: "node_size ?n = node_size n" "address_of ?n = address_of n"
    using sync(3) by (simp_all add: node_size_def address_of_def fun_eq_iff)
  have "own_talks h = own_talks (nd_chat n)"
    by (rule own_talks_same[OF h]) simp_all
  then have "ledger ?n j = ledger n j" for j
    by (simp add: ledger_def)
  then have "node_inv ?n"
    unfolding node_inv_def frames using sync(1,2) inv by (simp add: node_inv_def)
  then show ?thesis
    using c h frames by (simp add: node_frame_def)
qed

lemma service_Tell_inv:
  assumes "node_inv n"
  shows "\<exists>r n'. answered (service_Tell now True (Some (ident, m)) True n) = Some (r, n') \<and>
    node_frame n n' \<and> bc_stopped n' = (bc_stopped n \<or> \<not> heard ident n)"
proof -
  obtain r n' where t: "bc_handleTell now ident m n = Some (r, n')" "bc_frame n n'"
    "bc_stopped n' = (bc_stopped n \<or> \<not> heard ident n)"
    using bc_handleTell_inv[OF assms] by blast
  then have "node_inv n'"
    by (simp add: bc_frame_def)
  with t node_frame_bc[OF t(2)] show ?thesis
    by (cases r) (simp_all add: answered_def service_Tell_def null_check_def bc_getIdentity_inv)
qed

lemma service_Narrate_inv:
  assumes "node_inv n"
  shows "\<exists>r n'. answered (service_Narrate hasher clock True (Some parts) True n) = Some (r, n') \<and>
    node_frame n n' \<and> bc_stopped n' = (bc_stopped n \<or> unheard (EngineNarrate hasher clock parts) n)"
proof (cases "length (remdups (map (\<lambda>(ident, m). hasher ident) parts)) = 1")
  case False
  then have "answered (service_Narrate hasher clock True (Some parts) True n) = Some (False, n)"
    by (simp add: answered_def service_Narrate_def null_check_def Let_def)
  with False node_frame_bc[OF bc_frame_refl[OF assms]] show ?thesis
    by simp
next
  case True
  obtain r n' where t: "bc_handleNarrate clock (fst (last parts)) (map snd parts) n = Some (r, n')"
    "bc_frame n n'" "bc_stopped n' = (bc_stopped n \<or> \<not> heard (fst (last parts)) n)"
    using bc_handleNarrate_inv[OF assms] by blast
  then have "node_inv n'"
    by (simp add: bc_frame_def)
  with t node_frame_bc[OF t(2)] True show ?thesis
    by (cases r) (simp_all add: answered_def service_Narrate_def null_check_def bc_getIdentity_inv Let_def)
qed

lemma service_Greet_inv:
  assumes "node_inv n" "length nick < TTCONTACTS_DATA_MAX_LENGTH"
  shows "\<exists>r n'. answered (service_Greet threshold steady True (Some (nick, ident, address)) True n) =
    Some (r, n') \<and> node_frame n n' \<and> bc_stopped n' = bc_stopped n"
proof -
  obtain r n' where t: "bd_handleGreet threshold steady nick ident address n = Some (r, n')" "bd_frame n n'"
    using bd_addNeighbor_inv[OF assms] unfolding bd_handleGreet_def by blast
  then have "node_inv n'"
    by (simp add: bd_frame_def)
  with t node_frame_bd[OF t(2)] show ?thesis
    by (cases r) (simp_all add: answered_def service_Greet_def null_check_def bd_gets handle_failed_def)
qed

lemma service_Heartbeat_inv:
  assumes "node_inv n"
  shows "\<exists>r n'. answered (service_Heartbeat True (Some ident) True n) = Some (r, n') \<and>
    node_frame n n' \<and> bc_stopped n' = bc_stopped n"
proof -
  obtain r n' where t: "bd_handleHeartbeat ident n = Some (r, n')" "bd_frame n n'"
    using bd_handleHeartbeat_inv[OF assms] by blast
  then have "node_inv n'"
    by (simp add: bd_frame_def)
  with t node_frame_bd[OF t(2)] show ?thesis
    by (cases r) (simp_all add: answered_def service_Heartbeat_def null_check_def bd_gets handle_failed_def)
qed

text \<open>Steps that only touch the node.\<close>

lemma on_node_inv:
  assumes "engine_inv e" "\<exists>r n'. f (en_node e) = Some (r, n') \<and> node_frame (en_node e) n' \<and>
    bc_stopped n' = (bc_stopped (en_node e) \<or> u)"
  shows "\<exists>r e'. on_node f e = Some (r, e') \<and> engine_inv e' \<and>
    bc_stopped (en_node e') = (bc_stopped (en_node e) \<or> u)"
  using assms by (auto simp: on_node_def engine_inv_def node_frame_def)

lemma engine_step_inv:
  assumes inv: "engine_inv e" and ok: "engine_op_ok x"
  shows "\<exists>r e'. engine_step e x = Some (r, e') \<and> engine_inv e' \<and>
    bc_stopped (en_node e') = (bc_stopped (en_node e) \<or> unheard x (en_node e))"
proof -
  let ?n = "en_node e"
  have n: "node_inv ?n"
    using inv by (simp add: engine_inv_def)
  show ?thesis
  proof (cases x)
    case (EngineMailbox now fresh m)
    obtain n' where "bc_handleSend now fresh m ?n = Some (True, n')" "bc_frame ?n n'"
      "bc_stopped n' = bc_stopped ?n"
      using bc_handleSend_inv[OF n] by blast
    with inv EngineMailbox show ?thesis
      by (auto simp: engine_mailbox_def engine_inv_def bc_frame_def)
  next
    case (EngineSelection now i)
    show ?thesis
    proof (cases "i < node_size ?n")
      case True
      obtain c h where "contacts_step (nd_contacts ?n) (ContactsSelect i) = Some (True, c)"
        "chat_step (nd_chat ?n) (ChatSelect now i) = Some (True, h)"
        "node_frame ?n (?n\<lparr>nd_contacts := c, nd_chat := h\<rparr>)"
        using select_inv[OF n True] by blast
      with inv EngineSelection True show ?thesis
        by (auto simp: engine_selection_def on_contacts_def on_chat_def engine_inv_def node_frame_def
            node_size_def)
    next
      case False
      with inv EngineSelection show ?thesis
        by (auto simp: engine_selection_def node_size_def)
    qed
  next
    case (EngineTell now ident m)
    from on_node_inv[OF inv, of "\<lambda>n. answered (service_Tell now True (Some (ident, m)) True n)" "\<not> heard ident ?n"] service_Tell_inv[OF n, of now ident m] EngineTell show ?thesis
      by simp
  next
    case (EngineNarrate hasher clock parts)
    from on_node_inv[OF inv, of "\<lambda>n. answered (service_Narrate hasher clock True (Some parts) True n)" "unheard x ?n"] service_Narrate_inv[OF n, of hasher clock parts] EngineNarrate show ?thesis
      by simp
  next
    case (EngineGreet threshold steady nick ident address)
    then have "length nick < TTCONTACTS_DATA_MAX_LENGTH"
      using ok by simp
    from on_node_inv[OF inv, of "\<lambda>n. answered (service_Greet threshold steady True
        (Some (nick, ident, address)) True n)" False] service_Greet_inv[OF n this] EngineGreet
    show ?thesis by simp
  next
    case (EngineHeartbeat ident)
    from on_node_inv[OF inv, of "\<lambda>n. answered (service_Heartbeat True (Some ident) True n)" "False"] service_Heartbeat_inv[OF n, of ident] EngineHeartbeat show ?thesis
      by simp
  next
    case (EngineChatTurn env)
    have "\<exists>r n'. bc_run_turn env ?n = Some (r, n') \<and> node_frame ?n n' \<and> bc_stopped n' = bc_stopped ?n"
      using bc_run_turn_inv[OF n] node_frame_bc by fastforce
    with on_node_inv[OF inv, of "bc_run_turn env" False] EngineChatTurn show ?thesis by simp
  next
    case (EngineStaticTurn env)
    then have ok: "\<forall>k. response_ok (se_response (env k))"
      using ok by simp
    have "\<exists>r n'. bd_static_turn env ?n = Some (r, n') \<and> node_frame ?n n' \<and> bc_stopped n' = bc_stopped ?n"
      using bd_static_turn_inv[OF n ok] node_frame_bd by blast
    with on_node_inv[OF inv, of "bd_static_turn env" False] EngineStaticTurn show ?thesis by simp
  next
    case (EngineDynamicTurn env)
    have "\<exists>r n'. bd_dynamic_turn env ?n = Some (r, n') \<and> node_frame ?n n' \<and> bc_stopped n' = bc_stopped ?n"
      using bd_dynamic_turn_inv[OF n] node_frame_bd by blast
    with on_node_inv[OF inv, of "bd_dynamic_turn env" False] EngineDynamicTurn show ?thesis by simp
  qed
qed

interpretation eng: machine engine_step engine_inv engine_op_ok
proof
  fix e x assume "engine_inv e" "engine_op_ok x"
  then show "\<exists>r e'. engine_step e x = Some (r, e') \<and> engine_inv e'"
    using engine_step_inv by blast
qed

subsection \<open>The engine after its construction\<close>

lemma sync_init: "pair.sync init_contacts_handler init_chat_handler"
  by (simp add: pair.sync_def contacts_inv_init chat_inv_init)
    (simp add: init_contacts_handler_def init_chat_handler_def contacts_size_def chat_length_def)

lemma new_engine_inv:
  assumes "length nick < TTCONTACTS_DATA_MAX_LENGTH"
  shows "\<exists>e. new_engine nick ident ip port neighbors now = Some e \<and> engine_inv e \<and>
    \<not> bc_stopped (en_node e) \<and> nd_address (en_node e) = ip @ '':'' @ port \<and>
    cards (nd_contacts (en_node e)) = [(nick, ident, ip @ '':'' @ port)]"
proof -
  let ?a = "ip @ '':'' @ port"
  have "contacts_size init_contacts_handler = 0"
    by (simp add: contacts_size_def init_contacts_handler_def)
  then obtain c1 h1 where c1: "contacts_step init_contacts_handler (ContactsCreate nick ident ?a) = Some (True, c1)"
    and h1: "chat_step init_chat_handler (ChatCreate 0) = Some (True, h1)"
    and s1: "pair.sync c1 h1" "contacts_size c1 = Suc 0"
    using pair.create_both[OF sync_init, of nick ident ?a] assms by auto
  then obtain c2 h2 where c2: "contacts_step c1 (ContactsSelect 0) = Some (True, c2)"
    and h2: "chat_step h1 (ChatSelect now 0) = Some (True, h2)"
    and s2: "pair.sync c2 h2" "mCurrentContact c2 = Some 0" "contacts_size c2 = contacts_size c1"
    using pair.select_both[OF s1(1), of 0 now] by auto
  let ?n = "\<lparr>nd_contacts = c2, nd_chat = h2, nd_address = ?a, bc_stopped = False,
     mNeighbors = [], bd_stopped = False,
     mStaticNeighbors = map (\<lambda>(a, threshold, steady).
       fresh_static threshold steady (a @ '':'' @ port)) neighbors,
     mDynamicNeighbors = [], nd_calls = [], nd_greets = []\<rparr>"
  have cards: "cards c2 = [(nick, ident, ?a)]"
    using contacts_step_cards[OF c2] contacts_step_create(1)[OF c1]
    by (simp add: cards_def init_contacts_handler_def)
  then have addr: "address_of ?n 0 = ?a"
    by (simp add: address_of_def)
  have size: "node_size ?n = Suc 0"
    using s1(2) s2(3) by (simp add: node_size_def)
  have "node_inv ?n"
    unfolding node_inv_def size using s2 addr by simp
  then have inv: "engine_inv \<lparr>en_node = ?n, en_stopped = False, en_once = False,
      en_server = False, en_textbox = False\<rparr>"
    by (simp add: engine_inv_def)
  have "new_engine nick ident ip port neighbors now = Some \<lparr>en_node = ?n, en_stopped = False,
      en_once = False, en_server = False, en_textbox = False\<rparr>"
    using c1 h1 c2 h2 by (simp add: new_engine_def)
  with inv cards show ?thesis
    by simp
qed

lemma engine_run_inv:
  assumes "length nick < TTCONTACTS_DATA_MAX_LENGTH" "list_all engine_op_ok xs"
  shows "\<exists>e0 rs e. new_engine nick ident ip port neighbors now = Some e0 \<and>
    run_ops engine_step e0 xs = Some (rs, e) \<and> engine_inv e0 \<and> engine_inv e \<and> \<not> bc_stopped (en_node e0)"
  using new_engine_inv[OF assms(1)] eng.run_total[OF _ assms(2)] by blast




subsection \<open>Properties\<close>



text \<open>
  C5: no message the user sends is lost, repeated or reordered on its way out: at any
  time, for any contact at another address, the texts the user sent in its conversation are
  those of the successful \<open>Tell\<close> and \<open>Narrate\<close> calls to it, in order, followed by those pending.
\<close>

theorem engine_ledger:
  assumes "length nick < TTCONTACTS_DATA_MAX_LENGTH" "list_all engine_op_ok xs"
    and "new_engine nick ident ip port neighbors now = Some e0"
    and "run_ops engine_step e0 xs = Some (rs, e)"
    and "contacts_get i (nd_contacts (en_node e)) = Some entry"
    and "ipAddressAndPort entry \<noteq> nd_address (en_node e)"
  shows "map te_data (filter (\<lambda>t. te_type t = SENDER) (mMessages (nd_chat (en_node e)) ! i)) =
    delivered i (nd_calls (en_node e)) @ pending_for i (mNeighbors (en_node e))"
proof -
  have "node_inv (en_node e)"
    using engine_run_inv[OF assms(1,2), of ident ip port neighbors now] assms(3,4)
    by (auto simp: engine_inv_def)
  note I = node_invD[OF this]
  have i: "i < node_size (en_node e)" "address_of (en_node e) i \<noteq> nd_address (en_node e)"
    using address_of_get[OF assms(5)] assms(6) by simp_all
  then have "i < length (mMessages (nd_chat (en_node e)))"
    using sync_length[OF I(1)] by (simp add: node_size_def contacts_size_def)
  with I(8)[OF i] show ?thesis
    by (simp add: ledger_def own_talks_def)
qed

text \<open>A run in which the host finds a neighbor, selects it and writes to it.\<close>

definition sample_ops :: "engine_op list" where
  "sample_ops = [EngineGreet 5000 0 ''bob'' ''id-bob'' ''10.0.0.2:80'', EngineSelection 1 1,
     EngineMailbox 2 (fresh_neighbor True 3000 0) ''hi'', EngineChatTurn (\<lambda>i. (9000000000, 9000000001, True, True)),
     EngineMailbox 3 (fresh_neighbor True 3000 0) ''you'']"

definition sample_engine :: "engine option" where
  "sample_engine = new_engine ''ann'' ''id-ann'' ''10.0.0.1'' ''80'' [] 0"

lemma sample_run:
  "case sample_engine of None \<Rightarrow> False | Some e0 \<Rightarrow>
     (case run_ops engine_step e0 sample_ops of None \<Rightarrow> False | Some (rs, e) \<Rightarrow>
       (case contacts_get 1 (nd_contacts (en_node e)) of None \<Rightarrow> False | Some entry \<Rightarrow>
          ipAddressAndPort entry \<noteq> nd_address (en_node e) \<and>
          delivered 1 (nd_calls (en_node e)) = [''hi''] \<and>
          pending_for 1 (mNeighbors (en_node e)) = [''you'']))"
  by code_simp

theorem engine_ledger_witness:
  "\<exists>e :: engine. map te_data (filter (\<lambda>t. te_type t = SENDER) (mMessages (nd_chat (en_node e)) ! 1)) =
    [''hi'', ''you'']"
proof -
  obtain e0 rs e entry where e0: "new_engine ''ann'' ''id-ann'' ''10.0.0.1'' ''80'' [] 0 = Some e0"
    and run: "run_ops engine_step e0 sample_ops = Some (rs, e)"
    and entry: "contacts_get 1 (nd_contacts (en_node e)) = Some entry"
      "ipAddressAndPort entry \<noteq> nd_address (en_node e)"
    and sent: "delivered 1 (nd_calls (en_node e)) = [''hi'']"
      "pending_for 1 (mNeighbors (en_node e)) = [''you'']"
    using sample_run unfolding sample_engine_def by (auto split: option.splits)
  have "list_all engine_op_ok sample_ops"
    by (simp add: sample_ops_def TTCONTACTS_DATA_MAX_LENGTH_def)
  moreover have "length ''ann'' < TTCONTACTS_DATA_MAX_LENGTH"
    by (simp add: TTCONTACTS_DATA_MAX_LENGTH_def)
  ultimately have "map te_data (filter (\<lambda>t. te_type t = SENDER) (mMessages (nd_chat (en_node e)) ! 1)) =
      delivered 1 (nd_calls (en_node e)) @ pending_for 1 (mNeighbors (en_node e))"
    using engine_ledger[OF _ _ e0 run entry] by blast
  then show ?thesis
    unfolding sent append.simps by (rule exI[of _ e])
qed



text \<open>
  The first stop of the engine reaches every part of it, in whatever state they are,
  and a second stop changes nothing: \<open>onStop\<close> runs once.
\<close>

theorem engine_stop_everything:
  assumes "\<not> en_once e"
  shows "en_stopped (engine_stop e) \<and> en_server (engine_stop e) \<and> en_textbox (engine_stop e) \<and>
    ch_stopped (nd_contacts (en_node (engine_stop e))) \<and> th_stopped (nd_chat (en_node (engine_stop e))) \<and>
    bc_stopped (en_node (engine_stop e)) \<and> bd_stopped (en_node (engine_stop e)) \<and>
    engine_stop (engine_stop e) = engine_stop e"
  using assms
  by (simp add: engine_stop_def engine_onStop_def Let_def contacts_stop_def chat_stop_def bc_stop_def
      bd_stop_def)

theorem engine_stop_everything_witness:
  "let e = \<lparr>en_node = lone_node, en_stopped = False, en_once = False, en_server = False,
     en_textbox = False\<rparr>
   in en_stopped (engine_stop e) \<and> bd_stopped (en_node (engine_stop e)) \<and>
     engine_stop (engine_stop e) = engine_stop e"
  unfolding Let_def using engine_stop_everything[of "\<lparr>en_node = lone_node, en_stopped = False,
    en_once = False, en_server = False, en_textbox = False\<rparr>"] by simp

text \<open>
  A request of a contact shown as inactive brings the whole engine down: its \<open>Tell\<close> is
  answered with an error, and the next turn of the supervision loop stops everything.
\<close>

theorem engine_tell_inactive:
  assumes "engine_inv e" "contacts_find ident (nd_contacts (en_node e)) = Some i"
    and "contacts_get i (nd_contacts (en_node e)) = Some entry"
    and "ipAddressAndPort entry \<noteq> nd_address (en_node e)" "isInactive (state entry)"
  shows "\<exists>e1. engine_step e (EngineTell now ident message) = Some (False, e1) \<and>
    engine_watch e1 = (False, engine_stop e1)"
proof -
  let ?n = "en_node e"
  have n: "node_inv ?n"
    using assms(1) by (simp add: engine_inv_def)
  have i: "address_of ?n i \<noteq> nd_address ?n"
    using address_of_get[OF assms(3)] assms(4) by simp
  have "mContacts (nd_contacts ?n) ! i = entry"
    using assms(3) by (auto simp: contacts_get_def split: if_splits)
  then have not_heard: "\<not> heard ident ?n"
    using assms(2,5) i by (simp add: heard_def contacts_online_def isInactive_def)
  obtain n' where t: "bc_handleTell now ident message ?n = Some (False, n')" "bc_stopped n'"
    using bc_handleTell_inv[OF n, of now ident message] not_heard by auto
  let ?e1 = "e\<lparr>en_node := n'\<rparr>"
  have "engine_step e (EngineTell now ident message) = Some (False, ?e1)"
    using t(1) by (simp add: on_node_def answered_def service_Tell_def null_check_def handle_failed_def)
  moreover have "engine_watch ?e1 = (False, engine_stop ?e1)"
    using t(2) by (simp add: engine_watch_def Let_def)
  ultimately show ?thesis
    by blast
qed

text \<open>A run in which a neighbor is found and does not answer.\<close>

definition silent_ops :: "engine_op list" where
  "silent_ops = [EngineGreet 5000 0 ''bob'' ''id-bob'' ''10.0.0.2:80'',
     EngineDynamicTurn (\<lambda>i. \<lparr>de_steady = 9000000000, de_stub = True,
       de_response = \<lparr>hr_status = False, hr_identity = ''''\<rparr>, de_kick = 9000000000\<rparr>)]"

lemma silent_run:
  "case sample_engine of None \<Rightarrow> False | Some e0 \<Rightarrow>
     (case run_ops engine_step e0 silent_ops of None \<Rightarrow> False | Some (rs, e) \<Rightarrow>
       contacts_find ''id-bob'' (nd_contacts (en_node e)) = Some 1 \<and>
       (case contacts_get 1 (nd_contacts (en_node e)) of None \<Rightarrow> False | Some entry \<Rightarrow>
          ipAddressAndPort entry \<noteq> nd_address (en_node e) \<and> isInactive (state entry)))"
  by code_simp

theorem engine_tell_inactive_witness:
  "\<exists>e e1. engine_step e (EngineTell 7 ''id-bob'' ''hi'') = Some (False, e1) \<and>
    engine_watch e1 = (False, engine_stop e1)"
proof -
  obtain e0 rs e entry where e0: "new_engine ''ann'' ''id-ann'' ''10.0.0.1'' ''80'' [] 0 = Some e0"
    and run: "run_ops engine_step e0 silent_ops = Some (rs, e)"
    and found: "contacts_find ''id-bob'' (nd_contacts (en_node e)) = Some 1"
      "contacts_get 1 (nd_contacts (en_node e)) = Some entry"
      "ipAddressAndPort entry \<noteq> nd_address (en_node e)" "isInactive (state entry)"
    using silent_run unfolding sample_engine_def by (auto split: option.splits)
  have ok: "list_all engine_op_ok silent_ops"
    by (simp add: silent_ops_def TTCONTACTS_DATA_MAX_LENGTH_def)
  have "length ''ann'' < TTCONTACTS_DATA_MAX_LENGTH"
    by (simp add: TTCONTACTS_DATA_MAX_LENGTH_def)
  from engine_run_inv[OF this ok, of "''id-ann''" "''10.0.0.1''" "''80''" "[]" 0] have "engine_inv e"
    unfolding e0 option.inject using run by auto
  from engine_tell_inactive[OF this found] show ?thesis
    by blast
qed

end
