(* ===== verification/Inbox.thy ===== *)
theory Inbox
  imports Engine
begin

text \<open>
  The other end of the ledger: what the engine stores of the messages its neighbors send.  Of
  everything an engine does (Engine), only the handling of a \<open>Tell\<close> or a \<open>Narrate\<close> adds a received
  text to a conversation, and it adds to the sender's conversation what the request carries, in order.
\<close>

subsection \<open>Received texts\<close>

definition heard_texts :: "chat_handler \<Rightarrow> nat \<Rightarrow> string list" where
  "heard_texts h i =
     (if i < length (mMessages h)
      then map te_data (filter (\<lambda>e. te_type e = RECEIVER) (mMessages h ! i)) else [])"

lemma heard_texts_frame [simp]:
  "heard_texts (h\<lparr>th_queue := q\<rparr>) = heard_texts h"
  "heard_texts (h\<lparr>mCurrentId := c\<rparr>) = heard_texts h"
  "heard_texts (h\<lparr>th_stopped := b\<rparr>) = heard_texts h"
  by (simp_all add: heard_texts_def fun_eq_iff)

lemma heard_texts_store:
  "i < length (mMessages h) \<Longrightarrow>
   heard_texts (h\<lparr>mMessages := (mMessages h)[i := mMessages h ! i @ [e]]\<rparr>) =
     (heard_texts h)(i := heard_texts h i @ (if te_type e = RECEIVER then [te_data e] else []))"
  by (auto simp: heard_texts_def fun_eq_iff nth_list_update)

lemma heard_texts_create:
  "heard_texts (h\<lparr>mMessages := mMessages h @ [[]]\<rparr>) = heard_texts h"
  by (auto simp: heard_texts_def fun_eq_iff nth_append)

lemma heard_texts_receive:
  "chat_step h (ChatReceive i m t) = Some (r, h') \<Longrightarrow>
   heard_texts h' = (heard_texts h)(i := heard_texts h i @ (if r then [m] else []))"
  by (auto simp: chat_receive_eq heard_texts_store Let_def split: if_splits)

primrec receives :: "chat_op \<Rightarrow> bool" where
  "receives (ChatSend i m t) = False"
| "receives (ChatReceive i m t) = True"
| "receives (ChatSelect t i) = False"
| "receives (ChatCreate i) = False"
| "receives (ChatHeartbeat t) = False"
| "receives ChatStop = False"

lemma heard_texts_same:
  assumes "chat_step h x = Some (r, h')" "\<not> receives x"
  shows "heard_texts h' = heard_texts h"
  using assms
  by (cases x) (auto simp: chat_send_eq chat_select_eq chat_create_def chat_queue_data_eq chat_stop_def
      heard_texts_store heard_texts_create Let_def split: if_splits)

subsection \<open>Operations that receive nothing\<close>

definition node_heard :: "node \<Rightarrow> nat \<Rightarrow> string list" where
  "node_heard n = heard_texts (nd_chat n)"

lemma node_heard_frame [simp]:
  "node_heard (bc_stop n) = node_heard n" "node_heard (bd_stop n) = node_heard n"
  "node_heard (n\<lparr>mNeighbors := xs\<rparr>) = node_heard n"
  "node_heard (n\<lparr>mDynamicNeighbors := ds\<rparr>) = node_heard n"
  "node_heard (n\<lparr>mStaticNeighbors := ss\<rparr>) = node_heard n"
  "node_heard (n\<lparr>nd_calls := cs\<rparr>) = node_heard n" "node_heard (n\<lparr>nd_greets := gs\<rparr>) = node_heard n"
  by (simp_all add: node_heard_def bc_stop_def bd_stop_def)

lemma on_contacts_heard: "on_contacts x n = Some (r, n') \<Longrightarrow> node_heard n' = node_heard n"
  by (auto simp: on_contacts_def node_heard_def)

lemma on_chat_heard: "on_chat x n = Some (r, n') \<Longrightarrow> \<not> receives x \<Longrightarrow> node_heard n' = node_heard n"
  by (auto simp: on_chat_def node_heard_def dest: heard_texts_same)

lemma gets_heard:
  "node_heard (snd (bc_getIdentity n)) = node_heard n" "node_heard (snd (bd_getIdentity n)) = node_heard n"
  "node_heard (snd (bd_getNickname n)) = node_heard n"
  "node_heard (snd (bd_getIpAddressAndPort n)) = node_heard n"
  by (simp_all add: bc_getIdentity_def bd_getIdentity_def bd_getNickname_def
      bd_getIpAddressAndPort_def split: option.splits)

lemmas heard_calls = on_contacts_heard on_chat_heard

lemma bc_handleSend_heard: "bc_handleSend now fresh m n = Some (r, n') \<Longrightarrow> node_heard n' = node_heard n"
  by (auto simp: bc_handleSend_def bc_fail_def bind_eq_Some_conv dest!: heard_calls
      split: option.splits if_splits)

lemma bd_addNeighbor_heard:
  "bd_addNeighbor fresh nick ident a n = Some (r, n') \<Longrightarrow> node_heard n' = node_heard n"
  by (auto simp: bd_addNeighbor_def bd_fail_def bind_eq_Some_conv dest!: heard_calls
      split: option.splits if_splits)

lemma bd_handleHeartbeat_heard:
  "bd_handleHeartbeat ident n = Some (r, n') \<Longrightarrow> node_heard n' = node_heard n"
  by (auto simp: bd_handleHeartbeat_def bd_fail_def bind_eq_Some_conv dest!: heard_calls
      split: option.splits if_splits)

lemma bc_neighbor_heard:
  assumes "bc_neighbor env i nb n = Some (nb', n')"
  shows "node_heard n' = node_heard n"
proof -
  have "node_heard n1 = node_heard n" if "bc_getIdentity n = (ident, n1)" for ident n1
    using gets_heard(1)[of n] that by simp
  with assms show ?thesis
    by (auto simp: bc_neighbor_def bc_call_def Let_def split: prod.splits option.splits if_splits)
qed

lemma bc_neighbors_heard: "bc_neighbors env xs n = Some (ys, n') \<Longrightarrow> node_heard n' = node_heard n"
proof (induction xs arbitrary: n ys)
  case (Cons x xs)
  show ?case
  proof (cases "bc_stopped n")
    case False
    obtain i nb where x: "x = (i, nb)"
      by (cases x)
    then obtain nb' n1 zs where "bc_neighbor (env i) i nb n = Some (nb', n1)"
      "bc_neighbors env xs n1 = Some (zs, n')"
      using Cons.prems False by (auto simp: bind_eq_Some_conv)
    with bc_neighbor_heard[of "env i" i nb n nb' n1] Cons.IH[of n1 zs] show ?thesis
      by simp
  qed (use Cons.prems in \<open>cases x; simp\<close>)
qed simp

lemma bc_run_turn_heard: "bc_run_turn env n = Some (r, n') \<Longrightarrow> node_heard n' = node_heard n"
  by (auto simp: bc_run_turn_def bind_eq_Some_conv dest: bc_neighbors_heard split: if_splits)

lemma bd_static_heard:
  assumes "bd_static env sn n = Some (r, sn', n')"
  shows "node_heard n' = node_heard n"
proof -
  obtain nick na ident nb a nc where g: "bd_getNickname n = (nick, na)" "bd_getIdentity na = (ident, nb)"
    "bd_getIpAddressAndPort nb = (a, nc)"
    by (metis surj_pair)
  have "node_heard nc = node_heard n"
    using gets_heard(2)[of na] gets_heard(3)[of n] gets_heard(4)[of nb] g by simp
  with assms g show ?thesis
    by (auto simp: bd_static_def bind_eq_Some_conv Let_def dest!: bd_addNeighbor_heard
        split: if_splits)
qed

lemma bd_statics_heard: "bd_statics env k sns n = Some (r, sns', n') \<Longrightarrow> node_heard n' = node_heard n"
  by (induction sns arbitrary: k n r sns')
    (auto simp: bind_eq_Some_conv dest: bd_static_heard split: if_splits)

lemma bd_static_turn_heard: "bd_static_turn env n = Some (r, n') \<Longrightarrow> node_heard n' = node_heard n"
  by (auto simp: bd_static_turn_def bind_eq_Some_conv Let_def dest: bd_statics_heard)

lemma bd_dynamic_heard:
  assumes "bd_dynamic env i dn n = Some (r, dn', n')"
  shows "node_heard n' = node_heard n"
proof -
  obtain ident na where g: "bd_getIdentity n = (ident, na)"
    by fastforce
  then have na: "node_heard (na\<lparr>nd_calls := cs\<rparr>) = node_heard n" for cs
    using gets_heard(2)[of n] by simp
  have call: "node_heard n1 = node_heard n" if "on_contacts x (na\<lparr>nd_calls := cs\<rparr>) = Some (r1, n1)" for x cs r1 n1
    using on_contacts_heard[OF that] na by simp
  show ?thesis
  proof (cases "timer_expired (de_steady env) (dn_timer dn) \<and> dn_trials dn \<noteq> 0")
    case True
    with assms g call show ?thesis
      unfolding bd_dynamic_def Let_def
      by (simp add: bind_eq_Some_conv split: option.splits if_splits) (auto dest: call)+
  next
    case False
    with assms show ?thesis
      by (auto simp: bd_dynamic_def split: if_splits)
  qed
qed

lemma bd_dynamics_heard: "bd_dynamics env ds n = Some (ds', n') \<Longrightarrow> node_heard n' = node_heard n"
proof (induction ds arbitrary: n ds')
  case (Cons d ds)
  show ?case
  proof (cases d)
    case (Pair i dn)
    show ?thesis
    proof (cases "bd_stopped n")
      case False
      then obtain c dn' n1 where s: "bd_dynamic (env i) i dn n = Some (c, dn', n1)"
        using Cons.prems Pair by (auto simp: bind_eq_Some_conv)
      with Cons.prems Pair False have "n' = n1 \<or> (\<exists>ds1. bd_dynamics env ds n1 = Some (ds1, n'))"
        by (auto simp: bind_eq_Some_conv split: if_splits)
      with bd_dynamic_heard[OF s] Cons.IH[of n1] show ?thesis
        by auto
    qed (use Cons.prems Pair in simp)
  qed
qed simp

lemma bd_dynamic_turn_heard: "bd_dynamic_turn env n = Some (r, n') \<Longrightarrow> node_heard n' = node_heard n"
  by (auto simp: bd_dynamic_turn_def bind_eq_Some_conv dest: bd_dynamics_heard split: if_splits)

subsection \<open>The two operations that receive\<close>

text \<open>Is \<open>ident\<close> the identity of contact \<open>i\<close>, and that contact at another address than the host?\<close>

definition comes_from :: "string \<Rightarrow> nat \<Rightarrow> node \<Rightarrow> bool" where
  "comes_from ident i n \<longleftrightarrow> contacts_find ident (nd_contacts n) = Some i \<and>
     (case contacts_get i (nd_contacts n) of None \<Rightarrow> False | Some e \<Rightarrow> ipAddressAndPort e \<noteq> nd_address n)"

definition add_texts :: "bool \<Rightarrow> string \<Rightarrow> string list \<Rightarrow> node \<Rightarrow> nat \<Rightarrow> string list" where
  "add_texts r ident ms n i = node_heard n i @ (if r \<and> comes_from ident i n then ms else [])"

lemma store_heard:
  "on_chat (ChatReceive i m t) n = Some (r, n') \<Longrightarrow>
   node_heard n' = (node_heard n)(i := node_heard n i @ (if r then [m] else []))"
  using heard_texts_receive[of "nd_chat n" i m t r] by (auto simp: on_chat_def node_heard_def)

lemma receive_all_heard:
  assumes "node_inv n" "i < node_size n" "bc_receive_all clock k i ms n = Some (r, n')"
  shows "node_heard n' = (node_heard n)(i := node_heard n i @ ms)"
  using assms
proof (induction ms arbitrary: n k)
  case (Cons m ms)
  obtain n1 where n1: "on_chat (ChatReceive i m (clock k)) n = Some (True, n1)" "bc_frame n n1"
    using node_inv_store[OF Cons.prems(1,2)] by blast
  then have "node_inv n1" "i < node_size n1"
    using Cons.prems(2) by (simp_all add: bc_frame_def)
  moreover have "bc_receive_all clock (Suc k) i ms n1 = Some (r, n')"
    using Cons.prems(3) n1(1) by simp
  ultimately show ?case
    using Cons.IH[of n1 "Suc k"] store_heard[OF n1(1)] by (simp add: fun_eq_iff)
qed simp

lemma sender_comes_from:
  assumes "node_inv n"
  shows "bc_sender ident n = Inl (a, m) \<Longrightarrow> node_heard m = node_heard n \<and> \<not> comes_from ident i n"
    "bc_sender ident n = Inr j \<Longrightarrow> j < node_size n \<and> (comes_from ident i n \<longleftrightarrow> i = j)"
proof -
  have find: "j < node_size n" if "contacts_find ident (nd_contacts n) = Some j" for j
    using contacts_find_size[OF _ that] sync_contacts_inv[OF node_invD(1)[OF assms]]
    by (simp add: node_size_def)
  show "bc_sender ident n = Inl (a, m) \<Longrightarrow> node_heard m = node_heard n \<and> \<not> comes_from ident i n"
    using contacts_get_some find
    by (fastforce simp: bc_sender_def comes_from_def split: option.splits if_splits)
  show "bc_sender ident n = Inr j \<Longrightarrow> j < node_size n \<and> (comes_from ident i n \<longleftrightarrow> i = j)"
    using find by (auto simp: bc_sender_def comes_from_def split: option.splits if_splits)
qed

text \<open>Both requests, with the continuation that stores their messages.\<close>

lemma handle_heard:
  assumes inv: "node_inv n"
    and store: "\<And>n1 j r n2. node_inv n1 \<Longrightarrow> j < node_size n1 \<Longrightarrow> store j n1 = Some (r, n2) \<Longrightarrow>
      r \<and> node_heard n2 = (node_heard n1)(j := node_heard n1 j @ ms)"
    and run: "(case bc_sender ident n of
      Inl answer \<Rightarrow> Some answer
    | Inr i \<Rightarrow> do {
        (noted, n1) \<leftarrow> on_contacts (ContactsReceive i) n;
        if \<not> noted then bc_fail n1 else store i n1
      }) = Some (r, n')"
  shows "node_heard n' = add_texts r ident ms n"
proof (cases "bc_sender ident n")
  case (Inl a)
  with run sender_comes_from(1)[OF inv, of ident r n'] show ?thesis
    by (simp add: add_texts_def fun_eq_iff)
next
  case (Inr j)
  note j = sender_comes_from(2)[OF inv Inr]
  obtain n1 where n1: "on_contacts (ContactsReceive j) n = Some (contacts_online (nd_contacts n) j, n1)"
    "bc_frame n n1"
    using node_inv_receive[OF inv] j by blast
  then have n1i: "node_inv n1" "j < node_size n1" "node_heard n1 = node_heard n"
    using j on_contacts_heard by (simp_all add: bc_frame_def)
  show ?thesis
  proof (cases "contacts_online (nd_contacts n) j")
    case True
    then have "store j n1 = Some (r, n')"
      using run Inr n1(1) by simp
    with store[OF n1i(1,2)] j n1i(3) show ?thesis
      by (auto simp: add_texts_def fun_eq_iff)
  next
    case False
    then show ?thesis
      using run Inr n1(1) n1i(3) by (auto simp: bc_fail_def add_texts_def fun_eq_iff)
  qed
qed

lemma bc_handleTell_heard:
  assumes "node_inv n" "bc_handleTell now ident m n = Some (r, n')"
  shows "node_heard n' = add_texts r ident [m] n"
proof (rule handle_heard[OF assms(1)])
  fix n1 j r n2
  assume n1: "node_inv n1" "j < node_size n1"
    and run: "(do { (stored, n2) \<leftarrow> on_chat (ChatReceive j m now) n1;
        if \<not> stored then bc_fail n2 else Some (True, n2) }) = Some (r, n2)"
  obtain n3 where "on_chat (ChatReceive j m now) n1 = Some (True, n3)"
    using node_inv_store[OF n1] by blast
  with run store_heard[OF this] show "r \<and> node_heard n2 = (node_heard n1)(j := node_heard n1 j @ [m])"
    by simp
qed (use assms(2) in \<open>simp add: bc_handleTell_def\<close>)

lemma bc_handleNarrate_heard:
  assumes "node_inv n" "bc_handleNarrate clock ident ms n = Some (r, n')"
  shows "node_heard n' = add_texts r ident ms n"
proof (rule handle_heard[OF assms(1)])
  fix n1 j r n2
  assume n1: "node_inv n1" "j < node_size n1" "bc_receive_all clock 0 j ms n1 = Some (r, n2)"
  with bc_receive_all_inv[OF n1(1,2), of clock 0 ms] receive_all_heard[OF n1]
  show "r \<and> node_heard n2 = (node_heard n1)(j := node_heard n1 j @ ms)"
    by simp
qed (use assms(2) in \<open>simp add: bc_handleNarrate_def\<close>)

lemma service_Tell_heard:
  assumes "node_inv n" "answered (service_Tell now True (Some (ident, m)) True n) = Some (r, n')"
  shows "node_heard n' = add_texts r ident [m] n"
proof -
  obtain r1 n1 where t: "bc_handleTell now ident m n = Some (r1, n1)" "bc_frame n n1"
    using bc_handleTell_inv[OF assms(1)] by blast
  then have "node_inv n1"
    by (simp add: bc_frame_def)
  with t(1) assms(2) have "r = r1 \<and> n' = n1"
    by (cases r1) (simp_all add: answered_def service_Tell_def null_check_def bc_getIdentity_inv
        handle_failed_def)
  with bc_handleTell_heard[OF assms(1) t(1)] show ?thesis
    by simp
qed

lemma service_Narrate_heard:
  assumes "node_inv n" "answered (service_Narrate hasher clock True (Some parts) True n) = Some (r, n')"
  shows "node_heard n' = add_texts r (fst (last parts)) (map snd parts) n"
proof (cases "length (remdups (map (\<lambda>(ident, m). hasher ident) parts)) = 1")
  case False
  with assms(2) have "\<not> r \<and> n' = n"
    by (simp add: answered_def service_Narrate_def null_check_def Let_def)
  then show ?thesis
    by (simp add: add_texts_def fun_eq_iff)
next
  case True
  obtain r1 n1 where t: "bc_handleNarrate clock (fst (last parts)) (map snd parts) n = Some (r1, n1)"
    "bc_frame n n1"
    using bc_handleNarrate_inv[OF assms(1)] by blast
  then have "node_inv n1"
    by (simp add: bc_frame_def)
  with t(1) assms(2) True have "r = r1 \<and> n' = n1"
    by (cases r1) (simp_all add: answered_def service_Narrate_def null_check_def bc_getIdentity_inv
        handle_failed_def Let_def)
  with bc_handleNarrate_heard[OF assms(1) t(1)] show ?thesis
    by simp
qed

subsection \<open>Runs of the engine\<close>

text \<open>What an operation, if it is answered with success, brings for contact \<open>i\<close>.\<close>

primrec op_inbox :: "engine_op \<Rightarrow> node \<Rightarrow> nat \<Rightarrow> string list" where
  "op_inbox (EngineMailbox now fresh message) n i = []"
| "op_inbox (EngineSelection now j) n i = []"
| "op_inbox (EngineTell now ident message) n i = (if comes_from ident i n then [message] else [])"
| "op_inbox (EngineNarrate hasher clock parts) n i =
     (if comes_from (fst (last parts)) i n then map snd parts else [])"
| "op_inbox (EngineGreet threshold steady nick ident address) n i = []"
| "op_inbox (EngineHeartbeat ident) n i = []"
| "op_inbox (EngineChatTurn env) n i = []"
| "op_inbox (EngineStaticTurn env) n i = []"
| "op_inbox (EngineDynamicTurn env) n i = []"

fun inbox :: "engine \<Rightarrow> engine_op list \<Rightarrow> nat \<Rightarrow> string list" where
  "inbox e [] i = []"
| "inbox e (x # xs) i =
     (case engine_step e x of
        None \<Rightarrow> []
      | Some (r, e1) \<Rightarrow> (if r then op_inbox x (en_node e) i else []) @ inbox e1 xs i)"

lemma on_node_Some:
  "on_node f e = Some (r, e') \<longleftrightarrow> (\<exists>n. f (en_node e) = Some (r, n) \<and> e' = e\<lparr>en_node := n\<rparr>)"
  by (auto simp: on_node_def)

lemma engine_step_heard:
  assumes inv: "engine_inv e" and s: "engine_step e x = Some (r, e')"
  shows "node_heard (en_node e') i =
    node_heard (en_node e) i @ (if r then op_inbox x (en_node e) i else [])"
proof -
  have n: "node_inv (en_node e)"
    using inv by (simp add: engine_inv_def)
  show ?thesis
  proof (cases x)
    case (EngineMailbox now fresh m)
    obtain n' where t: "bc_handleSend now fresh m (en_node e) = Some (True, n')"
      using bc_handleSend_inv[OF n] by blast
    with s EngineMailbox bc_handleSend_heard[OF t] show ?thesis
      by (auto simp: engine_mailbox_def)
  next
    case (EngineSelection now j)
    show ?thesis
    proof (cases "j < node_size (en_node e)")
      case True
      obtain c h where ch: "contacts_step (nd_contacts (en_node e)) (ContactsSelect j) = Some (True, c)"
        "chat_step (nd_chat (en_node e)) (ChatSelect now j) = Some (True, h)"
        using select_inv[OF n True] by blast
      have "heard_texts h = heard_texts (nd_chat (en_node e))"
        by (rule heard_texts_same[OF ch(2)]) simp
      with ch s EngineSelection True show ?thesis
        by (auto simp: engine_selection_def on_contacts_def on_chat_def node_heard_def node_size_def)
    next
      case False
      with s EngineSelection show ?thesis
        by (simp add: engine_selection_def node_size_def)
    qed
  next
    case (EngineTell now ident m)
    with s obtain n' where "answered (service_Tell now True (Some (ident, m)) True (en_node e)) = Some (r, n')"
      "e' = e\<lparr>en_node := n'\<rparr>"
      by (auto simp: on_node_Some)
    with service_Tell_heard[OF n] EngineTell show ?thesis
      by (simp add: add_texts_def)
  next
    case (EngineNarrate hasher clock parts)
    with s obtain n' where "answered (service_Narrate hasher clock True (Some parts) True (en_node e)) = Some (r, n')"
      "e' = e\<lparr>en_node := n'\<rparr>"
      by (auto simp: on_node_Some)
    with service_Narrate_heard[OF n] EngineNarrate show ?thesis
      by (simp add: add_texts_def)
  next
    case (EngineGreet threshold steady nick ident address)
    with s obtain n' where g: "answered (service_Greet threshold steady True
        (Some (nick, ident, address)) True (en_node e)) = Some (r, n')" "e' = e\<lparr>en_node := n'\<rparr>"
      by (auto simp: on_node_Some)
    have "node_heard n' = node_heard (en_node e)"
    proof -
      obtain r1 n1 where h: "bd_handleGreet threshold steady nick ident address (en_node e) = Some (r1, n1)"
        using g(1) by (auto simp: answered_def service_Greet_def null_check_def bind_eq_Some_conv)
      then have n1: "node_heard n1 = node_heard (en_node e)"
        by (auto simp: bd_handleGreet_def dest: bd_addNeighbor_heard)
      obtain k na j nb a nc where gets: "bd_getNickname n1 = (k, na)" "bd_getIdentity na = (j, nb)"
        "bd_getIpAddressAndPort nb = (a, nc)"
        by (metis surj_pair)
      with gets_heard(3)[of n1] gets_heard(2)[of na] gets_heard(4)[of nb]
      have "node_heard nc = node_heard n1"
        by simp
      with g(1) h gets n1 show ?thesis
        by (simp add: answered_def service_Greet_def null_check_def split: if_splits)
    qed
    with g EngineGreet show ?thesis
      by simp
  next
    case (EngineHeartbeat ident)
    with s obtain n' where g: "answered (service_Heartbeat True (Some ident) True (en_node e)) = Some (r, n')"
      "e' = e\<lparr>en_node := n'\<rparr>"
      by (auto simp: on_node_Some)
    have "node_heard n' = node_heard (en_node e)"
    proof -
      obtain r1 n1 where h: "bd_handleHeartbeat ident (en_node e) = Some (r1, n1)"
        using g(1) by (auto simp: answered_def service_Heartbeat_def null_check_def bind_eq_Some_conv)
      obtain k na where k: "bd_getIdentity n1 = (k, na)"
        by fastforce
      with gets_heard(2)[of n1] bd_handleHeartbeat_heard[OF h] g(1) h show ?thesis
        by (simp add: answered_def service_Heartbeat_def null_check_def split: if_splits)
    qed
    with g EngineHeartbeat show ?thesis
      by simp
  next
    case (EngineChatTurn env)
    with s show ?thesis
      by (auto simp: on_node_Some dest!: bc_run_turn_heard)
  next
    case (EngineStaticTurn env)
    with s show ?thesis
      by (auto simp: on_node_Some dest!: bd_static_turn_heard)
  next
    case (EngineDynamicTurn env)
    with s show ?thesis
      by (auto simp: on_node_Some dest!: bd_dynamic_turn_heard)
  qed
qed

lemma run_heard:
  "engine_inv e \<Longrightarrow> list_all engine_op_ok xs \<Longrightarrow> run_ops engine_step e xs = Some (rs, e') \<Longrightarrow>
   node_heard (en_node e') i = node_heard (en_node e) i @ inbox e xs i"
proof (induction xs arbitrary: e rs)
  case (Cons x xs)
  then obtain r e1 rs1 where s: "engine_step e x = Some (r, e1)" "run_ops engine_step e1 xs = Some (rs1, e')"
    by (auto split: option.splits)
  moreover have "engine_inv e1"
    using eng.step_inv[of e x r e1] Cons.prems s(1) by simp
  ultimately show ?case
    using Cons.IH[of e1 rs1] Cons.prems(2) engine_step_heard[OF Cons.prems(1) s(1)] by simp
qed simp

lemma new_engine_heard:
  assumes "new_engine nick ident ip port neighbors now = Some e0"
  shows "node_heard (en_node e0) i = []"
proof -
  obtain r1 h1 r2 h2 where h: "chat_step init_chat_handler (ChatCreate 0) = Some (r1, h1)"
    "chat_step h1 (ChatSelect now 0) = Some (r2, h2)" "nd_chat (en_node e0) = h2"
    using assms by (auto simp: new_engine_def bind_eq_Some_conv Let_def split: if_splits)
  from heard_texts_same[OF h(1)] heard_texts_same[OF h(2)] h(3) show ?thesis
    by (simp add: node_heard_def heard_texts_def init_chat_handler_def)
qed

subsection \<open>Properties\<close>

text \<open>
  C6: no message a neighbor sends is lost, repeated or reordered on its way into its conversation:
  at any time, the received texts of contact \<open>i\<close> are those of the \<open>Tell\<close> and \<open>Narrate\<close>
  requests of its identity that were answered with success, in the order they were handled; a request
  that was answered with an error has stored nothing, and no other operation makes up a text.
\<close>

theorem engine_inbox:
  assumes "length nick < TTCONTACTS_DATA_MAX_LENGTH" "list_all engine_op_ok xs"
    and "new_engine nick ident ip port neighbors now = Some e0"
    and "run_ops engine_step e0 xs = Some (rs, e)"
    and "i < length (mMessages (nd_chat (en_node e)))"
  shows "map te_data (filter (\<lambda>t. te_type t = RECEIVER) (mMessages (nd_chat (en_node e)) ! i)) = inbox e0 xs i"
proof -
  have "engine_inv e0"
    using engine_run_inv[OF assms(1,2), of ident ip port neighbors now] assms(3) by auto
  from run_heard[OF this assms(2,4), of i] new_engine_heard[OF assms(3)] assms(5) show ?thesis
    by (simp add: node_heard_def heard_texts_def)
qed

definition inbox_ops :: "engine_op list" where
  "inbox_ops = [EngineTell 1 ''id-bob'' ''lost'', EngineGreet 5000 0 ''bob'' ''id-bob'' ''10.0.0.2:80'',
     EngineNarrate length (\<lambda>k. 2) [(''id-bob'', ''hi''), (''id-bob'', ''there'')], EngineSelection 3 1,
     EngineTell 4 ''id-bob'' ''you?'', EngineTell 5 ''id-ann'' ''myself'']"

lemma inbox_run:
  "case new_engine ''ann'' ''id-ann'' ''10.0.0.1'' ''80'' [] 0 of None \<Rightarrow> False | Some e0 \<Rightarrow>
     (case run_ops engine_step e0 inbox_ops of None \<Rightarrow> False | Some (rs, e) \<Rightarrow>
        rs = [False, True, True, True, True, True] \<and> length (mMessages (nd_chat (en_node e))) = 2 \<and>
        inbox e0 inbox_ops 1 = [''hi'', ''there'', ''you?''])"
  by code_simp

theorem engine_inbox_witness:
  "\<exists>e :: engine. map te_data (filter (\<lambda>t. te_type t = RECEIVER) (mMessages (nd_chat (en_node e)) ! 1)) =
    [''hi'', ''there'', ''you?'']"
proof -
  obtain e0 rs e where e0: "new_engine ''ann'' ''id-ann'' ''10.0.0.1'' ''80'' [] 0 = Some e0"
    and run: "run_ops engine_step e0 inbox_ops = Some (rs, e)"
    and res: "length (mMessages (nd_chat (en_node e))) = 2" "inbox e0 inbox_ops 1 = [''hi'', ''there'', ''you?'']"
    using inbox_run by (auto split: option.splits)
  have "list_all engine_op_ok inbox_ops" "length ''ann'' < TTCONTACTS_DATA_MAX_LENGTH"
    by (simp_all add: inbox_ops_def TTCONTACTS_DATA_MAX_LENGTH_def)
  with engine_inbox[OF _ _ e0 run, of 1] res show ?thesis
    by (intro exI[of _ e]) simp
qed

end
