(* ===== verification/Node_History.thy ===== *)
theory Node_History
  imports Inbox
begin

text \<open>
  What a node's contacts and its record of calls can become: contacts are only added, each under
  a new identity, and keep their address; apart from a turn of the chat loop, an operation adds
  no call that carries a text, and a turn adds calls under the node's own identity alone.  This is
  what the other engines of a network (Network) may rely on.
\<close>

subsection \<open>Operations that add nothing\<close>

definition who ::
  "node \<Rightarrow> string \<times> (string \<times> string \<times> string) list \<times> (string \<Rightarrow> nat option) \<times> (nat \<times> request \<times> bool) list" where
  "who n = (nd_address n, cards (nd_contacts n), mIdentityMap (nd_contacts n), nd_calls n)"

lemma who_frame [simp]:
  "who (bc_stop n) = who n" "who (bd_stop n) = who n"
  "who (n\<lparr>mNeighbors := xs\<rparr>) = who n" "who (n\<lparr>mDynamicNeighbors := ds\<rparr>) = who n"
  "who (n\<lparr>mStaticNeighbors := ss\<rparr>) = who n" "who (n\<lparr>nd_greets := gs\<rparr>) = who n"
  "who (n\<lparr>nd_chat := h\<rparr>) = who n"
  by (simp_all add: who_def bc_stop_def bd_stop_def)

lemma on_contacts_who: "on_contacts x n = Some (r, n') \<Longrightarrow> \<not> is_create x \<Longrightarrow> who n' = who n"
  by (auto simp: on_contacts_def who_def dest: contacts_step_cards)

lemma on_chat_who: "on_chat x n = Some (r, n') \<Longrightarrow> who n' = who n"
  by (auto simp: on_chat_def)

lemmas who_calls = on_contacts_who on_chat_who

lemma gets_who:
  "who (snd (bc_getIdentity n)) = who n" "who (snd (bd_getIdentity n)) = who n"
  "who (snd (bd_getNickname n)) = who n" "who (snd (bd_getIpAddressAndPort n)) = who n"
  by (simp_all add: bc_getIdentity_def bd_getIdentity_def bd_getNickname_def
      bd_getIpAddressAndPort_def split: option.splits)

lemma bc_handleSend_who: "bc_handleSend now fresh m n = Some (r, n') \<Longrightarrow> who n' = who n"
  by (auto simp: bc_handleSend_def bc_fail_def bind_eq_Some_conv dest!: who_calls
      split: option.splits if_splits)

lemma bd_handleHeartbeat_who: "bd_handleHeartbeat ident n = Some (r, n') \<Longrightarrow> who n' = who n"
  by (auto simp: bd_handleHeartbeat_def bd_fail_def bind_eq_Some_conv dest!: who_calls
      split: option.splits if_splits)

lemma bc_sender_who: "bc_sender ident n = Inl (a, m) \<Longrightarrow> who m = who n"
  by (auto simp: bc_sender_def split: option.splits if_splits)

lemma bc_receive_all_who: "bc_receive_all clock k i ms n = Some (r, n') \<Longrightarrow> who n' = who n"
  by (induction ms arbitrary: k n)
    (auto simp: bc_fail_def bind_eq_Some_conv dest!: on_chat_who split: if_splits)

lemma bc_handleTell_who: "bc_handleTell now ident m n = Some (r, n') \<Longrightarrow> who n' = who n"
  by (auto simp: bc_handleTell_def bc_fail_def bind_eq_Some_conv dest!: who_calls bc_sender_who
      split: sum.splits if_splits)

lemma bc_handleNarrate_who: "bc_handleNarrate clock ident ms n = Some (r, n') \<Longrightarrow> who n' = who n"
  by (auto simp: bc_handleNarrate_def bc_fail_def bind_eq_Some_conv
      dest!: who_calls bc_sender_who bc_receive_all_who split: sum.splits if_splits)

subsection \<open>Growth\<close>

text \<open>\<open>n'\<close> may be what \<open>n\<close> has become, with no text sent in between.\<close>

definition grows :: "node \<Rightarrow> node \<Rightarrow> bool" where
  "grows n n' \<longleftrightarrow> nd_address n' = nd_address n \<and>
     (\<exists>ys. cards (nd_contacts n') = cards (nd_contacts n) @ ys) \<and>
     (\<forall>k i. contacts_find k (nd_contacts n) = Some i \<longrightarrow> contacts_find k (nd_contacts n') = Some i) \<and>
     (\<forall>k i. contacts_find k (nd_contacts n) = None \<longrightarrow> contacts_find k (nd_contacts n') = Some i \<longrightarrow>
        node_size n \<le> i) \<and>
     (\<exists>cs. nd_calls n' = nd_calls n @ cs \<and> (\<forall>c \<in> set cs. request_texts (fst (snd c)) = []))"

lemma growsD:
  assumes "grows n n'"
  shows "nd_address n' = nd_address n" "\<exists>ys. cards (nd_contacts n') = cards (nd_contacts n) @ ys"
    "\<And>k i. contacts_find k (nd_contacts n) = Some i \<Longrightarrow> contacts_find k (nd_contacts n') = Some i"
    "\<And>k i. contacts_find k (nd_contacts n) = None \<Longrightarrow> contacts_find k (nd_contacts n') = Some i \<Longrightarrow>
      node_size n \<le> i"
    "\<exists>cs. nd_calls n' = nd_calls n @ cs \<and> (\<forall>c \<in> set cs. request_texts (fst (snd c)) = [])"
  using assms unfolding grows_def by blast+

lemma node_size_cards: "node_size n = length (cards (nd_contacts n))"
  by (simp add: node_size_def contacts_size_def)

lemma grows_size: "grows n n' \<Longrightarrow> node_size n \<le> node_size n'"
  using growsD(2) by (fastforce simp: node_size_cards simp del: length_cards)

lemma grows_who: "who n' = who n \<Longrightarrow> grows n n'"
  by (auto simp: grows_def who_def contacts_find_def)

lemma grows_who_right: "grows n n1 \<Longrightarrow> who n' = who n1 \<Longrightarrow> grows n n'"
  by (simp add: grows_def who_def contacts_find_def)

lemma grows_who_left: "grows n1 n' \<Longrightarrow> who n1 = who n \<Longrightarrow> grows n n'"
  by (simp add: grows_def who_def contacts_find_def node_size_cards del: length_cards)

lemma grows_refl [simp]: "grows n n"
  by (simp add: grows_who)

lemma grows_trans:
  assumes a: "grows n n1" and b: "grows n1 n'"
  shows "grows n n'"
proof -
  note A = growsD[OF a] and B = growsD[OF b]
  have "node_size n \<le> i"
    if "contacts_find k (nd_contacts n) = None" "contacts_find k (nd_contacts n') = Some i" for k i
  proof (cases "contacts_find k (nd_contacts n1)")
    case None
    with B(4)[OF None that(2)] grows_size[OF a] show ?thesis
      by simp
  next
    case (Some j)
    with A(4)[OF that(1)] B(3)[OF Some] that(2) show ?thesis
      by simp
  qed
  moreover have "\<exists>cs. nd_calls n' = nd_calls n @ cs \<and> (\<forall>c \<in> set cs. request_texts (fst (snd c)) = [])"
  proof -
    obtain cs1 cs2 where cs: "nd_calls n1 = nd_calls n @ cs1" "\<forall>c \<in> set cs1. request_texts (fst (snd c)) = []"
      "nd_calls n' = nd_calls n1 @ cs2" "\<forall>c \<in> set cs2. request_texts (fst (snd c)) = []"
      using A(5) B(5) by blast
    then show ?thesis
      by (intro exI[of _ "cs1 @ cs2"]) auto
  qed
  moreover obtain ys zs where "cards (nd_contacts n') = cards (nd_contacts n) @ ys @ zs"
    using A(2) B(2) by auto
  ultimately show ?thesis
    unfolding grows_def using A(1,3) B(1,3) by auto
qed

lemma grows_call:
  "request_texts rq = [] \<Longrightarrow> grows n (n\<lparr>nd_calls := nd_calls n @ [(i, rq, ok)]\<rparr>)"
  by (simp add: grows_def node_size_def)

lemma grows_create:
  assumes "on_contacts (ContactsCreate nick k a) n = Some (r, n')" "contacts_find k (nd_contacts n) = None"
  shows "grows n n'"
proof -
  obtain c where c: "contacts_step (nd_contacts n) (ContactsCreate nick k a) = Some (r, c)"
    "n' = n\<lparr>nd_contacts := c\<rparr>"
    using assms(1) by (auto simp: on_contacts_Some)
  note created = contacts_step_create[OF c(1)]
  show ?thesis
    using created assms(2) c(2)
    by (auto simp: grows_def contacts_find_def node_size_def contacts_size_def)
qed

lemma bd_addNeighbor_grows:
  assumes "bd_addNeighbor fresh nick ident a n = Some (r, n')"
  shows "grows n n'"
proof (cases "nick = [] \<or> ident = [] \<or> a = [] \<or> (\<exists>i. contacts_find ident (nd_contacts n) = Some i)")
  case True
  then have "who n' = who n"
    using assms by (auto simp: bd_addNeighbor_def bd_fail_def bind_eq_Some_conv dest!: who_calls
        split: if_splits option.splits)
  then show ?thesis
    by (rule grows_who)
next
  case False
  then have new: "contacts_find ident (nd_contacts n) = None"
    by simp
  obtain r1 n1 where n1: "on_contacts (ContactsCreate nick ident a) n = Some (r1, n1)"
    using assms False new by (auto simp: bd_addNeighbor_def bind_eq_Some_conv)
  have "who n' = who n1"
    using assms False new n1 by (auto simp: bd_addNeighbor_def bd_fail_def bind_eq_Some_conv
        dest!: on_chat_who split: if_splits option.splits)
  with grows_create[OF n1 new] show ?thesis
    by (rule grows_who_right)
qed

lemma bd_static_grows:
  assumes "bd_static env sn n = Some (r, sn', n')"
  shows "grows n n'"
proof -
  obtain nick na ident nb a nc where g: "bd_getNickname n = (nick, na)" "bd_getIdentity na = (ident, nb)"
    "bd_getIpAddressAndPort nb = (a, nc)"
    by (metis surj_pair)
  have nc: "who (nc\<lparr>nd_greets := gs\<rparr>) = who n" for gs
    using gets_who(2)[of na] gets_who(3)[of n] gets_who(4)[of nb] g by simp
  have add: "grows n n1" if "bd_addNeighbor fresh nick' k b (nc\<lparr>nd_greets := gs\<rparr>) = Some (r1, n1)"
    for fresh nick' k b gs r1 n1
    using bd_addNeighbor_grows[OF that] nc by (rule grows_who_left)
  from assms g show ?thesis
    by (auto simp: bd_static_def bind_eq_Some_conv Let_def dest!: add intro: grows_who[OF nc]
        split: if_splits)
qed

lemma bd_statics_grows: "bd_statics env k sns n = Some (r, sns', n') \<Longrightarrow> grows n n'"
proof (induction sns arbitrary: k n r sns')
  case (Cons sn sns)
  show ?case
  proof (cases "bd_stopped n")
    case False
    with Cons.prems have "\<exists>r1 sn1 n1 r2 sns1. bd_static (env k) sn n = Some (r1, sn1, n1) \<and>
        bd_statics env (Suc k) sns n1 = Some (r2, sns1, n')"
      by (auto simp: bind_eq_Some_conv)
    with Cons.IH bd_static_grows grows_trans show ?thesis
      by blast
  qed (use Cons.prems in simp)
qed simp

lemma bd_static_turn_grows: "bd_static_turn env n = Some (r, n') \<Longrightarrow> grows n n'"
  by (auto simp: bd_static_turn_def bind_eq_Some_conv Let_def dest!: bd_statics_grows
      intro: grows_who_right)

lemma bd_dynamic_grows:
  assumes "bd_dynamic env i dn n = Some (r, dn', n')"
  shows "grows n n'"
proof (cases "timer_expired (de_steady env) (dn_timer dn) \<and> dn_trials dn \<noteq> 0")
  case True
  obtain ident na where g: "bd_getIdentity n = (ident, na)"
    by fastforce
  then have na: "who na = who n"
    using gets_who(2)[of n] by simp
  let ?call = "na\<lparr>nd_calls := nd_calls na @ [(i, HeartbeatRequest ident, hr_status (de_response env))]\<rparr>"
  have call: "grows n ?call"
    using grows_call[of "HeartbeatRequest ident" na] na by (auto intro: grows_who_left)
  then have act: "grows n n1" if "on_contacts x ?call = Some (r1, n1)" "\<not> is_create x" for x r1 n1
    using on_contacts_who[OF that] by (rule grows_who_right)
  have acted: "grows n (if r1 then n1 else bd_stop n1)"
    if "on_contacts x ?call = Some (r1, n1)" "\<not> is_create x" for x r1 n1
    using act[OF that] grows_who_right[OF act[OF that], of "bd_stop n1"] by simp
  have calls: "grows n n1" if "x = ContactsActivate i \<or> x = ContactsDeactivate i"
    "on_contacts x ?call = Some (r1, n2)" "n1 = (if r1 then n2 else bd_stop n2)" for x r1 n2 n1
    using acted[OF that(2)] that(1,3) by auto
  have stop: "grows n (bd_stop n)"
    by (simp add: grows_who)
  show ?thesis
    using assms True g
    by (auto simp: bd_dynamic_def Let_def bind_eq_Some_conv stop split: option.splits if_splits
        intro: calls[OF disjI1[OF refl]] calls[OF disjI2[OF refl]])
next
  case False
  with assms show ?thesis
    by (auto simp: bd_dynamic_def split: if_splits)
qed

lemma bd_dynamics_grows: "bd_dynamics env ds n = Some (ds', n') \<Longrightarrow> grows n n'"
proof (induction ds arbitrary: n ds')
  case (Cons d ds)
  obtain i dn where d: "d = (i, dn)"
    by (cases d)
  show ?case
  proof (cases "bd_stopped n")
    case False
    then obtain c dn' n1 where s: "bd_dynamic (env i) i dn n = Some (c, dn', n1)"
      using Cons.prems d by (auto simp: bind_eq_Some_conv)
    with Cons.prems d False have "n' = n1 \<or> (\<exists>ds1. bd_dynamics env ds n1 = Some (ds1, n'))"
      by (auto simp: bind_eq_Some_conv split: if_splits)
    with bd_dynamic_grows[OF s] Cons.IH[of n1] show ?thesis
      using grows_trans by blast
  qed (use Cons.prems d in simp)
qed simp

lemma bd_dynamic_turn_grows: "bd_dynamic_turn env n = Some (r, n') \<Longrightarrow> grows n n'"
  by (auto simp: bd_dynamic_turn_def bind_eq_Some_conv dest!: bd_dynamics_grows
      intro: grows_who_right split: if_splits)

subsection \<open>The services\<close>

lemma service_Tell_run:
  assumes "node_inv n" "answered (service_Tell now True (Some (ident, m)) True n) = Some (r, n')"
  shows "bc_handleTell now ident m n = Some (r, n')"
proof -
  obtain r1 n1 where t: "bc_handleTell now ident m n = Some (r1, n1)" "bc_frame n n1"
    using bc_handleTell_inv[OF assms(1)] by blast
  then have "node_inv n1"
    by (simp add: bc_frame_def)
  with t assms(2) show ?thesis
    by (cases r1) (auto simp: answered_def service_Tell_def null_check_def bc_getIdentity_inv handle_failed_def)
qed

text \<open>A stream whose parts are all from one sender.\<close>

lemma service_Narrate_run:
  assumes "node_inv n" "answered (service_Narrate hasher clock True (Some (map (Pair k) ms)) True n) = Some (r, n')"
  shows "if ms = [] then \<not> r \<and> n' = n else bc_handleNarrate clock k ms n = Some (r, n')"
proof (cases "ms = []")
  case False
  then have "remdups (map (\<lambda>(ident, m). hasher ident) (map (Pair k) ms)) = [hasher k]"
    by (induction ms rule: list_nonempty_induct) (auto simp: image_constant_conv)
  moreover have "fst (last (map (Pair k) ms)) = k" "map snd (map (Pair k) ms) = ms"
    using False by (simp_all add: last_map comp_def)
  moreover obtain r1 n1 where t: "bc_handleNarrate clock k ms n = Some (r1, n1)" "bc_frame n n1"
    using bc_handleNarrate_inv[OF assms(1)] by blast
  moreover have "node_inv n1"
    using t by (simp add: bc_frame_def)
  ultimately show ?thesis
    using assms(2) False
    by (cases r1) (auto simp: answered_def service_Narrate_def null_check_def bc_getIdentity_inv
        handle_failed_def Let_def)
qed (use assms(2) in \<open>simp add: answered_def service_Narrate_def null_check_def Let_def\<close>)

lemma service_Greet_grows:
  assumes "answered (service_Greet threshold steady True (Some (nick, ident, address)) True n) = Some (r, n')"
  shows "grows n n'"
proof -
  obtain r1 n1 where h: "bd_handleGreet threshold steady nick ident address n = Some (r1, n1)"
    using assms by (auto simp: answered_def service_Greet_def null_check_def bind_eq_Some_conv)
  then have n1: "grows n n1"
    by (auto simp: bd_handleGreet_def dest: bd_addNeighbor_grows)
  obtain k na j nb a nc where gets: "bd_getNickname n1 = (k, na)" "bd_getIdentity na = (j, nb)"
    "bd_getIpAddressAndPort nb = (a, nc)"
    by (metis surj_pair)
  with gets_who(3)[of n1] gets_who(2)[of na] gets_who(4)[of nb] have "who nc = who n1"
    by simp
  with n1 have "grows n nc"
    by (rule grows_who_right)
  with assms h gets n1 show ?thesis
    by (simp add: answered_def service_Greet_def null_check_def split: if_splits)
qed

lemma service_Heartbeat_grows:
  assumes "answered (service_Heartbeat True (Some ident) True n) = Some (r, n')"
  shows "grows n n'"
proof -
  obtain r1 n1 where h: "bd_handleHeartbeat ident n = Some (r1, n1)"
    using assms by (auto simp: answered_def service_Heartbeat_def null_check_def bind_eq_Some_conv)
  obtain k na where k: "bd_getIdentity n1 = (k, na)"
    by fastforce
  have "who n' = who n"
    using gets_who(2)[of n1] bd_handleHeartbeat_who[OF h] assms h k
    by (simp add: answered_def service_Heartbeat_def null_check_def split: if_splits)
  then show ?thesis
    by (rule grows_who)
qed

subsection \<open>The engine\<close>

text \<open>The operations of an engine that neither send nor receive a text over the network.\<close>

primrec local_op :: "engine_op \<Rightarrow> bool" where
  "local_op (EngineMailbox now fresh message) = True"
| "local_op (EngineSelection now i) = True"
| "local_op (EngineTell now ident message) = False"
| "local_op (EngineNarrate hasher clock parts) = False"
| "local_op (EngineGreet threshold steady nick ident address) = True"
| "local_op (EngineHeartbeat ident) = True"
| "local_op (EngineChatTurn env) = False"
| "local_op (EngineStaticTurn env) = True"
| "local_op (EngineDynamicTurn env) = True"

lemma local_op_grows:
  assumes inv: "engine_inv e" and s: "engine_step e x = Some (r, e')" and x: "local_op x"
  shows "grows (en_node e) (en_node e')"
proof -
  have n: "node_inv (en_node e)"
    using inv by (simp add: engine_inv_def)
  show ?thesis
  proof (cases x)
    case (EngineMailbox now fresh m)
    obtain n' where t: "bc_handleSend now fresh m (en_node e) = Some (True, n')"
      using bc_handleSend_inv[OF n] by blast
    with s EngineMailbox bc_handleSend_who[OF t] show ?thesis
      by (auto simp: engine_mailbox_def intro: grows_who)
  next
    case (EngineSelection now j)
    show ?thesis
    proof (cases "j < node_size (en_node e)")
      case True
      obtain c h where ch: "contacts_step (nd_contacts (en_node e)) (ContactsSelect j) = Some (True, c)"
        "chat_step (nd_chat (en_node e)) (ChatSelect now j) = Some (True, h)"
        using select_inv[OF n True] by blast
      have "who (en_node e\<lparr>nd_contacts := c\<rparr>) = who (en_node e)"
        using contacts_step_cards[OF ch(1)] by (simp add: who_def)
      with ch s EngineSelection True show ?thesis
        by (auto simp: engine_selection_def on_contacts_def on_chat_def node_size_def intro: grows_who)
    next
      case False
      with s EngineSelection show ?thesis
        by (simp add: engine_selection_def node_size_def)
    qed
  qed (use s x in \<open>auto simp: on_node_Some dest: service_Greet_grows service_Heartbeat_grows
      bd_static_turn_grows bd_dynamic_turn_grows\<close>)
qed

subsection \<open>A turn of the chat loop\<close>

text \<open>The identity a node gives with its messages is that of its first contact.\<close>

definition own_identity :: "node \<Rightarrow> string" where
  "own_identity n = fst (snd (cards (nd_contacts n) ! 0))"

definition text_call :: "string \<Rightarrow> request \<Rightarrow> bool" where
  "text_call k rq \<longleftrightarrow> (\<exists>m. rq = TellRequest k m) \<or> (\<exists>ms. rq = NarrateRequest k ms)"

definition text_calls :: "string \<Rightarrow> (nat \<times> request \<times> bool) list \<Rightarrow> bool" where
  "text_calls k cs \<longleftrightarrow> (\<forall>(i, rq, ok) \<in> set cs. text_call k rq)"

lemma text_calls_simps [simp]:
  "text_calls k []" "text_calls k (cs @ ds) \<longleftrightarrow> text_calls k cs \<and> text_calls k ds"
  by (simp_all add: text_calls_def ball_Un)

lemma own_identity_calls [simp]: "own_identity (n\<lparr>nd_calls := cs\<rparr>) = own_identity n"
  by (simp add: own_identity_def)

lemma bc_neighbor_calls:
  assumes "bc_neighbor env i nb n = Some (nb', n')" "i < node_size n"
  shows "\<exists>cs. n' = n\<lparr>nd_calls := nd_calls n @ cs\<rparr> \<and> text_calls (own_identity n) cs"
proof -
  have "bc_getIdentity n = (own_identity n, n)"
    using assms(2) by (simp add: bc_getIdentity_eq own_identity_def)
  moreover obtain steady kick stub_ok call_ok where env: "env = (steady, kick, stub_ok, call_ok)"
    by (cases env)
  moreover have "\<exists>cs. n = n\<lparr>nd_calls := nd_calls n @ cs\<rparr> \<and> text_calls (own_identity n) cs"
    by (rule exI[of _ "[]"]) simp
  moreover have "text_calls k [(i, NarrateRequest k ms, ok)]" "text_calls k [(i, TellRequest k m, ok)]" for k ms m ok
    by (simp_all add: text_calls_def text_call_def)
  ultimately show ?thesis
    using assms(1) by (auto simp: bc_neighbor_def bc_call_def Let_def split: option.splits if_splits)
qed

lemma bc_neighbors_calls:
  "bc_neighbors env xs n = Some (ys, n') \<Longrightarrow> \<forall>i \<in> keys xs. i < node_size n \<Longrightarrow>
   \<exists>cs. n' = n\<lparr>nd_calls := nd_calls n @ cs\<rparr> \<and> text_calls (own_identity n) cs"
proof (induction xs arbitrary: n ys)
  case Nil
  then show ?case
    by (auto intro: exI[of _ "[]"])
next
  case (Cons x xs)
  obtain i nb where x: "x = (i, nb)"
    by (cases x)
  show ?case
  proof (cases "bc_stopped n")
    case True
    then show ?thesis
      using Cons.prems(1) x by (auto intro: exI[of _ "[]"])
  next
    case False
    then obtain nb' n1 zs where s: "bc_neighbor (env i) i nb n = Some (nb', n1)"
      "bc_neighbors env xs n1 = Some (zs, n')"
      using Cons.prems(1) x by (auto simp: bind_eq_Some_conv)
    obtain cs where cs: "n1 = n\<lparr>nd_calls := nd_calls n @ cs\<rparr>" "text_calls (own_identity n) cs"
      using bc_neighbor_calls[OF s(1)] Cons.prems(2) x by auto
    obtain ds where "n' = n1\<lparr>nd_calls := nd_calls n1 @ ds\<rparr>" "text_calls (own_identity n1) ds"
      using Cons.IH[OF s(2)] Cons.prems(2) x cs(1) by auto
    with cs show ?thesis
      by (intro exI[of _ "cs @ ds"]) simp
  qed
qed

lemma bc_run_turn_calls:
  assumes "node_inv n" "bc_run_turn env n = Some (r, n')"
  shows "\<exists>cs xs. n' = n\<lparr>nd_calls := nd_calls n @ cs, mNeighbors := xs\<rparr> \<and> text_calls (own_identity n) cs"
proof (cases "bc_stopped n")
  case True
  with assms(2) have "n' = n\<lparr>nd_calls := nd_calls n @ [], mNeighbors := mNeighbors n\<rparr>"
    by (simp add: bc_run_turn_def)
  then show ?thesis
    by (intro exI[of _ "[]"] exI[of _ "mNeighbors n"]) simp
next
  case False
  then obtain xs n1 where t: "bc_neighbors env (mNeighbors n) n = Some (xs, n1)" "n' = n1\<lparr>mNeighbors := xs\<rparr>"
    using assms(2) by (auto simp: bc_run_turn_def bind_eq_Some_conv)
  obtain cs where "n1 = n\<lparr>nd_calls := nd_calls n @ cs\<rparr>" "text_calls (own_identity n) cs"
    using bc_neighbors_calls[OF t(1)] node_invD(4)[OF assms(1)] by blast
  with t(2) show ?thesis
    by blast
qed

end
