(* ===== verification/Network.thy ===== *)
theory Network
  imports Node_History "HOL-Library.Sublist"
begin

text \<open>
  Several engines and the calls between them: a network maps the addresses of hosts to their
  engines.  A step is an operation of one engine, or a turn of its chat loop together with what
  becomes of each call the turn makes: a call may be lost, it may be handled by the engine at
  that address (its stream perhaps cut short), and the reply may or may not come back.
  The caller learns success only from an \<open>OK\<close> reply to a complete request, as
  \<open>TTNeighborsStub\<close> reports it.

  The theorems relate what a user reads in a conversation to what the user at the other end
  wrote: equal up to what is pending when no reply is lost, and at least once otherwise.
\<close>

subsection \<open>State and steps\<close>

type_synonym network = "string \<Rightarrow> engine option"

text \<open>
  The fate of a call: lost on the way, or handled, with the server's clocks and hash function, how
  many parts of a stream came through before it broke (\<open>None\<close> when it did not), and
  whether the reply got back.
\<close>

datatype fate =
    CallLost
  | CallHandled timestamp "string \<Rightarrow> nat" "nat \<Rightarrow> timestamp" "nat option" bool

definition stream_parts :: "nat option \<Rightarrow> string list \<Rightarrow> string list" where
  "stream_parts broken ms = (case broken of None \<Rightarrow> ms | Some j \<Rightarrow> take j ms)"

text \<open>The request as the services of the callee meet it.\<close>

primrec request_op ::
  "timestamp \<Rightarrow> (string \<Rightarrow> nat) \<Rightarrow> (nat \<Rightarrow> timestamp) \<Rightarrow> nat option \<Rightarrow> request \<Rightarrow> engine_op option" where
  "request_op now hasher clock broken (TellRequest k m) = Some (EngineTell now k m)"
| "request_op now hasher clock broken (NarrateRequest k ms) =
     Some (EngineNarrate hasher clock (map (Pair k) (stream_parts broken ms)))"
| "request_op now hasher clock broken (GreetRequest n k a) = None"
| "request_op now hasher clock broken (HeartbeatRequest k) = None"

text \<open>A call: whether the caller is told that it succeeded, and the network after it.\<close>

primrec deliver :: "fate \<Rightarrow> string \<Rightarrow> request \<Rightarrow> network \<Rightarrow> (bool \<times> network) option" where
  "deliver CallLost q rq net = Some (False, net)"
| "deliver (CallHandled now hasher clock broken reply) q rq net = do {
     b \<leftarrow> net q;
     x \<leftarrow> request_op now hasher clock broken rq;
     (r, b1) \<leftarrow> engine_step b x;
     Some (r \<and> reply \<and> broken = None, net(q \<mapsto> b1))
   }"

text \<open>The calls of a turn, one after another; the turn acted on their true outcomes.\<close>

fun deliver_all :: "fate list \<Rightarrow> (string \<times> request \<times> bool) list \<Rightarrow> network \<Rightarrow> network option" where
  "deliver_all [] [] net = Some net"
| "deliver_all (f # fs) ((q, rq, ok) # cs) net = do {
     (r, net1) \<leftarrow> deliver f q rq net;
     if r = ok then deliver_all fs cs net1 else None
   }"
| "deliver_all fs cs net = None"

definition new_calls :: "node \<Rightarrow> node \<Rightarrow> (string \<times> request \<times> bool) list" where
  "new_calls n n' =
     map (\<lambda>(i, rq, ok). (address_of n' i, rq, ok)) (drop (length (nd_calls n)) (nd_calls n'))"

datatype net_op =
    NetLocal string engine_op
  | NetTurn string chat_env "fate list"

text \<open>
  \<open>None\<close> is a step the network cannot make: no such engine, or a turn whose calls did not go as
  the fates say.  A turn can be restricted to one neighbor, by clocks at which no other timer
  has expired, so that other engines' steps may come between the calls of a turn of the code.
\<close>

primrec net_step :: "network \<Rightarrow> net_op \<Rightarrow> (bool \<times> network) option" where
  "net_step net (NetLocal p x) = do {
     e \<leftarrow> net p;
     (r, e1) \<leftarrow> engine_step e x;
     Some (r, net(p \<mapsto> e1))
   }"
| "net_step net (NetTurn p env fates) = do {
     e \<leftarrow> net p;
     (r, e1) \<leftarrow> engine_step e (EngineChatTurn env);
     net1 \<leftarrow> deliver_all fates (new_calls (en_node e) (en_node e1)) (net(p \<mapsto> e1));
     Some (r, net1)
   }"

primrec net_op_ok :: "net_op \<Rightarrow> bool" where
  "net_op_ok (NetLocal p x) \<longleftrightarrow> local_op x \<and> engine_op_ok x"
| "net_op_ok (NetTurn p env fates) \<longleftrightarrow> True"

text \<open>No reply is lost and no stream breaks: a call that fails was not handled.\<close>

primrec fate_reliable :: "fate \<Rightarrow> bool" where
  "fate_reliable CallLost \<longleftrightarrow> True"
| "fate_reliable (CallHandled now hasher clock broken reply) \<longleftrightarrow> reply \<and> broken = None"

primrec net_op_reliable :: "net_op \<Rightarrow> bool" where
  "net_op_reliable (NetLocal p x) \<longleftrightarrow> True"
| "net_op_reliable (NetTurn p env fates) \<longleftrightarrow> list_all fate_reliable fates"

text \<open>The hosts at the start: nickname, identity, network interface, neighbors and clock.\<close>

type_synonym host = "string \<times> string \<times> string \<times> string \<times> (string \<times> int \<times> int) list \<times> timestamp"

fun host_address :: "host \<Rightarrow> string" where
  "host_address (nick, ident, ip, port, neighbors, now) = ip @ '':'' @ port"

fun host_identity :: "host \<Rightarrow> string" where
  "host_identity (nick, ident, ip, port, neighbors, now) = ident"

fun host_nickname :: "host \<Rightarrow> string" where
  "host_nickname (nick, ident, ip, port, neighbors, now) = nick"

fun start_network :: "host list \<Rightarrow> network option" where
  "start_network [] = Some Map.empty"
| "start_network ((nick, ident, ip, port, neighbors, now) # hs) = do {
     e \<leftarrow> new_engine nick ident ip port neighbors now;
     net \<leftarrow> start_network hs;
     Some (net(ip @ '':'' @ port \<mapsto> e))
   }"

definition hosts_ok :: "host list \<Rightarrow> bool" where
  "hosts_ok hs \<longleftrightarrow> distinct (map host_address hs) \<and> distinct (map host_identity hs) \<and>
     (\<forall>h \<in> set hs. length (host_nickname h) < TTCONTACTS_DATA_MAX_LENGTH)"

subsection \<open>What is sent and what is heard\<close>

text \<open>The texts of calls to an address: of those that succeeded, or of all that were made.\<close>

definition texts_to :: "bool \<Rightarrow> string \<Rightarrow> (string \<times> request \<times> bool) list \<Rightarrow> string list" where
  "texts_to all q cs =
     concat (map (\<lambda>(a, rq, ok). if a = q \<and> (all \<or> ok) then request_texts rq else []) cs)"

lemma texts_to_simps [simp]:
  "texts_to all q [] = []" "texts_to all q (cs @ ds) = texts_to all q cs @ texts_to all q ds"
  "texts_to all q ((a, rq, ok) # cs) =
     (if a = q \<and> (all \<or> ok) then request_texts rq else []) @ texts_to all q cs"
  by (simp_all add: texts_to_def)

definition calls_of :: "node \<Rightarrow> (string \<times> request \<times> bool) list" where
  "calls_of n = map (\<lambda>(i, rq, ok). (address_of n i, rq, ok)) (nd_calls n)"

text \<open>The received texts of the contact with identity \<open>k\<close>, if there is one.\<close>

definition heard_from :: "string \<Rightarrow> node \<Rightarrow> string list" where
  "heard_from k n = (case contacts_find k (nd_contacts n) of None \<Rightarrow> [] | Some i \<Rightarrow> node_heard n i)"

text \<open>That contact, if there is one, is at another address than the host.\<close>

definition elsewhere :: "string \<Rightarrow> node \<Rightarrow> bool" where
  "elsewhere k n \<longleftrightarrow>
     (case contacts_find k (nd_contacts n) of None \<Rightarrow> True | Some i \<Rightarrow> address_of n i \<noteq> nd_address n)"

text \<open>\<open>hs\<close> heard of the texts \<open>ds\<close> delivered and \<open>ts\<close> tried.\<close>

definition flows :: "bool \<Rightarrow> string list \<Rightarrow> string list \<Rightarrow> string list \<Rightarrow> bool" where
  "flows reliable ds hs ts \<longleftrightarrow> subseq ds hs \<and> subseq hs ts \<and> (reliable \<longrightarrow> hs = ds)"

lemma flows_append:
  "flows reliable ds hs ts \<Longrightarrow> flows reliable ds' hs' ts' \<Longrightarrow>
   flows reliable (ds @ ds') (hs @ hs') (ts @ ts')"
  by (simp add: flows_def list_emb_append_mono)

lemma flows_Nil [simp]: "flows reliable [] [] ts"
  by (simp add: flows_def)

subsection \<open>What one request changes\<close>

lemma who_sent:
  "who n' = who n \<Longrightarrow> calls_of n' = calls_of n \<and> own_identity n' = own_identity n \<and>
     nd_address n' = nd_address n \<and> elsewhere k n' = elsewhere k n"
  by (simp add: who_def calls_of_def own_identity_def address_of_def elsewhere_def contacts_find_def
      split: option.split)

lemma who_find: "who n' = who n \<Longrightarrow> contacts_find k (nd_contacts n') = contacts_find k (nd_contacts n)"
  by (simp add: who_def contacts_find_def)

text \<open>What a request of \<open>k\<close> with the texts \<open>ms\<close>, answered with \<open>r\<close>, leaves of a node.\<close>

definition received :: "string \<Rightarrow> string list \<Rightarrow> bool \<Rightarrow> node \<Rightarrow> node \<Rightarrow> bool" where
  "received k ms r n n' \<longleftrightarrow> who n' = who n \<and>
     (\<forall>j. elsewhere j n \<longrightarrow>
        heard_from j n' = heard_from j n @ (if j = k \<and> r then ms else []))"

lemma receivedI:
  assumes inv: "node_inv n" and who: "who n' = who n"
    and heard: "\<And>i. node_heard n' i = node_heard n i @ (if r \<and> comes_from k i n then ms else [])"
    and known: "r \<Longrightarrow> contacts_find k (nd_contacts n) \<noteq> None"
  shows "received k ms r n n'"
proof -
  have "heard_from j n' = heard_from j n @ (if j = k \<and> r then ms else [])" if j: "elsewhere j n" for j
  proof (cases "contacts_find j (nd_contacts n)")
    case None
    with who_find[OF who, of j] known show ?thesis
      by (auto simp: heard_from_def)
  next
    case (Some i)
    have i: "i < node_size n" "identity (mContacts (nd_contacts n) ! i) = j"
      using contacts_find_size[OF _ Some] sync_contacts_inv[OF node_invD(1)[OF inv]]
      by (simp_all add: node_size_def)
    then obtain e where e: "contacts_get i (nd_contacts n) = Some e"
      using contacts_get_some by blast
    have "comes_from k i n \<longleftrightarrow> j = k"
    proof
      assume "comes_from k i n"
      then have "contacts_find k (nd_contacts n) = Some i"
        by (simp add: comes_from_def)
      then show "j = k"
        using contacts_find_size[of "nd_contacts n" k i] sync_contacts_inv[OF node_invD(1)[OF inv]] i(2) by simp
    next
      assume "j = k"
      with Some e j address_of_get[OF e] show "comes_from k i n"
        by (simp add: comes_from_def elsewhere_def)
    qed
    with Some who_find[OF who, of j] heard[of i] show ?thesis
      by (auto simp: heard_from_def)
  qed
  with who show ?thesis
    by (simp add: received_def)
qed

lemma tell_received:
  assumes inv: "engine_inv e" and s: "engine_step e (EngineTell now k m) = Some (r, e')"
  shows "received k [m] r (en_node e) (en_node e')"
proof -
  have n: "node_inv (en_node e)"
    using inv by (simp add: engine_inv_def)
  obtain n' where n': "answered (service_Tell now True (Some (k, m)) True (en_node e)) = Some (r, n')"
    "e' = e\<lparr>en_node := n'\<rparr>"
    using s by (auto simp: on_node_Some)
  note t = service_Tell_run[OF n n'(1)]
  have known: "contacts_find k (nd_contacts (en_node e)) \<noteq> None" if r
    using bc_handleTell_inv[OF n, of now k m] t that by auto
  show ?thesis
    by (rule receivedI[OF n _ _ known])
      (use engine_step_heard[OF inv s] bc_handleTell_who[OF t] n'(2) in auto)
qed

lemma narrate_received:
  assumes inv: "engine_inv e" and s: "engine_step e (EngineNarrate hasher clock (map (Pair k) ms)) = Some (r, e')"
  shows "received k ms r (en_node e) (en_node e')"
proof -
  have n: "node_inv (en_node e)"
    using inv by (simp add: engine_inv_def)
  obtain n' where n': "answered (service_Narrate hasher clock True (Some (map (Pair k) ms)) True (en_node e)) = Some (r, n')"
    "e' = e\<lparr>en_node := n'\<rparr>"
    using s by (auto simp: on_node_Some)
  note t = service_Narrate_run[OF n n'(1)]
  show ?thesis
  proof (cases "ms = []")
    case True
    then show ?thesis
      using t n'(2) by (simp add: received_def)
  next
    case False
    then have t: "bc_handleNarrate clock k ms (en_node e) = Some (r, n')"
      using t by simp
    have known: "contacts_find k (nd_contacts (en_node e)) \<noteq> None" if r
      using bc_handleNarrate_inv[OF n, of clock k ms] t that by auto
    have "fst (last (map (Pair k) ms)) = k" "map snd (map (Pair k) ms) = ms"
      using False by (simp_all add: last_map comp_def)
    then show ?thesis
      by (intro receivedI[OF n _ _ known])
        (use engine_step_heard[OF inv s] bc_handleNarrate_who[OF t] n'(2) in auto)
  qed
qed

text \<open>A call with identity \<open>k\<close>, whatever its fate.\<close>

lemma deliver_flows:
  assumes d: "deliver f q rq net = Some (ok, net')" and k: "text_call k rq"
    and invs: "\<forall>q b. net q = Some b \<longrightarrow> engine_inv b"
    and rel: "reliable \<longrightarrow> fate_reliable f"
  shows "net' = net \<and> \<not> ok \<or>
    (\<exists>b b' ms. net q = Some b \<and> net' = net(q \<mapsto> b') \<and> engine_inv b' \<and>
       received k ms True (en_node b) (en_node b') \<and>
       flows reliable (if ok then request_texts rq else []) ms (request_texts rq))"
proof (cases f)
  case CallLost
  with d show ?thesis
    by simp
next
  case (CallHandled now hasher clock broken reply)
  obtain b x r b' where b: "net q = Some b" "request_op now hasher clock broken rq = Some x"
    "engine_step b x = Some (r, b')" "ok = (r \<and> reply \<and> broken = None)" "net' = net(q \<mapsto> b')"
    using d CallHandled by (auto simp: bind_eq_Some_conv)
  have inv: "engine_inv b"
    using invs b(1) by blast
  define ms where "ms = (case rq of TellRequest k m \<Rightarrow> [m] | NarrateRequest k ms \<Rightarrow> stream_parts broken ms
    | GreetRequest n k a \<Rightarrow> [] | HeartbeatRequest k \<Rightarrow> [])"
  have ms: "subseq ms (request_texts rq)" "broken = None \<Longrightarrow> ms = request_texts rq"
    by (auto simp: ms_def stream_parts_def prefix_imp_subseq take_is_prefix split: request.split option.split)
  have x: "engine_op_ok x"
    using b(2) k by (auto simp: text_call_def)
  have inv': "engine_inv b'"
    using engine_step_inv[OF inv x] b(3) by auto
  have rcv: "received k ms r (en_node b) (en_node b')"
    using k tell_received[OF inv] narrate_received[OF inv] b(2,3)
    by (auto simp: text_call_def ms_def)
  then have "received k (if r then ms else []) True (en_node b) (en_node b')"
    by (simp add: received_def)
  moreover have "flows reliable (if ok then request_texts rq else []) (if r then ms else []) (request_texts rq)"
    using ms b(4) rel CallHandled by (auto simp: flows_def)
  ultimately show ?thesis
    using b inv' by blast
qed

subsection \<open>The calls of a turn\<close>

text \<open>
  What the calls \<open>cs\<close> with identity \<open>k\<close> leave of the network: every engine is there still, and has
  heard from \<open>k\<close> what was sent to its address, and nothing from others.
\<close>

definition carried ::
  "bool \<Rightarrow> string \<Rightarrow> (string \<times> request \<times> bool) list \<Rightarrow> network \<Rightarrow> network \<Rightarrow> bool" where
  "carried reliable k cs net net' \<longleftrightarrow> dom net' = dom net \<and>
     (\<forall>q b b'. net q = Some b \<longrightarrow> net' q = Some b' \<longrightarrow>
        engine_inv b' \<and> who (en_node b') = who (en_node b) \<and>
        (\<exists>hs. flows reliable (texts_to False q cs) hs (texts_to True q cs) \<and>
           (\<forall>j. elsewhere j (en_node b) \<longrightarrow>
              heard_from j (en_node b') = heard_from j (en_node b) @ (if j = k then hs else []))))"

lemma carriedD:
  assumes "carried reliable k cs net net'" "net q = Some b"
  shows "\<exists>b' hs. net' q = Some b' \<and> engine_inv b' \<and> who (en_node b') = who (en_node b) \<and>
    flows reliable (texts_to False q cs) hs (texts_to True q cs) \<and>
    (\<forall>j. elsewhere j (en_node b) \<longrightarrow>
       heard_from j (en_node b') = heard_from j (en_node b) @ (if j = k then hs else []))"
proof -
  obtain b' where "net' q = Some b'"
    using assms by (force simp: carried_def)
  with assms show ?thesis
    unfolding carried_def by blast
qed

lemma carried_same:
  assumes "carried reliable k cs net net'" "net q = Some b" "net' q = Some b'"
  shows "engine_inv b'" "who (en_node b') = who (en_node b)"
    "\<exists>hs. flows reliable (texts_to False q cs) hs (texts_to True q cs) \<and>
      (\<forall>j. elsewhere j (en_node b) \<longrightarrow>
         heard_from j (en_node b') = heard_from j (en_node b) @ (if j = k then hs else []))"
  using assms unfolding carried_def by blast+

lemma carried_Nil:
  assumes "\<forall>q b. net q = Some b \<longrightarrow> engine_inv b"
  shows "carried reliable k [] net net"
  using assms by (auto simp: carried_def intro!: exI[of _ "[]"])

lemma carried_Cons:
  assumes inv: "\<forall>q b. net q = Some b \<longrightarrow> engine_inv b"
    and d: "deliver f q rq net = Some (ok, net1)" "text_call k rq" "reliable \<longrightarrow> fate_reliable f"
    and c: "carried reliable k cs net1 net'"
  shows "carried reliable k ((q, rq, ok) # cs) net net'"
  using deliver_flows[OF d(1,2) inv d(3)]
proof (elim disjE exE conjE)
  assume n: "net1 = net" "\<not> ok"
  have wider: "flows reliable ds hs (us @ ts)" if "flows reliable ds hs ts" for ds hs ts us
    using that by (auto simp: flows_def intro: list_emb_append2)
  show ?thesis
    unfolding carried_def
  proof (intro conjI allI impI)
    show "dom net' = dom net"
      using c n(1) by (simp add: carried_def)
  next
    fix a e e'
    assume e: "net a = Some e" "net' a = Some e'"
    then obtain hs where hs: "engine_inv e'" "who (en_node e') = who (en_node e)"
      "flows reliable (texts_to False a cs) hs (texts_to True a cs)"
      "\<forall>j. elsewhere j (en_node e) \<longrightarrow>
         heard_from j (en_node e') = heard_from j (en_node e) @ (if j = k then hs else [])"
      using carriedD[OF c, of a] n(1) by auto
    show "engine_inv e'" "who (en_node e') = who (en_node e)"
      by (rule hs)+
    show "\<exists>hs. flows reliable (texts_to False a ((q, rq, ok) # cs)) hs (texts_to True a ((q, rq, ok) # cs)) \<and>
      (\<forall>j. elsewhere j (en_node e) \<longrightarrow>
         heard_from j (en_node e') = heard_from j (en_node e) @ (if j = k then hs else []))"
      using hs(3,4) n(2) wider by (intro exI[of _ hs]) simp
  qed
next
  fix b b' ms
  assume b: "net q = Some b" "net1 = net(q \<mapsto> b')" "engine_inv b'"
    and r: "received k ms True (en_node b) (en_node b')"
    and f: "flows reliable (if ok then request_texts rq else []) ms (request_texts rq)"
  show ?thesis
    unfolding carried_def
  proof (intro conjI allI impI)
    show "dom net' = dom net"
      using c b(1,2) by (auto simp: carried_def)
  next
    fix a e e'
    assume e: "net a = Some e" "net' a = Some e'"
    show "engine_inv e'"
      using carriedD[OF c, of a] e b by (cases "a = q") auto
    show "who (en_node e') = who (en_node e)"
      using carriedD[OF c, of a] e b r by (cases "a = q") (auto simp: received_def)
    show "\<exists>hs. flows reliable (texts_to False a ((q, rq, ok) # cs)) hs (texts_to True a ((q, rq, ok) # cs)) \<and>
      (\<forall>j. elsewhere j (en_node e) \<longrightarrow>
         heard_from j (en_node e') = heard_from j (en_node e) @ (if j = k then hs else []))"
    proof (cases "a = q")
      case False
      then show ?thesis
        using carriedD[OF c, of a] e b(2) by auto
    next
      case True
      obtain hs where hs: "flows reliable (texts_to False q cs) hs (texts_to True q cs)"
        "\<forall>j. elsewhere j (en_node b') \<longrightarrow>
           heard_from j (en_node e') = heard_from j (en_node b') @ (if j = k then hs else [])"
        using carriedD[OF c, of q b'] e b(2) True by auto
      have "elsewhere j (en_node b') = elsewhere j (en_node b)" for j
        using r who_sent unfolding received_def by blast
      then have "heard_from j (en_node e') = heard_from j (en_node e) @ (if j = k then ms @ hs else [])"
        if "elsewhere j (en_node e)" for j
        using r hs(2) that e(1) b(1) True by (simp add: received_def)
      moreover have "flows reliable (texts_to False a ((q, rq, ok) # cs)) (ms @ hs)
          (texts_to True a ((q, rq, ok) # cs))"
        using flows_append[OF f hs(1)] True by simp
      ultimately show ?thesis
        by blast
    qed
  qed
qed

lemma deliver_inv:
  assumes "deliver f q rq net = Some (ok, net')" "text_call k rq" "\<forall>q b. net q = Some b \<longrightarrow> engine_inv b"
    and "net' a = Some b"
  shows "engine_inv b"
proof -
  have "net' = net \<or> (\<exists>b'. net' = net(q \<mapsto> b') \<and> engine_inv b')"
    using deliver_flows[OF assms(1-3), where reliable = False] by blast
  with assms(3,4) show ?thesis
    by (auto split: if_splits)
qed

lemma deliver_all_carried:
  "deliver_all fs cs net = Some net' \<Longrightarrow> \<forall>(q, rq, ok) \<in> set cs. text_call k rq \<Longrightarrow>
   \<forall>q b. net q = Some b \<longrightarrow> engine_inv b \<Longrightarrow> (reliable \<longrightarrow> list_all fate_reliable fs) \<Longrightarrow>
   carried reliable k cs net net'"
proof (induction fs cs net arbitrary: net' rule: deliver_all.induct)
  case (1 net)
  then show ?case
    by (simp add: carried_Nil)
next
  case (2 f fs q rq ok cs net)
  then obtain net1 where d: "deliver f q rq net = Some (ok, net1)" "deliver_all fs cs net1 = Some net'"
    by (auto simp: bind_eq_Some_conv split: if_splits)
  have k: "text_call k rq" "\<forall>(q, rq, ok) \<in> set cs. text_call k rq"
    using "2.prems"(2) by auto
  have inv: "\<forall>q b. net1 q = Some b \<longrightarrow> engine_inv b"
    using deliver_inv[OF d(1) k(1)] "2.prems"(3) by blast
  have "carried reliable k cs net1 net'"
    using "2.IH"[OF d(1) _ _ d(2) k(2) inv] "2.prems"(4) by simp
  with d(1) k(1) "2.prems"(3,4) show ?case
    by (auto intro: carried_Cons)
qed simp_all

subsection \<open>The invariant of a network\<close>

text \<open>Every engine is sound and is the one its address says; no two have the same identity.\<close>

definition net_inv :: "network \<Rightarrow> bool" where
  "net_inv net \<longleftrightarrow> (\<forall>p a. net p = Some a \<longrightarrow> engine_inv a \<and> nd_address (en_node a) = p) \<and>
     (\<forall>p q a b. net p = Some a \<longrightarrow> net q = Some b \<longrightarrow>
        own_identity (en_node a) = own_identity (en_node b) \<longrightarrow> p = q)"

lemma net_invD:
  assumes "net_inv net" "net p = Some a"
  shows "engine_inv a" "node_inv (en_node a)" "nd_address (en_node a) = p"
    "\<And>q b. net q = Some b \<Longrightarrow> own_identity (en_node a) = own_identity (en_node b) \<Longrightarrow> p = q"
  using assms by (auto simp: net_inv_def engine_inv_def)

lemma net_inv_update:
  assumes "net_inv net" "net p = Some e" "engine_inv e'" "nd_address (en_node e') = p"
    and "own_identity (en_node e') = own_identity (en_node e)"
  shows "net_inv (net(p \<mapsto> e'))"
  unfolding net_inv_def
proof (intro conjI allI impI)
  fix q a
  assume "(net(p \<mapsto> e')) q = Some a"
  with assms(1,3,4) show "engine_inv a" "nd_address (en_node a) = q"
    by (auto simp: net_inv_def split: if_splits)
next
  fix q q' a b
  assume a: "(net(p \<mapsto> e')) q = Some a" "(net(p \<mapsto> e')) q' = Some b"
    "own_identity (en_node a) = own_identity (en_node b)"
  define old where "old c x = (if c = p then e else x)" for c and x :: engine
  have "net q = Some (old q a)" "net q' = Some (old q' b)"
    using a(1,2) assms(2) by (auto simp: old_def split: if_splits)
  moreover have "own_identity (en_node (old q a)) = own_identity (en_node (old q' b))"
    using a assms(5) by (simp add: old_def split: if_splits)
  ultimately show "q = q'"
    using assms(1) unfolding net_inv_def by blast
qed

text \<open>What host \<open>q\<close> has heard of the calls of host \<open>p\<close> to its address.\<close>

definition linked :: "bool \<Rightarrow> network \<Rightarrow> string \<Rightarrow> string \<Rightarrow> bool" where
  "linked reliable net p q \<longleftrightarrow>
     (\<forall>a b. net p = Some a \<longrightarrow> net q = Some b \<longrightarrow> elsewhere (own_identity (en_node a)) (en_node b) \<longrightarrow>
        flows reliable (texts_to False q (calls_of (en_node a)))
          (heard_from (own_identity (en_node a)) (en_node b)) (texts_to True q (calls_of (en_node a))))"

definition net_linked :: "bool \<Rightarrow> network \<Rightarrow> bool" where
  "net_linked reliable net \<longleftrightarrow> net_inv net \<and> (\<forall>p q. p \<noteq> q \<longrightarrow> linked reliable net p q)"

subsection \<open>Steps of one engine\<close>

lemma calls_of_address:
  assumes "node_inv n" "grows n n'" "nd_calls n' = nd_calls n @ cs"
  shows "calls_of n' = calls_of n @ map (\<lambda>(i, rq, ok). (address_of n' i, rq, ok)) cs"
proof -
  have "address_of n' i = address_of n i" if "(i, rq, ok) \<in> set (nd_calls n)" for i rq ok
  proof -
    have "i < node_size n"
      using node_invD(7)[OF assms(1)] that by (force simp: keys_def)
    moreover obtain ys where "cards (nd_contacts n') = cards (nd_contacts n) @ ys"
      using growsD(2)[OF assms(2)] by blast
    ultimately show ?thesis
      by (simp add: address_of_def nth_append node_size_cards)
  qed
  then show ?thesis
    using assms(3) by (auto simp: calls_of_def)
qed

lemma texts_to_textless:
  "\<forall>c \<in> set cs. request_texts (fst (snd c)) = [] \<Longrightarrow>
   texts_to all q (map (\<lambda>(i, rq, ok). (f i, rq, ok)) cs) = []"
  by (induction cs) auto

text \<open>What was sent, the own identity, and what was heard by a node at another address survive.\<close>

lemma grows_sent:
  assumes inv: "node_inv n" and g: "grows n n'"
  shows "texts_to all q (calls_of n') = texts_to all q (calls_of n)" "own_identity n' = own_identity n"
    "elsewhere k n' \<Longrightarrow> elsewhere k n"
proof -
  note G = growsD[OF g]
  obtain cs where cs: "nd_calls n' = nd_calls n @ cs" "\<forall>c \<in> set cs. request_texts (fst (snd c)) = []"
    using G(5) by blast
  show "texts_to all q (calls_of n') = texts_to all q (calls_of n)"
    using calls_of_address[OF inv g cs(1)] texts_to_textless[OF cs(2)] by simp
  obtain ys where ys: "cards (nd_contacts n') = cards (nd_contacts n) @ ys"
    using G(2) by blast
  show "own_identity n' = own_identity n"
    using ys node_inv_size[OF inv] by (simp add: own_identity_def nth_append node_size_cards)
  assume e: "elsewhere k n'"
  show "elsewhere k n"
  proof (cases "contacts_find k (nd_contacts n)")
    case (Some i)
    then have "i < node_size n"
      using contacts_find_size sync_contacts_inv[OF node_invD(1)[OF inv]] by (simp add: node_size_def)
    then have "address_of n' i = address_of n i"
      using ys by (simp add: address_of_def nth_append node_size_cards)
    with e Some G(1) G(3)[OF Some] show ?thesis
      by (simp add: elsewhere_def)
  qed (simp add: elsewhere_def)
qed

lemma local_op_heard:
  assumes inv: "engine_inv e" and s: "engine_step e x = Some (r, e')" "local_op x"
  shows "heard_from k (en_node e') = heard_from k (en_node e)"
proof -
  have n: "node_inv (en_node e)"
    using inv by (simp add: engine_inv_def)
  have "op_inbox x (en_node e) i = []" for i
    using s(2) by (cases x) simp_all
  then have heard: "node_heard (en_node e') i = node_heard (en_node e) i" for i
    using engine_step_heard[OF inv s(1), of i] by simp
  note G = growsD[OF local_op_grows[OF inv s]]
  show ?thesis
  proof (cases "contacts_find k (nd_contacts (en_node e))")
    case (Some i)
    with G(3)[OF Some] heard show ?thesis
      by (simp add: heard_from_def)
  next
    case None
    have "node_heard (en_node e) i = []" if "node_size (en_node e) \<le> i" for i
      using that sync_length[OF node_invD(1)[OF n]]
      by (simp add: node_heard_def heard_texts_def node_size_def contacts_size_def)
    with None G(4)[OF None] heard show ?thesis
      by (simp add: heard_from_def split: option.split)
  qed
qed

lemma net_local_linked:
  assumes L: "net_linked reliable net" and s: "net_step net (NetLocal p x) = Some (r, net')"
    and x: "local_op x" "engine_op_ok x"
  shows "net_linked reliable net'"
proof -
  obtain e e' where e: "net p = Some e" "engine_step e x = Some (r, e')" "net' = net(p \<mapsto> e')"
    using s by (auto simp: bind_eq_Some_conv)
  have inv: "net_inv net" and link: "\<And>a b. a \<noteq> b \<Longrightarrow> linked reliable net a b"
    using L by (auto simp: net_linked_def)
  note I = net_invD[OF inv e(1)]
  have inv': "engine_inv e'"
    using engine_step_inv[OF I(1) x(2)] e(2) by auto
  have g: "grows (en_node e) (en_node e')"
    by (rule local_op_grows[OF I(1) e(2) x(1)])
  note S = grows_sent[OF I(2) g]
  have addr: "nd_address (en_node e') = p"
    using growsD(1)[OF g] I(3) by simp
  have "net_inv net'"
    unfolding e(3) by (rule net_inv_update[OF inv e(1) inv' addr S(2)])
  moreover have "linked reliable net' a b" if "a \<noteq> b" for a b
  proof (cases "b = p")
    case True
    with link[OF that] S(3) local_op_heard[OF I(1) e(2) x(1)] e(1,3) that show ?thesis
      by (auto simp: linked_def)
  next
    case False
    with link[OF that] S(1,2) e(1,3) show ?thesis
      by (auto simp: linked_def)
  qed
  ultimately show ?thesis
    by (simp add: net_linked_def)
qed

subsection \<open>Turns\<close>

lemma turn_effect:
  assumes inv: "engine_inv e" and s: "engine_step e (EngineChatTurn env) = Some (r, e')"
  shows "\<exists>cs. engine_inv e' \<and> nd_address (en_node e') = nd_address (en_node e) \<and>
    own_identity (en_node e') = own_identity (en_node e) \<and>
    (\<forall>j. heard_from j (en_node e') = heard_from j (en_node e) \<and>
       elsewhere j (en_node e') = elsewhere j (en_node e)) \<and>
    new_calls (en_node e) (en_node e') = cs \<and> calls_of (en_node e') = calls_of (en_node e) @ cs \<and>
    (\<forall>(q, rq, ok) \<in> set cs. text_call (own_identity (en_node e)) rq)"
proof -
  have n: "node_inv (en_node e)"
    using inv by (simp add: engine_inv_def)
  obtain n' where n': "bc_run_turn env (en_node e) = Some (r, n')" "e' = e\<lparr>en_node := n'\<rparr>"
    using s by (auto simp: on_node_Some)
  obtain cs xs where cs: "n' = (en_node e)\<lparr>nd_calls := nd_calls (en_node e) @ cs, mNeighbors := xs\<rparr>"
    "text_calls (own_identity (en_node e)) cs"
    using bc_run_turn_calls[OF n n'(1)] by blast
  have "engine_inv e'"
    using engine_step_inv[OF inv, of "EngineChatTurn env"] s by auto
  then show ?thesis
    using cs n'(2)
    by (auto simp: own_identity_def heard_from_def node_heard_def elsewhere_def new_calls_def calls_of_def
        text_calls_def split: option.split)
qed

lemma net_turn_linked:
  assumes L: "net_linked reliable net" and s: "net_step net (NetTurn p env fates) = Some (r, net')"
    and rel: "reliable \<longrightarrow> list_all fate_reliable fates"
  shows "net_linked reliable net'"
proof -
  obtain e e1 where e: "net p = Some e" "engine_step e (EngineChatTurn env) = Some (r, e1)"
    and d: "deliver_all fates (new_calls (en_node e) (en_node e1)) (net(p \<mapsto> e1)) = Some net'"
    using s by (auto simp: bind_eq_Some_conv simp del: engine_step.simps)
  have inv: "net_inv net" and link: "\<And>a b. a \<noteq> b \<Longrightarrow> linked reliable net a b"
    using L by (auto simp: net_linked_def)
  note I = net_invD[OF inv e(1)]
  let ?k = "own_identity (en_node e)"
  obtain cs where e1: "engine_inv e1" "nd_address (en_node e1) = p" "own_identity (en_node e1) = ?k"
    "\<forall>j. heard_from j (en_node e1) = heard_from j (en_node e) \<and>
       elsewhere j (en_node e1) = elsewhere j (en_node e)"
    and cs: "new_calls (en_node e) (en_node e1) = cs" "calls_of (en_node e1) = calls_of (en_node e) @ cs"
    "\<forall>(q, rq, ok) \<in> set cs. text_call ?k rq"
    using turn_effect[OF I(1) e(2)] I(3) by blast
  let ?net1 = "net(p \<mapsto> e1)"
  have inv1: "net_inv ?net1"
    by (rule net_inv_update[OF inv e(1) e1(1-3)])
  have invs: "\<forall>q b. ?net1 q = Some b \<longrightarrow> engine_inv b"
    using net_invD(1)[OF inv1] by blast
  have C: "carried reliable ?k cs ?net1 net'"
    by (rule deliver_all_carried[OF d[unfolded cs(1)] cs(3) invs rel])
  have kept: "\<exists>a1. ?net1 q = Some a1" if "net' q = Some a" for q a
    using C that unfolding carried_def by blast
  have inv': "net_inv net'"
    unfolding net_inv_def
  proof (intro conjI allI impI)
    fix q a
    assume a: "net' q = Some a"
    then obtain a1 where a1: "?net1 q = Some a1"
      using kept by blast
    show "engine_inv a"
      by (rule carried_same(1)[OF C a1 a])
    show "nd_address (en_node a) = q"
      using net_invD(3)[OF inv1 a1] who_sent[OF carried_same(2)[OF C a1 a]] by simp
  next
    fix q q' a b
    assume a: "net' q = Some a" "net' q' = Some b" "own_identity (en_node a) = own_identity (en_node b)"
    then obtain a1 b1 where a1: "?net1 q = Some a1" "?net1 q' = Some b1"
      using kept by blast
    have "own_identity (en_node a1) = own_identity (en_node b1)"
      using a(3) by (simp only: who_sent[OF carried_same(2)[OF C a1(1) a(1)]]
          who_sent[OF carried_same(2)[OF C a1(2) a(2)]])
    then show "q = q'"
      by (rule net_invD(4)[OF inv1 a1])
  qed
  have "linked reliable net' x y" if xy: "x \<noteq> y" for x y
    unfolding linked_def
  proof (intro allI impI)
    fix a b
    assume ab: "net' x = Some a" "net' y = Some b" and el: "elsewhere (own_identity (en_node a)) (en_node b)"
    obtain a1 b1 where n1: "?net1 x = Some a1" "?net1 y = Some b1"
      using kept ab by blast
    note who = carried_same(2)[OF C n1(1) ab(1)] carried_same(2)[OF C n1(2) ab(2)]
    obtain hs where hs: "flows reliable (texts_to False y cs) hs (texts_to True y cs)"
      "\<forall>j. elsewhere j (en_node b1) \<longrightarrow>
         heard_from j (en_node b) = heard_from j (en_node b1) @ (if j = ?k then hs else [])"
      using carried_same(3)[OF C n1(2) ab(2)] by blast
    have a: "calls_of (en_node a) = calls_of (en_node a1)" "own_identity (en_node a) = own_identity (en_node a1)"
      using who_sent[OF who(1)] by simp_all
    have el1: "elsewhere (own_identity (en_node a1)) (en_node b1)"
      using el a(2) who_sent[OF who(2)] by simp
    define b0 where "b0 = (if y = p then e else b1)"
    have b0: "net y = Some b0" "\<And>j. heard_from j (en_node b1) = heard_from j (en_node b0)"
      "\<And>j. elsewhere j (en_node b1) = elsewhere j (en_node b0)"
      using n1(2) e(1) e1(4) by (auto simp: b0_def split: if_splits)
    show "flows reliable (texts_to False y (calls_of (en_node a)))
      (heard_from (own_identity (en_node a)) (en_node b)) (texts_to True y (calls_of (en_node a)))"
    proof (cases "x = p")
      case True
      then have "a1 = e1"
        using n1(1) by simp
      moreover have "flows reliable (texts_to False y (calls_of (en_node e))) (heard_from ?k (en_node b0))
          (texts_to True y (calls_of (en_node e)))"
        using link[OF xy] True e(1) b0 el1 e1(3) \<open>a1 = e1\<close> by (auto simp: linked_def)
      ultimately show ?thesis
        using flows_append[OF _ hs(1)] hs(2) el1 e1(3) cs(2) a b0(2) by simp
    next
      case False
      then have nx: "net x = Some a1"
        using n1(1) by simp
      have "own_identity (en_node a1) \<noteq> ?k"
        using net_invD(4)[OF inv nx e(1)] False by blast
      then show ?thesis
        using link[OF xy] nx b0 el1 hs(2) a by (auto simp: linked_def)
    qed
  qed
  with inv' show ?thesis
    by (simp add: net_linked_def)
qed

subsection \<open>Runs\<close>

interpretation lossy: partial_machine net_step "net_linked False" net_op_ok
proof unfold_locales
  fix net x r net'
  assume "net_linked False net" "net_op_ok x" "net_step net x = Some (r, net')"
  then show "net_linked False net'"
    by (cases x) (auto intro: net_local_linked net_turn_linked simp del: net_step.simps)
qed

interpretation exact: partial_machine net_step "net_linked True" "\<lambda>x. net_op_ok x \<and> net_op_reliable x"
proof unfold_locales
  fix net x r net'
  assume "net_linked True net" "net_op_ok x \<and> net_op_reliable x" "net_step net x = Some (r, net')"
  then show "net_linked True net'"
    by (cases x) (auto intro: net_local_linked net_turn_linked simp del: net_step.simps)
qed

lemma new_engine_start:
  assumes "length nick < TTCONTACTS_DATA_MAX_LENGTH" "new_engine nick ident ip port neighbors now = Some e"
  shows "engine_inv e \<and> nd_address (en_node e) = ip @ '':'' @ port \<and> own_identity (en_node e) = ident \<and>
    nd_calls (en_node e) = [] \<and> heard_from k (en_node e) = []"
proof -
  have "nd_calls (en_node e) = []"
    using assms(2) by (auto simp: new_engine_def bind_eq_Some_conv Let_def)
  moreover have "heard_from k (en_node e) = []"
    using new_engine_heard[OF assms(2)] by (simp add: heard_from_def split: option.split)
  ultimately show ?thesis
    using new_engine_inv[OF assms(1), of ident ip port neighbors now] assms(2) by (simp add: own_identity_def)
qed

lemma start_network_hosts:
  "start_network hs = Some net \<Longrightarrow> \<forall>h \<in> set hs. length (host_nickname h) < TTCONTACTS_DATA_MAX_LENGTH \<Longrightarrow>
   net p = Some a \<Longrightarrow>
   engine_inv a \<and> nd_address (en_node a) = p \<and> nd_calls (en_node a) = [] \<and> heard_from k (en_node a) = [] \<and>
   (\<exists>h \<in> set hs. host_address h = p \<and> host_identity h = own_identity (en_node a))"
proof (induction hs arbitrary: net rule: start_network.induct)
  case (2 nick ident ip port neighbors now hs)
  then obtain e net1 where e: "new_engine nick ident ip port neighbors now = Some e"
    "start_network hs = Some net1" "net = net1(ip @ '':'' @ port \<mapsto> e)"
    by (auto simp: bind_eq_Some_conv)
  show ?case
  proof (cases "p = ip @ '':'' @ port")
    case True
    with "2.prems"(2,3) e(3) new_engine_start[OF _ e(1), of k] show ?thesis
      by auto
  next
    case False
    with "2.prems" e "2.IH"[OF e(1,2)] show ?thesis
      by auto
  qed
qed simp

lemma start_network_linked:
  assumes "hosts_ok hs" "start_network hs = Some net"
  shows "net_linked reliable net"
proof -
  have short: "\<forall>h \<in> set hs. length (host_nickname h) < TTCONTACTS_DATA_MAX_LENGTH"
    and ids: "inj_on host_identity (set hs)"
    using assms(1) by (auto simp: hosts_ok_def distinct_map)
  note H = start_network_hosts[OF assms(2) short]
  have "p = q" if ab: "net p = Some a" "net q = Some b" "own_identity (en_node a) = own_identity (en_node b)"
    for p q a b
  proof -
    obtain h g where "h \<in> set hs" "host_address h = p" "host_identity h = own_identity (en_node a)"
      "g \<in> set hs" "host_address g = q" "host_identity g = own_identity (en_node b)"
      using H[OF ab(1)] H[OF ab(2)] by blast
    then show ?thesis
      using ids ab(3) inj_onD[OF ids, of h g] by simp
  qed
  then have "net_inv net"
    using H unfolding net_inv_def by blast
  moreover have "linked reliable net p q" for p q
    using H by (simp add: linked_def calls_of_def)
  ultimately show ?thesis
    by (simp add: net_linked_def)
qed

text \<open>The calls to an address are those to the only contact there.\<close>

lemma texts_to_only:
  assumes "node_inv n" "\<And>i. i < node_size n \<Longrightarrow> address_of n i = q \<longleftrightarrow> i = j"
  shows "texts_to False q (calls_of n) = delivered j (nd_calls n)"
proof -
  have "address_of n i = q \<longleftrightarrow> i = j" if "(i, rq, ok) \<in> set (nd_calls n)" for i rq ok
    using node_invD(7)[OF assms(1), of i] assms(2)[of i] that by (force simp: keys_def)
  then show ?thesis
    unfolding texts_to_def calls_of_def delivered_def map_map
    by (intro arg_cong[of _ _ concat] map_cong[OF refl]) auto
qed

text \<open>The texts of a conversation.\<close>

definition sent_texts :: "engine \<Rightarrow> nat \<Rightarrow> string list" where
  "sent_texts e i = map te_data (filter (\<lambda>t. te_type t = SENDER) (mMessages (nd_chat (en_node e)) ! i))"

definition received_texts :: "engine \<Rightarrow> nat \<Rightarrow> string list" where
  "received_texts e i = map te_data (filter (\<lambda>t. te_type t = RECEIVER) (mMessages (nd_chat (en_node e)) ! i))"

lemma received_texts_heard:
  assumes "engine_inv e" "contacts_find k (nd_contacts (en_node e)) = Some i"
  shows "received_texts e i = heard_from k (en_node e)"
proof -
  have n: "node_inv (en_node e)"
    using assms(1) by (simp add: engine_inv_def)
  have "i < node_size (en_node e)"
    using contacts_find_size[OF _ assms(2)] sync_contacts_inv[OF node_invD(1)[OF n]]
    by (simp add: node_size_def)
  then have "i < length (mMessages (nd_chat (en_node e)))"
    using sync_length[OF node_invD(1)[OF n]] by (simp add: node_size_def contacts_size_def)
  then show ?thesis
    using assms(2) by (simp add: received_texts_def heard_from_def node_heard_def heard_texts_def)
qed

lemma sent_texts_ledger:
  assumes "engine_inv e" "i < node_size (en_node e)" "address_of (en_node e) i \<noteq> nd_address (en_node e)"
  shows "sent_texts e i = delivered i (nd_calls (en_node e)) @ pending_for i (mNeighbors (en_node e))"
proof -
  have n: "node_inv (en_node e)"
    using assms(1) by (simp add: engine_inv_def)
  have "i < length (mMessages (nd_chat (en_node e)))"
    using assms(2) sync_length[OF node_invD(1)[OF n]] by (simp add: node_size_def contacts_size_def)
  then show ?thesis
    using node_invD(8)[OF n assms(2,3)] by (simp add: sent_texts_def ledger_def own_talks_def)
qed

text \<open>Contact \<open>j\<close> is the only one at address \<open>q\<close>; contact \<open>i\<close> has identity \<open>k\<close> and is not the host.\<close>

definition only_contact :: "node \<Rightarrow> nat \<Rightarrow> string \<Rightarrow> bool" where
  "only_contact n j q \<longleftrightarrow> j < node_size n \<and> (\<forall>i < node_size n. address_of n i = q \<longleftrightarrow> i = j)"

definition known_as :: "node \<Rightarrow> string \<Rightarrow> nat \<Rightarrow> bool" where
  "known_as n k i \<longleftrightarrow> contacts_find k (nd_contacts n) = Some i \<and> address_of n i \<noteq> nd_address n"

lemma linked_conversations:
  assumes L: "net_linked reliable net" and pq: "p \<noteq> q" "net p = Some a" "net q = Some b"
    and j: "only_contact (en_node a) j q" and i: "known_as (en_node b) (own_identity (en_node a)) i"
  shows "\<exists>ds. sent_texts a j = ds @ pending_for j (mNeighbors (en_node a)) \<and>
    flows reliable ds (received_texts b i) (texts_to True q (calls_of (en_node a)))"
proof -
  have inv: "net_inv net" and link: "linked reliable net p q"
    using L pq(1) by (auto simp: net_linked_def)
  note A = net_invD[OF inv pq(2)] and B = net_invD[OF inv pq(3)]
  have j': "j < node_size (en_node a)" "address_of (en_node a) j \<noteq> nd_address (en_node a)"
    using j pq(1) A(3) by (auto simp: only_contact_def)
  have i': "contacts_find (own_identity (en_node a)) (nd_contacts (en_node b)) = Some i"
    "elsewhere (own_identity (en_node a)) (en_node b)"
    using i by (simp_all add: known_as_def elsewhere_def)
  have "texts_to False q (calls_of (en_node a)) = delivered j (nd_calls (en_node a))"
    by (rule texts_to_only[OF A(2)]) (use j in \<open>simp add: only_contact_def\<close>)
  moreover have "flows reliable (texts_to False q (calls_of (en_node a))) (received_texts b i)
      (texts_to True q (calls_of (en_node a)))"
    using link pq(2,3) i'(2) received_texts_heard[OF B(1) i'(1)] by (simp add: linked_def)
  ultimately show ?thesis
    using sent_texts_ledger[OF A(1) j'] by auto
qed

subsection \<open>Properties\<close>

text \<open>
  C1: two hosts read the same conversation: whatever the users, the loops and the other hosts do,
  in whatever order, as long as no reply is lost and no stream breaks, the texts \<open>q\<close> shows as received
  from \<open>p\<close> are those \<open>p\<close> sent to its contact at \<open>q\<close>, in order and each once, up to the ones
  pending at \<open>p\<close>.
\<close>

theorem network_conversations:
  assumes "hosts_ok hs" "start_network hs = Some net0"
    and "list_all (\<lambda>x. net_op_ok x \<and> net_op_reliable x) xs" "run_ops net_step net0 xs = Some (rs, net)"
    and "p \<noteq> q" "net p = Some a" "net q = Some b"
    and "only_contact (en_node a) j q" "known_as (en_node b) (own_identity (en_node a)) i"
  shows "sent_texts a j = received_texts b i @ pending_for j (mNeighbors (en_node a))"
proof -
  have "net_linked True net"
    using exact.run_inv[OF start_network_linked[OF assms(1,2)] assms(3,4)] .
  from linked_conversations[OF this assms(5-9)] show ?thesis
    by (auto simp: flows_def)
qed

text \<open>
  Two hosts find each other; one writes two messages, which go out as one stream, then a third, whose
  call is lost, and the other answers.
\<close>

definition sample_hosts :: "host list" where
  "sample_hosts = [(''ann'', ''id-ann'', ''10.0.0.1'', ''80'', [], 0), (''bob'', ''id-bob'', ''10.0.0.2'', ''80'', [], 0)]"

definition good_turn :: chat_env where
  "good_turn i = (9000000000, 9000000000, True, True)"

definition sample_meeting :: "net_op list" where
  "sample_meeting =
     [NetLocal ''10.0.0.1:80'' (EngineGreet 5000 0 ''bob'' ''id-bob'' ''10.0.0.2:80''),
      NetLocal ''10.0.0.2:80'' (EngineGreet 5000 0 ''ann'' ''id-ann'' ''10.0.0.1:80''),
      NetLocal ''10.0.0.1:80'' (EngineSelection 1 1),
      NetLocal ''10.0.0.2:80'' (EngineSelection 1 1),
      NetLocal ''10.0.0.1:80'' (EngineMailbox 2 (fresh_neighbor True 3000 0) ''hi'')]"

definition sample_talk :: "net_op list" where
  "sample_talk = sample_meeting @
     [NetLocal ''10.0.0.1:80'' (EngineMailbox 3 (fresh_neighbor True 3000 0) ''bob''),
      NetTurn ''10.0.0.1:80'' good_turn [CallHandled 4 length (\<lambda>k. 4) None True],
      NetLocal ''10.0.0.2:80'' (EngineMailbox 5 (fresh_neighbor True 3000 0) ''hello''),
      NetLocal ''10.0.0.1:80'' (EngineMailbox 6 (fresh_neighbor True 3000 0) ''you?''),
      NetTurn ''10.0.0.2:80'' good_turn [CallHandled 7 length (\<lambda>k. 7) None True],
      NetTurn ''10.0.0.1:80'' (\<lambda>i. (90000000000, 90000000000, True, False)) [CallLost]]"

definition talk_at ::
  "host list \<Rightarrow> net_op list \<Rightarrow> string \<Rightarrow> string \<Rightarrow> (engine \<Rightarrow> engine \<Rightarrow> bool) \<Rightarrow> bool" where
  "talk_at hs xs p q P \<longleftrightarrow>
     (case start_network hs of None \<Rightarrow> False | Some net0 \<Rightarrow>
       (case run_ops net_step net0 xs of None \<Rightarrow> False | Some (rs, net) \<Rightarrow>
         (case (net p, net q) of (Some a, Some b) \<Rightarrow> P a b | _ \<Rightarrow> False)))"

definition two_contacts :: "engine \<Rightarrow> engine \<Rightarrow> bool" where
  "two_contacts a b \<longleftrightarrow> node_size (en_node a) = 2 \<and> address_of (en_node a) 0 = ''10.0.0.1:80'' \<and>
     address_of (en_node a) 1 = ''10.0.0.2:80'' \<and> known_as (en_node b) (own_identity (en_node a)) 1"

lemma two_contacts_only: "two_contacts a b \<Longrightarrow> only_contact (en_node a) 1 ''10.0.0.2:80''"
  by (auto simp: two_contacts_def only_contact_def less_Suc_eq numeral_2_eq_2)

lemma sample_talk_run:
  "talk_at sample_hosts sample_talk ''10.0.0.1:80'' ''10.0.0.2:80'' (\<lambda>a b. two_contacts a b \<and>
     received_texts b 1 = [''hi'', ''bob''] \<and> pending_for 1 (mNeighbors (en_node a)) = [''you?''])"
  by code_simp

lemma talk_atD:
  assumes "talk_at hs xs p q P"
  shows "\<exists>net0 rs net a b. start_network hs = Some net0 \<and> run_ops net_step net0 xs = Some (rs, net) \<and>
    net p = Some a \<and> net q = Some b \<and> P a b"
  using assms by (auto simp: talk_at_def split: option.splits)

lemma sample_hosts_ok: "hosts_ok sample_hosts"
  by (simp add: hosts_ok_def sample_hosts_def TTCONTACTS_DATA_MAX_LENGTH_def)

lemma sample_talk_ok: "list_all (\<lambda>x. net_op_ok x \<and> net_op_reliable x) sample_talk"
  by (simp add: sample_talk_def sample_meeting_def TTCONTACTS_DATA_MAX_LENGTH_def)

theorem network_conversations_witness:
  "\<exists>a :: engine. sent_texts a 1 = [''hi'', ''bob'', ''you?'']"
proof -
  obtain net0 rs net a b where run: "start_network sample_hosts = Some net0"
    "run_ops net_step net0 sample_talk = Some (rs, net)"
    and ab: "net ''10.0.0.1:80'' = Some a" "net ''10.0.0.2:80'' = Some b"
    and two: "two_contacts a b"
    and res: "received_texts b 1 = [''hi'', ''bob'']" "pending_for 1 (mNeighbors (en_node a)) = [''you?'']"
    using talk_atD[OF sample_talk_run] by blast
  have "sent_texts a 1 = received_texts b 1 @ pending_for 1 (mNeighbors (en_node a))"
    by (rule network_conversations[OF sample_hosts_ok run(1) sample_talk_ok run(2) _ ab two_contacts_only[OF two]])
      (use two in \<open>simp_all add: two_contacts_def\<close>)
  with res show ?thesis
    by (intro exI[of _ a]) simp
qed

text \<open>
  C3: whatever becomes of calls and replies, every message arrives at least once and in order: the
  texts \<open>p\<close> sent, less the pending ones, are a subsequence of those \<open>q\<close> shows as received from it, and
  these are a subsequence of what the calls of \<open>p\<close> to \<open>q\<close> carried, so nothing is made up.
\<close>

theorem network_at_least_once:
  assumes "hosts_ok hs" "start_network hs = Some net0"
    and "list_all net_op_ok xs" "run_ops net_step net0 xs = Some (rs, net)"
    and "p \<noteq> q" "net p = Some a" "net q = Some b"
    and "only_contact (en_node a) j q" "known_as (en_node b) (own_identity (en_node a)) i"
  shows "\<exists>ds. sent_texts a j = ds @ pending_for j (mNeighbors (en_node a)) \<and>
    subseq ds (received_texts b i) \<and>
    subseq (received_texts b i) (texts_to True q (calls_of (en_node a)))"
proof -
  have "net_linked False net"
    using lossy.run_inv[OF start_network_linked[OF assms(1,2)] assms(3,4)] .
  from linked_conversations[OF this assms(5-9)] show ?thesis
    by (auto simp: flows_def)
qed

text \<open>A stream that breaks after its first part, and a call whose reply is lost.\<close>

definition sample_trouble :: "net_op list" where
  "sample_trouble = sample_meeting @
     [NetLocal ''10.0.0.1:80'' (EngineMailbox 3 (fresh_neighbor True 3000 0) ''bob''),
      NetTurn ''10.0.0.1:80'' (\<lambda>i. (9000000000, 9000000000, True, False)) [CallHandled 4 length (\<lambda>k. 4) (Some 1) True],
      NetTurn ''10.0.0.1:80'' (\<lambda>i. (90000000000, 90000000000, True, True)) [CallHandled 5 length (\<lambda>k. 5) None True]]"

lemma sample_trouble_run:
  "talk_at sample_hosts sample_trouble ''10.0.0.1:80'' ''10.0.0.2:80'' (\<lambda>a b. two_contacts a b \<and>
     received_texts b 1 = [''hi'', ''hi'', ''bob''] \<and> pending_for 1 (mNeighbors (en_node a)) = [])"
  by code_simp

theorem network_at_least_once_witness:
  "\<exists>(a :: engine) (b :: engine). received_texts b 1 = [''hi'', ''hi'', ''bob''] \<and>
    subseq (sent_texts a 1) (received_texts b 1)"
proof -
  obtain net0 rs net a b where run: "start_network sample_hosts = Some net0"
    "run_ops net_step net0 sample_trouble = Some (rs, net)"
    and ab: "net ''10.0.0.1:80'' = Some a" "net ''10.0.0.2:80'' = Some b"
    and two: "two_contacts a b"
    and res: "received_texts b 1 = [''hi'', ''hi'', ''bob'']" "pending_for 1 (mNeighbors (en_node a)) = []"
    using talk_atD[OF sample_trouble_run] by blast
  have ok: "list_all net_op_ok sample_trouble"
    by (simp add: sample_trouble_def sample_meeting_def TTCONTACTS_DATA_MAX_LENGTH_def)
  have "\<exists>ds. sent_texts a 1 = ds @ pending_for 1 (mNeighbors (en_node a)) \<and> subseq ds (received_texts b 1) \<and>
    subseq (received_texts b 1) (texts_to True ''10.0.0.2:80'' (calls_of (en_node a)))"
    by (rule network_at_least_once[OF sample_hosts_ok run(1) ok run(2) _ ab two_contacts_only[OF two]])
      (use two in \<open>simp_all add: two_contacts_def\<close>)
  with res show ?thesis
    by (intro exI[of _ a] exI[of _ b]) simp
qed



end
