(* ===== verification/Network_Delivery.thy ===== *)
theory Network_Delivery
  imports Network
begin

text \<open>
  Progress of the network (Network): from any state it can reach, one turn of the chat loop whose
  call to a neighbor goes through completes the conversation with that neighbor, whatever becomes
  of the turn's other calls.
\<close>

subsection \<open>A turn in which one neighbor answers\<close>

definition all_expired :: "int \<Rightarrow> (nat \<times> chat_neighbor) list \<Rightarrow> bool" where
  "all_expired t xs \<longleftrightarrow> (\<forall>(i, nb) \<in> set xs. timer_expired t (nb_timer nb))"

lemma timer_remaining_mono: "s \<le> t \<Longrightarrow> timer_remaining s w \<le> timer_remaining t w"
  by (auto simp: timer_remaining_def Let_def zdiv_mono1 intro: order_trans[of _ 0]
      div_int_pos_iff[THEN iffD2])

lemma timer_expired_mono: "timer_expired s w \<Longrightarrow> s \<le> t \<Longrightarrow> timer_expired t w"
  using timer_remaining_mono[of s t w] by (simp add: timer_expired_def)

text \<open>Every timer expires some time.\<close>

lemma timer_expires: "\<exists>t. timer_expired t w"
proof -
  have "timer_expired (mTimestamp w + \<bar>mThreshold w\<bar> * 1000000) w"
    by (simp add: timer_expired_def timer_remaining_def Let_def)
  then show ?thesis ..
qed

lemma all_expired_some: "\<exists>t. all_expired t xs"
proof (induction xs)
  case (Cons x xs)
  then obtain t where t: "all_expired t xs"
    by blast
  obtain s where s: "timer_expired s (nb_timer (snd x))"
    using timer_expires by blast
  have "all_expired (max s t) (x # xs)"
    using timer_expired_mono[OF s, of "max s t"] t
    by (auto simp: all_expired_def intro: timer_expired_mono[of t _ "max s t"])
  then show ?case ..
qed (simp add: all_expired_def)

text \<open>Only the call to contact \<open>j\<close> succeeds.\<close>

definition reach_env :: "int \<Rightarrow> nat \<Rightarrow> chat_env" where
  "reach_env t j i = (t, t, True, i = j)"

definition unanswered :: "(nat \<times> request \<times> bool) list \<Rightarrow> bool" where
  "unanswered cs \<longleftrightarrow> (\<forall>(i, rq, ok) \<in> set cs. \<not> ok)"

lemma unanswered_simps [simp]:
  "unanswered []" "unanswered ((i, rq, ok) # cs) \<longleftrightarrow> \<not> ok \<and> unanswered cs"
  "unanswered (cs @ ds) \<longleftrightarrow> unanswered cs \<and> unanswered ds"
  by (simp_all add: unanswered_def ball_Un)

text \<open>Contact \<open>j\<close> is shown as active, so that the loop calls it.\<close>

definition callable :: "node \<Rightarrow> nat \<Rightarrow> bool" where
  "callable n j \<longleftrightarrow>
     (case contacts_get j (nd_contacts n) of None \<Rightarrow> False | Some e \<Rightarrow> \<not> isInactive (state e))"

lemma callable_calls [simp]: "callable (n\<lparr>nd_calls := cs\<rparr>) = callable n"
  by (simp add: callable_def fun_eq_iff)

lemma bc_neighbor_other:
  assumes "bc_neighbor (reach_env t j i) i nb n = Some (nb', n')" "i \<noteq> j" "i < node_size n"
  shows "\<exists>cs. n' = n\<lparr>nd_calls := nd_calls n @ cs\<rparr> \<and> unanswered cs"
proof -
  have "bc_getIdentity n = (own_identity n, n)"
    using assms(3) by (simp add: bc_getIdentity_eq own_identity_def)
  moreover have "\<exists>cs. n = n\<lparr>nd_calls := nd_calls n @ cs\<rparr> \<and> unanswered cs"
    by (rule exI[of _ "[]"]) simp
  moreover have "\<exists>cs. n\<lparr>nd_calls := nd_calls n @ [(i, rq, False)]\<rparr> = n\<lparr>nd_calls := nd_calls n @ cs\<rparr> \<and>
      unanswered cs" for rq
    by (rule exI[of _ "[(i, rq, False)]"]) simp
  ultimately show ?thesis
    using assms(1,2) by (auto simp: bc_neighbor_def bc_call_def reach_env_def Let_def
        split: option.splits if_splits)
qed

lemma bc_neighbor_reached:
  assumes "bc_neighbor (reach_env t j j) j nb n = Some (nb', n')" "j < node_size n"
    and "timer_expired t (nb_timer nb)" "callable n j"
  shows "pendingMessages nb' = [] \<and>
    (n' = n \<or> (\<exists>rq. n' = n\<lparr>nd_calls := nd_calls n @ [(j, rq, True)]\<rparr> \<and>
       text_call (own_identity n) rq \<and> request_texts rq \<noteq> []))"
proof -
  have "bc_getIdentity n = (own_identity n, n)"
    using assms(2) by (simp add: bc_getIdentity_eq own_identity_def)
  with assms show ?thesis
    by (auto simp: bc_neighbor_def bc_call_def reach_env_def callable_def text_call_def Let_def
        split: option.splits if_splits)
qed

lemma bc_neighbors_others:
  "bc_neighbors (reach_env t j) xs n = Some (ys, n') \<Longrightarrow> j \<notin> keys xs \<Longrightarrow> \<forall>i \<in> keys xs. i < node_size n \<Longrightarrow>
   \<exists>cs. n' = n\<lparr>nd_calls := nd_calls n @ cs\<rparr> \<and> unanswered cs"
proof (induction xs arbitrary: n ys)
  case Nil
  then show ?case
    by (auto intro: exI[of _ "[]"])
next
  case (Cons x xs)
  obtain i nb where x: "x = (i, nb)"
    by (cases x)
  show ?case
  proof (cases "bc_stopped n")
    case True
    then show ?thesis
      using Cons.prems(1) x by (auto intro: exI[of _ "[]"])
  next
    case False
    then obtain nb' n1 zs where s: "bc_neighbor (reach_env t j i) i nb n = Some (nb', n1)"
      "bc_neighbors (reach_env t j) xs n1 = Some (zs, n')"
      using Cons.prems(1) x by (auto simp: bind_eq_Some_conv)
    obtain cs where cs: "n1 = n\<lparr>nd_calls := nd_calls n @ cs\<rparr>" "unanswered cs"
      using bc_neighbor_other[OF s(1)] Cons.prems(2,3) x by auto
    obtain ds where "n' = n1\<lparr>nd_calls := nd_calls n1 @ ds\<rparr>" "unanswered ds"
      using Cons.IH[OF s(2)] Cons.prems(2,3) x cs(1) by auto
    with cs show ?thesis
      by (intro exI[of _ "cs @ ds"]) simp
  qed
qed

text \<open>At most one call of the turn succeeds, and it is one to \<open>j\<close>.\<close>

definition reached_calls :: "string \<Rightarrow> nat \<Rightarrow> (nat \<times> request \<times> bool) list \<Rightarrow> bool" where
  "reached_calls k j cs \<longleftrightarrow> unanswered cs \<or>
     (\<exists>bs rq ds. cs = bs @ (j, rq, True) # ds \<and> unanswered bs \<and> unanswered ds \<and>
        text_call k rq \<and> request_texts rq \<noteq> [])"

lemma reached_calls_append:
  assumes "unanswered as"
  shows "reached_calls k j cs \<Longrightarrow> reached_calls k j (as @ cs)"
  unfolding reached_calls_def using assms by (metis append_assoc unanswered_simps(3))

lemma reached_calls_Cons:
  "text_call k rq \<Longrightarrow> request_texts rq \<noteq> [] \<Longrightarrow> unanswered ds \<Longrightarrow> reached_calls k j ((j, rq, True) # ds)"
  unfolding reached_calls_def by (rule disjI2) (rule exI[of _ "[]"], simp)

lemma bc_neighbors_reached:
  "bc_neighbors (reach_env t j) xs n = Some (ys, n') \<Longrightarrow> \<not> bc_stopped n \<Longrightarrow> all_expired t xs \<Longrightarrow>
   \<forall>i \<in> keys xs. i < node_size n \<Longrightarrow> keys_sorted xs \<Longrightarrow> j < node_size n \<Longrightarrow> callable n j \<Longrightarrow>
   pending_for j ys = [] \<and>
   (\<exists>cs. n' = n\<lparr>nd_calls := nd_calls n @ cs\<rparr> \<and> reached_calls (own_identity n) j cs)"
proof (induction xs arbitrary: n ys)
  case Nil
  then show ?case
    by (auto simp: pending_for_def reached_calls_def intro: exI[of _ "[]"])
next
  case (Cons x xs)
  obtain i nb where x: "x = (i, nb)"
    by (cases x)
  obtain nb' n1 zs where s: "bc_neighbor (reach_env t j i) i nb n = Some (nb', n1)"
    "bc_neighbors (reach_env t j) xs n1 = Some (zs, n')" "ys = (i, nb') # zs"
    using Cons.prems(1,2) x by (auto simp: bind_eq_Some_conv)
  have i: "i \<notin> keys xs" "i < node_size n" "timer_expired t (nb_timer nb)" "all_expired t xs"
    using Cons.prems(3-5) x by (auto simp: keys_def all_expired_def)
  show ?case
  proof (cases "i = j")
    case False
    obtain bs where bs: "n1 = n\<lparr>nd_calls := nd_calls n @ bs\<rparr>" "unanswered bs"
      using bc_neighbor_other[OF s(1) False i(2)] by blast
    have n1: "\<not> bc_stopped n1" "\<forall>i \<in> keys xs. i < node_size n1" "keys_sorted xs" "j < node_size n1"
      "callable n1 j"
      using Cons.prems(2,4-7) x bs(1) by simp_all
    obtain cs where "pending_for j zs = []" "n' = n1\<lparr>nd_calls := nd_calls n1 @ cs\<rparr>"
      "reached_calls (own_identity n1) j cs"
      using Cons.IH[OF s(2) n1(1) i(4) n1(2-5)] by blast
    with bs s(3) False show ?thesis
      by (intro conjI exI[of _ "bs @ cs"]) (simp_all add: pending_for_def reached_calls_append)
  next
    case True
    have r: "pendingMessages nb' = []" "n1 = n \<or> (\<exists>rq. n1 = n\<lparr>nd_calls := nd_calls n @ [(j, rq, True)]\<rparr> \<and>
        text_call (own_identity n) rq \<and> request_texts rq \<noteq> [])"
      using bc_neighbor_reached[OF s(1)[unfolded True] Cons.prems(6) i(3) Cons.prems(7)] by blast+
    have "node_size n1 = node_size n"
      using r(2) by auto
    then obtain ds where ds: "n' = n1\<lparr>nd_calls := nd_calls n1 @ ds\<rparr>" "unanswered ds"
      using bc_neighbors_others[OF s(2)] i(1) True Cons.prems(4) x by auto
    from r(2) have "\<exists>cs. n' = n\<lparr>nd_calls := nd_calls n @ cs\<rparr> \<and> reached_calls (own_identity n) j cs"
    proof (elim disjE exE conjE)
      assume "n1 = n"
      with ds show ?thesis
        by (auto simp: reached_calls_def)
    next
      fix rq
      assume "n1 = n\<lparr>nd_calls := nd_calls n @ [(j, rq, True)]\<rparr>" "text_call (own_identity n) rq"
        "request_texts rq \<noteq> []"
      with ds show ?thesis
        by (intro exI[of _ "(j, rq, True) # ds"]) (simp add: reached_calls_Cons)
    qed
    with r(1) s(3) True show ?thesis
      by (simp add: pending_for_def)
  qed
qed

subsection \<open>The call that goes through\<close>

lemma request_accepted:
  assumes inv: "engine_inv b" and k: "text_call k rq" "request_texts rq \<noteq> []"
    and known: "contacts_find k (nd_contacts (en_node b)) = Some i" "contacts_online (nd_contacts (en_node b)) i"
  shows "\<exists>x b'. request_op 0 length (\<lambda>j. 0) None rq = Some x \<and> engine_step b x = Some (True, b')"
proof -
  have n: "node_inv (en_node b)"
    using inv by (simp add: engine_inv_def)
  have heard: "heard k (en_node b)"
    using known by (simp add: heard_def)
  obtain x where op: "request_op 0 length (\<lambda>j. 0) None rq = Some x" "engine_op_ok x"
    using k(1) by (auto simp: text_call_def)
  then obtain r b' where x: "request_op 0 length (\<lambda>j. 0) None rq = Some x" "engine_step b x = Some (r, b')"
    using engine_step_inv[OF inv op(2)] by blast
  have r
  proof (cases rq)
    case (TellRequest k' m)
    then have "answered (service_Tell 0 True (Some (k, m)) True (en_node b)) = Some (r, en_node b')"
      using x k(1) by (auto simp: on_node_Some text_call_def)
    from service_Tell_run[OF n this] show ?thesis
      using bc_handleTell_inv[OF n, of 0 k m] heard known(1) by auto
  next
    case (NarrateRequest k' ms)
    then have "answered (service_Narrate length (\<lambda>j. 0) True (Some (map (Pair k) ms)) True (en_node b)) =
        Some (r, en_node b')" "ms \<noteq> []"
      using x k by (auto simp: on_node_Some text_call_def stream_parts_def)
    with service_Narrate_run[OF n this(1)] show ?thesis
      using bc_handleNarrate_inv[OF n, of "\<lambda>j. 0" k ms] heard known(1) by auto
  qed (use k in \<open>auto simp: text_call_def\<close>)
  with x show ?thesis
    by auto
qed

text \<open>Calls that fail are lost; the one that succeeds is handled in full.\<close>

definition reach_fates :: "(string \<times> request \<times> bool) list \<Rightarrow> fate list" where
  "reach_fates = map (\<lambda>(q, rq, ok). if ok then CallHandled 0 length (\<lambda>j. 0) None True else CallLost)"

lemma reach_fates_simps [simp]:
  "reach_fates [] = []"
  "reach_fates ((q, rq, ok) # cs) =
     (if ok then CallHandled 0 length (\<lambda>j. 0) None True else CallLost) # reach_fates cs"
  by (simp_all add: reach_fates_def)

lemma reach_fates_reliable: "list_all fate_reliable (reach_fates cs)"
  by (induction cs) auto

lemma deliver_unanswered:
  "\<forall>(q, rq, ok) \<in> set cs. \<not> ok \<Longrightarrow> deliver_all (reach_fates (cs @ ds)) (cs @ ds) net = deliver_all (reach_fates ds) ds net"
  by (induction cs) (auto simp: reach_fates_def)

lemma reach_delivered:
  assumes "reached_calls k j cs" "f j = q" "net q = Some b" "engine_inv b"
    and "contacts_find k (nd_contacts (en_node b)) = Some i" "contacts_online (nd_contacts (en_node b)) i"
  shows "\<exists>b'. deliver_all (reach_fates (map (\<lambda>(i, rq, ok). (f i, rq, ok)) cs))
    (map (\<lambda>(i, rq, ok). (f i, rq, ok)) cs) net = Some (net(q \<mapsto> b'))"
proof -
  let ?m = "map (\<lambda>(i, rq, ok). (f i, rq, ok))"
  have un: "\<forall>(q, rq, ok) \<in> set (?m as). \<not> ok" if "unanswered as" for as
    using that by (force simp: unanswered_def)
  have skip: "deliver_all (reach_fates (?m as @ ds)) (?m as @ ds) net' = deliver_all (reach_fates ds) ds net'"
    if "unanswered as" for as ds net'
    by (rule deliver_unanswered[OF un[OF that]])
  from assms(1) show ?thesis
    unfolding reached_calls_def
  proof (elim disjE exE conjE)
    assume "unanswered cs"
    from skip[OF this, of "[]" net] have "deliver_all (reach_fates (?m cs)) (?m cs) net = Some net"
      by simp
    moreover have "net(q \<mapsto> b) = net"
      using assms(3) by auto
    ultimately show ?thesis
      by (intro exI[of _ b]) simp
  next
    fix as rq ds
    assume cs: "cs = as @ (j, rq, True) # ds" "unanswered as" "unanswered ds"
      and rq: "text_call k rq" "request_texts rq \<noteq> []"
    obtain x b' where x: "request_op 0 length (\<lambda>j. 0) None rq = Some x" "engine_step b x = Some (True, b')"
      using request_accepted[OF assms(4) rq assms(5,6)] by blast
    let ?rest = "(q, rq, True) # ?m ds"
    have "deliver_all (reach_fates (?m ds)) (?m ds) (net(q \<mapsto> b')) = Some (net(q \<mapsto> b'))"
      using skip[OF cs(3), of "[]"] by simp
    then have "deliver_all (reach_fates ?rest) ?rest net = Some (net(q \<mapsto> b'))"
      using x assms(3) by simp
    moreover have "?m cs = ?m as @ ?rest"
      using cs(1) assms(2) by simp
    ultimately show ?thesis
      using skip[OF cs(2), of ?rest net] by auto
  qed
qed

lemma reach_turn:
  assumes inv: "engine_inv a" and run: "\<not> bc_stopped (en_node a)"
    and j: "j < node_size (en_node a)" "callable (en_node a) j"
  shows "\<exists>t cs ys a1. engine_step a (EngineChatTurn (reach_env t j)) = Some (True, a1) \<and>
    en_node a1 = (en_node a)\<lparr>nd_calls := nd_calls (en_node a) @ cs, mNeighbors := ys\<rparr> \<and>
    pending_for j ys = [] \<and> reached_calls (own_identity (en_node a)) j cs"
proof -
  let ?n = "en_node a"
  have n: "node_inv ?n"
    using inv by (simp add: engine_inv_def)
  note I = node_invD[OF n]
  have keys: "\<forall>i \<in> keys (mNeighbors ?n). i < node_size ?n"
    using I(4) by blast
  obtain t where t: "all_expired t (mNeighbors ?n)"
    using all_expired_some by blast
  obtain ys n1 where r: "bc_neighbors (reach_env t j) (mNeighbors ?n) ?n = Some (ys, n1)"
    using bc_neighbors_ok[OF run keys I(3)] by blast
  obtain cs where cs: "n1 = ?n\<lparr>nd_calls := nd_calls ?n @ cs\<rparr>" "reached_calls (own_identity ?n) j cs"
    "pending_for j ys = []"
    using bc_neighbors_reached[OF r run t keys I(3) j] by blast
  have "engine_step a (EngineChatTurn (reach_env t j)) = Some (True, a\<lparr>en_node := n1\<lparr>mNeighbors := ys\<rparr>\<rparr>)"
    using r run by (simp add: on_node_def bc_run_turn_def)
  with cs show ?thesis
    by (intro exI[of _ t] exI[of _ cs] exI[of _ ys] exI[of _ "a\<lparr>en_node := n1\<lparr>mNeighbors := ys\<rparr>\<rparr>"]) simp
qed

lemma net_reach:
  assumes L: "net_linked True net" and pq: "p \<noteq> q" "net p = Some a" "net q = Some b"
    and j: "only_contact (en_node a) j q" "callable (en_node a) j" "\<not> bc_stopped (en_node a)"
    and i: "known_as (en_node b) (own_identity (en_node a)) i" "contacts_online (nd_contacts (en_node b)) i"
  shows "\<exists>t fates net' a' b'. net_step net (NetTurn p (reach_env t j) fates) = Some (True, net') \<and>
    list_all fate_reliable fates \<and> net' p = Some a' \<and> net' q = Some b' \<and>
    sent_texts a' j = sent_texts a j \<and> received_texts b' i = sent_texts a j"
proof -
  have inv: "net_inv net"
    using L by (simp add: net_linked_def)
  let ?k = "own_identity (en_node a)"
  have size: "j < node_size (en_node a)"
    using j(1) by (simp add: only_contact_def)
  obtain t cs ys a1 where turn: "engine_step a (EngineChatTurn (reach_env t j)) = Some (True, a1)"
    "en_node a1 = (en_node a)\<lparr>nd_calls := nd_calls (en_node a) @ cs, mNeighbors := ys\<rparr>"
    "pending_for j ys = []" "reached_calls ?k j cs"
    using reach_turn[OF net_invD(1)[OF inv pq(2)] j(3) size j(2)] by blast
  let ?net1 = "net(p \<mapsto> a1)" and ?calls = "new_calls (en_node a) (en_node a1)"
  have calls: "?calls = map (\<lambda>(i, rq, ok). (address_of (en_node a) i, rq, ok)) cs"
    by (simp add: new_calls_def turn(2))
  have "address_of (en_node a) j = q"
    using j(1) size by (simp add: only_contact_def)
  then obtain b' where d: "deliver_all (reach_fates ?calls) ?calls ?net1 = Some (?net1(q \<mapsto> b'))"
    using reach_delivered[OF turn(4), of "address_of (en_node a)" q ?net1 b i] net_invD(1)[OF inv pq(3)]
      pq i unfolding calls by (auto simp: known_as_def)
  let ?net = "?net1(q \<mapsto> b')"
  have s: "net_step net (NetTurn p (reach_env t j) (reach_fates ?calls)) = Some (True, ?net)"
    using pq(2) turn(1) d by simp
  then have L': "net_linked True ?net"
    using net_turn_linked[OF L] reach_fates_reliable by blast
  obtain csx where turned: "new_calls (en_node a) (en_node a1) = csx"
    "\<forall>(q, rq, ok) \<in> set csx. text_call ?k rq" "engine_inv a1" "nd_address (en_node a1) = p"
    "own_identity (en_node a1) = ?k"
    using turn_effect[OF net_invD(1)[OF inv pq(2)] turn(1)] net_invD(3)[OF inv pq(2)] by blast
  have "\<forall>x c. ?net1 x = Some c \<longrightarrow> engine_inv c"
    using net_invD(1)[OF net_inv_update[OF inv pq(2) turned(3-5)]] by blast
  from deliver_all_carried[OF d _ this, of ?k True] turned(1,2) reach_fates_reliable
  have C: "carried True ?k ?calls ?net1 ?net"
    by blast
  have "who (en_node b') = who (en_node b)"
    by (rule carried_same(2)[OF C, of q]) (use pq in simp_all)
  then have known: "known_as (en_node b') (own_identity (en_node a1)) i"
    using i(1) unfolding turned(5) by (simp add: known_as_def who_def contacts_find_def address_of_def)
  have "only_contact (en_node a1) j q"
    using j(1) by (simp add: only_contact_def turn(2))
  from linked_conversations[OF L' pq(1) _ _ this known] have "sent_texts a1 j = received_texts b' i"
    using pq(1) turn(2,3) by (auto simp: flows_def)
  moreover have "sent_texts a1 j = sent_texts a j"
    by (simp add: sent_texts_def turn(2))
  ultimately show ?thesis
    using s pq(1) reach_fates_reliable
    by (intro exI[of _ t] exI[of _ "reach_fates ?calls"] exI[of _ ?net] exI[of _ a1] exI[of _ b']) simp
qed

subsection \<open>Properties\<close>

text \<open>
  C2: a conversation can always be completed: in any state the network reaches without a lost reply,
  when the loop of \<open>p\<close> runs, shows its contact at \<open>q\<close> as active, and \<open>q\<close> shows \<open>p\<close> as active, there is
  a turn of the loop, at a time at which the timers have expired, in which only the call to
  \<open>q\<close> goes through, and after it \<open>q\<close> has received exactly what \<open>p\<close> sent.
\<close>

theorem network_delivers:
  assumes "hosts_ok hs" "start_network hs = Some net0"
    and "list_all (\<lambda>x. net_op_ok x \<and> net_op_reliable x) xs" "run_ops net_step net0 xs = Some (rs, net)"
    and "p \<noteq> q" "net p = Some a" "net q = Some b"
    and "only_contact (en_node a) j q" "callable (en_node a) j" "\<not> bc_stopped (en_node a)"
    and "known_as (en_node b) (own_identity (en_node a)) i" "contacts_online (nd_contacts (en_node b)) i"
  shows "\<exists>t fates net' a' b'. net_step net (NetTurn p (reach_env t j) fates) = Some (True, net') \<and>
    list_all fate_reliable fates \<and> net' p = Some a' \<and> net' q = Some b' \<and>
    sent_texts a' j = sent_texts a j \<and> received_texts b' i = sent_texts a j"
  by (rule net_reach[OF exact.run_inv[OF start_network_linked[OF assms(1,2)] assms(3,4)] assms(5-12)])

lemma sample_meeting_run:
  "talk_at sample_hosts sample_meeting ''10.0.0.1:80'' ''10.0.0.2:80'' (\<lambda>a b. two_contacts a b \<and>
     callable (en_node a) 1 \<and> \<not> bc_stopped (en_node a) \<and> contacts_online (nd_contacts (en_node b)) 1 \<and>
     sent_texts a 1 = [''hi''] \<and> received_texts b 1 = [])"
  by code_simp

theorem network_delivers_witness:
  "\<exists>b b' :: engine. received_texts b 1 = [] \<and> received_texts b' 1 = [''hi'']"
proof -
  obtain net0 rs net a b where run: "start_network sample_hosts = Some net0"
    "run_ops net_step net0 sample_meeting = Some (rs, net)"
    and ab: "net ''10.0.0.1:80'' = Some a" "net ''10.0.0.2:80'' = Some b"
    and two: "two_contacts a b"
    and c: "callable (en_node a) 1" "\<not> bc_stopped (en_node a)" "contacts_online (nd_contacts (en_node b)) 1"
    and res: "sent_texts a 1 = [''hi'']" "received_texts b 1 = []"
    using talk_atD[OF sample_meeting_run] by blast
  have ok: "list_all (\<lambda>x. net_op_ok x \<and> net_op_reliable x) sample_meeting"
    by (simp add: sample_meeting_def TTCONTACTS_DATA_MAX_LENGTH_def)
  have known: "known_as (en_node b) (own_identity (en_node a)) 1"
    using two by (simp add: two_contacts_def)
  obtain b' where "received_texts b' 1 = sent_texts a 1"
    using network_delivers[OF sample_hosts_ok run(1) ok run(2) _ ab two_contacts_only[OF two] c(1,2) known c(3)]
    by auto
  with res show ?thesis
    by (intro exI[of _ b] exI[of _ b']) simp
qed

end
