(* ===== verification/Discovery_Bounds.thy ===== *)
theory Discovery_Bounds
  imports Engine
begin

text \<open>
  The two loops of \<open>TTBroadcasterDiscovery\<close> (\<open>resolveStaticNeighbors\<close>, \<open>resolveDynamicNeighbors\<close>)
  over their turns in Broadcaster_Discovery.  The lemmas bound what they do: a static neighbor
  is greeted at most \<open>discoveryTrials\<close> times and the loop over the static neighbors ends; a neighbor
  that does not answer is shown as inactive and asked at most \<open>inactivityTrials\<close> times.
\<close>

subsection \<open>The loops\<close>

text \<open>
  Each takes what its turns meet, one environment for each turn; \<open>True\<close> when the loop goes on
  after the last of them.
\<close>

fun bd_resolveStatic :: "(nat \<Rightarrow> static_env) list \<Rightarrow> node \<Rightarrow> (bool \<times> node) option" where
  "bd_resolveStatic [] n = Some (True, n)"
| "bd_resolveStatic (env # envs) n = do {
     (going, n1) \<leftarrow> bd_static_turn env n;
     if going then bd_resolveStatic envs n1 else Some (False, n1)
   }"

fun bd_resolveDynamic :: "(nat \<Rightarrow> dynamic_env) list \<Rightarrow> node \<Rightarrow> (bool \<times> node) option" where
  "bd_resolveDynamic [] n = Some (True, n)"
| "bd_resolveDynamic (env # envs) n = do {
     (going, n1) \<leftarrow> bd_dynamic_turn env n;
     if going then bd_resolveDynamic envs n1 else Some (False, n1)
   }"

subsection \<open>Static neighbors\<close>

definition trials_left :: "node \<Rightarrow> nat" where
  "trials_left n = sum_list (map sn_trials (mStaticNeighbors n))"

definition all_expired :: "(nat \<Rightarrow> static_env) \<Rightarrow> nat \<Rightarrow> static_neighbor list \<Rightarrow> bool" where
  "all_expired env k sns \<longleftrightarrow>
     list_all (\<lambda>j. timer_expired (se_steady (env (k + j))) (sn_timer (sns ! j))) [0..<length sns]"

lemma all_expired_Cons:
  "all_expired env k (sn # sns) \<longleftrightarrow>
     timer_expired (se_steady (env k)) (sn_timer sn) \<and> all_expired env (Suc k) sns"
  by (simp add: all_expired_def upt_conv_Cons map_Suc_upt[symmetric] list.pred_map comp_def del: upt_Suc)

text \<open>An expired timer costs its neighbor a trial, whatever comes of it.\<close>

lemma bd_static_trial:
  assumes "bd_static env sn n = Some (r, sn', n')" "timer_expired (se_steady env) (sn_timer sn)"
  shows "sn_trials sn' \<le> sn_trials sn - 1"
  using assms by (auto simp: bd_static_def Let_def bind_eq_Some_conv split: if_splits prod.splits)

lemma bd_statics_trials:
  "bd_statics env k sns n = Some (r, sns', n') \<Longrightarrow> node_inv n \<Longrightarrow>
   \<forall>k. response_ok (se_response (env k)) \<Longrightarrow> \<not> bd_stopped n \<Longrightarrow>
   list_all2 (\<lambda>sn sn'. sn_trials sn' \<le> sn_trials sn \<and>
     (all_expired env k sns \<longrightarrow> sn_trials sn' \<le> sn_trials sn - 1)) sns sns' \<and>
   r = list_all (\<lambda>sn. sn_trials sn = 0) sns"
proof (induction sns arbitrary: k n r sns')
  case (Cons sn sns)
  obtain sn1 n1 where s: "bd_static (env k) sn n = Some (sn_trials sn = 0, sn1, n1)" "bd_frame n n1"
    "sn_trials sn1 \<le> sn_trials sn"
    using bd_static_inv[OF Cons.prems(2), of "env k" sn] Cons.prems(3) by blast
  then obtain r1 sns1 where t: "bd_statics env (Suc k) sns n1 = Some (r1, sns1, n')"
    "sns' = sn1 # sns1" "r = (sn_trials sn = 0 \<and> r1)"
    using Cons.prems(1,4) by (auto simp: bind_eq_Some_conv)
  have n1: "node_inv n1" "\<not> bd_stopped n1"
    using s(2) Cons.prems(4) by (simp_all add: bd_frame_def)
  have trial: "all_expired env k (sn # sns) \<Longrightarrow> sn_trials sn1 \<le> sn_trials sn - 1"
    using bd_static_trial[OF s(1)] by (simp add: all_expired_Cons)
  have rest: "list_all2 (\<lambda>sn sn'. sn_trials sn' \<le> sn_trials sn \<and>
      (all_expired env k (sn0 # sns) \<longrightarrow> sn_trials sn' \<le> sn_trials sn - 1)) sns sns1" for sn0
    using Cons.IH[OF t(1) n1(1) Cons.prems(3) n1(2)]
    by (auto simp: all_expired_Cons elim!: list.rel_mono_strong)
  with Cons.IH[OF t(1) n1(1) Cons.prems(3) n1(2)] s(3) trial t(2,3) show ?case
    by simp
qed simp

text \<open>The loop, with the condition that at every turn every timer has expired.\<close>

fun prompt_turns :: "(nat \<Rightarrow> static_env) list \<Rightarrow> node \<Rightarrow> bool" where
  "prompt_turns [] n = True"
| "prompt_turns (env # envs) n =
     (all_expired env 0 (mStaticNeighbors n) \<and>
      (case bd_static_turn env n of None \<Rightarrow> True | Some (going, n1) \<Rightarrow> prompt_turns envs n1))"

definition turn_ok :: "(nat \<Rightarrow> static_env) \<Rightarrow> bool" where
  "turn_ok env \<longleftrightarrow> (\<forall>k. response_ok (se_response (env k)))"

lemma static_turn_ends:
  assumes "node_inv n" "turn_ok env" "bd_static_turn env n = Some (going, n1)"
  shows "going = (\<not> bd_stopped n \<and> (\<exists>sn \<in> set (mStaticNeighbors n). 0 < sn_trials sn))"
    "\<not> going \<Longrightarrow> bd_stopped n1 \<or> (\<forall>sn \<in> set (mStaticNeighbors n1). sn_trials sn = 0)"
    "going \<Longrightarrow> all_expired env 0 (mStaticNeighbors n) \<Longrightarrow>
       \<forall>sn \<in> set (mStaticNeighbors n). sn_trials sn \<le> Suc t \<Longrightarrow>
       \<forall>sn \<in> set (mStaticNeighbors n1). sn_trials sn \<le> t"
proof -
  have ok: "\<forall>k. response_ok (se_response (env k))"
    using assms(2) by (simp add: turn_ok_def)
  obtain r sns n2 where s: "bd_statics env 0 (mStaticNeighbors n) n = Some (r, sns, n2)"
    "n1 = n2\<lparr>mStaticNeighbors := sns\<rparr>" "going = (\<not> r \<and> \<not> bd_stopped n2)"
    using assms(3) by (auto simp: bd_static_turn_def bind_eq_Some_conv Let_def)
  have stop: "bd_stopped n2 = bd_stopped n"
    using bd_statics_inv[OF assms(1) ok, of 0 "mStaticNeighbors n"] s(1) by (auto simp: bd_frame_def)
  show going: "going = (\<not> bd_stopped n \<and> (\<exists>sn \<in> set (mStaticNeighbors n). 0 < sn_trials sn))"
    using bd_statics_trials[OF s(1) assms(1) ok] s(3) stop by (cases "bd_stopped n") (auto simp: list_all_iff)
  show "\<not> going \<Longrightarrow> bd_stopped n1 \<or> (\<forall>sn \<in> set (mStaticNeighbors n1). sn_trials sn = 0)"
  proof (cases "bd_stopped n")
    case False
    assume "\<not> going"
    with going False have "\<forall>sn \<in> set (mStaticNeighbors n). sn_trials sn = 0"
      by auto
    then have "\<forall>sn \<in> set sns. sn_trials sn = 0"
      by (rule list_all2_set[OF conjunct1[OF bd_statics_trials[OF s(1) assms(1) ok False]]]) simp
    with s(2) show ?thesis
      by simp
  qed (simp add: s(2) stop)
  show "\<forall>sn \<in> set (mStaticNeighbors n1). sn_trials sn \<le> t"
    if "going" "all_expired env 0 (mStaticNeighbors n)" "\<forall>sn \<in> set (mStaticNeighbors n). sn_trials sn \<le> Suc t"
  proof -
    have False: "\<not> bd_stopped n"
      using that(1) going by simp
    from that(3) have "\<forall>sn \<in> set sns. sn_trials sn \<le> t"
      by (rule list_all2_set[OF conjunct1[OF bd_statics_trials[OF s(1) assms(1) ok False]]])
        (use that(2) in auto)
    with s(2) show ?thesis
      by simp
  qed
qed

lemma resolveStatic_runs:
  "node_inv n \<Longrightarrow> list_all turn_ok envs \<Longrightarrow>
   \<exists>going n' gs. bd_resolveStatic envs n = Some (going, n') \<and> node_inv n' \<and>
     nd_greets n' = nd_greets n @ gs \<and> length gs + trials_left n' \<le> trials_left n \<and>
     (\<not> going \<longrightarrow> bd_stopped n' \<or> (\<forall>sn \<in> set (mStaticNeighbors n'). sn_trials sn = 0))"
proof (induction envs arbitrary: n)
  case (Cons env envs)
  then have env: "turn_ok env" "\<forall>k. response_ok (se_response (env k))"
    by (simp_all add: turn_ok_def)
  obtain going n1 gs where s: "bd_static_turn env n = Some (going, n1)" "bd_frame n n1"
    "nd_greets n1 = nd_greets n @ gs" "length gs + trials_left n1 \<le> trials_left n"
    using bd_static_turn_inv[OF Cons.prems(1) env(2)] unfolding trials_left_def by blast
  have inv: "node_inv n1"
    using s(2) by (simp add: bd_frame_def)
  show ?case
  proof (cases going)
    case True
    obtain going' n' gs' where "bd_resolveStatic envs n1 = Some (going', n')" "node_inv n'"
      "nd_greets n' = nd_greets n1 @ gs'" "length gs' + trials_left n' \<le> trials_left n1"
      "\<not> going' \<longrightarrow> bd_stopped n' \<or> (\<forall>sn \<in> set (mStaticNeighbors n'). sn_trials sn = 0)"
      using Cons.IH[OF inv] Cons.prems(2) by auto
    with s True show ?thesis
      by (intro exI[of _ going'] exI[of _ n'] exI[of _ "gs @ gs'"]) simp
  next
    case False
    with s inv static_turn_ends(2)[OF Cons.prems(1) env(1) s(1)] show ?thesis
      by (intro exI[of _ going] exI[of _ n1] exI[of _ gs]) simp
  qed
qed auto

lemma resolveStatic_ends:
  "node_inv n \<Longrightarrow> list_all turn_ok envs \<Longrightarrow> prompt_turns envs n \<Longrightarrow>
   \<forall>sn \<in> set (mStaticNeighbors n). sn_trials sn \<le> t \<Longrightarrow> t < length envs \<Longrightarrow>
   bd_resolveStatic envs n = Some (going, n') \<Longrightarrow> \<not> going"
proof (induction envs arbitrary: n t)
  case (Cons env envs)
  then have env: "turn_ok env" "\<forall>k. response_ok (se_response (env k))"
    by (simp_all add: turn_ok_def)
  obtain going1 n1 where s: "bd_static_turn env n = Some (going1, n1)" "bd_frame n n1"
    using bd_static_turn_inv[OF Cons.prems(1) env(2)] by blast
  have inv: "node_inv n1"
    using s(2) by (simp add: bd_frame_def)
  note turn = static_turn_ends[OF Cons.prems(1) env(1) s(1)]
  show ?case
  proof (cases going1)
    case True
    then obtain u where t: "t = Suc u"
      using turn(1) Cons.prems(4) by (cases t) auto
    with turn(3)[OF True] Cons.prems(3,4) have "\<forall>sn \<in> set (mStaticNeighbors n1). sn_trials sn \<le> u"
      by simp
    from Cons.IH[OF inv _ _ this] show ?thesis
      using Cons.prems(2,3,5,6) s(1) True t by simp
  next
    case False
    with Cons.prems(6) s(1) show ?thesis
      by simp
  qed
qed simp

subsection \<open>Neighbors found\<close>

lemma notify_contacts:
  "contacts_notify i h = Some (r, h') \<Longrightarrow> mContacts h' = mContacts h"
  using contacts_notify_frame by blast

lemma activate_state:
  assumes "contacts_step h x = Some (r, h')" "x = ContactsActivate j \<or> x = ContactsDeactivate j"
  shows "i \<noteq> j \<Longrightarrow> state (mContacts h' ! i) = state (mContacts h ! i)"
    "x = ContactsDeactivate j \<Longrightarrow> j < length (mContacts h) \<Longrightarrow> isInactive (state (mContacts h' ! j))"
proof -
  have d: "isInactive (deactivate_switch s)" for s
    by (cases s) (simp_all add: isInactive_def isActive_def)
  show "i \<noteq> j \<Longrightarrow> state (mContacts h' ! i) = state (mContacts h ! i)"
    using assms by (auto simp: contacts_activate_def contacts_deactivate_def set_state_def Let_def
        dest!: notify_contacts split: if_splits)
  show "x = ContactsDeactivate j \<Longrightarrow> j < length (mContacts h) \<Longrightarrow> isInactive (state (mContacts h' ! j))"
    using assms d[of "state (mContacts h ! j)"]
    by (auto simp: contacts_deactivate_def set_state_def Let_def dest!: notify_contacts split: if_splits)
qed

text \<open>An answer to a heartbeat: it succeeded and says who the neighbor is.\<close>

definition answers :: "dynamic_env \<Rightarrow> bool" where
  "answers env \<longleftrightarrow> hr_status (de_response env) \<and> hr_identity (de_response env) \<noteq> []"

lemma bd_dynamic_effect:
  assumes inv: "node_inv n" and run: "bd_dynamic env i dn n = Some (r, dn', n')"
    and e: "contacts_get i (nd_contacts n) = Some entry"
  shows "(nd_calls n' = nd_calls n \<and> nd_contacts n' = nd_contacts n \<and> dn_trials dn' \<le> dn_trials dn) \<or>
    (\<exists>rq a x. nd_calls n' = nd_calls n @ [(i, rq, a)] \<and> 0 < dn_trials dn \<and>
       x = (if answers env then ContactsActivate i else ContactsDeactivate i) \<and>
       contacts_step (nd_contacts n) x = Some (r, nd_contacts n') \<and>
       (r \<longrightarrow> dn_trials dn' = (if answers env then inactivityTrials else dn_trials dn - 1)))"
proof -
  let ?key = "fst (snd (cards (nd_contacts n) ! 0))"
  let ?n1 = "n\<lparr>nd_calls := nd_calls n @ [(i, HeartbeatRequest ?key, hr_status (de_response env))]\<rparr>"
  let ?dn1 = "if dn_stub dn then dn else dn\<lparr>dn_stub := de_stub env\<rparr>"
  consider (early) "\<not> timer_expired (de_steady env) (dn_timer dn) \<or> dn_trials dn = 0"
    | (no_stub) "timer_expired (de_steady env) (dn_timer dn)" "dn_trials dn \<noteq> 0" "\<not> dn_stub ?dn1"
    | (good) "timer_expired (de_steady env) (dn_timer dn)" "dn_trials dn \<noteq> 0" "dn_stub ?dn1" "answers env"
    | (bad) "timer_expired (de_steady env) (dn_timer dn)" "dn_trials dn \<noteq> 0" "dn_stub ?dn1" "\<not> answers env"
    by blast
  then show ?thesis
  proof cases
    case early
    with run show ?thesis
      by (auto simp: bd_dynamic_def split: if_splits)
  next
    case no_stub
    with run e show ?thesis
      by (auto simp: bd_dynamic_def split: if_splits)
  next
    case good
    obtain b c where c: "contacts_step (nd_contacts n) (ContactsActivate i) = Some (b, c)"
      using run good e by (cases "dn_stub dn")
        (auto simp: bd_dynamic_def answers_def on_contacts_def bd_gets(1)[OF inv] Let_def bind_eq_Some_conv)
    then have "on_contacts (ContactsActivate i) ?n1 = Some (b, ?n1\<lparr>nd_contacts := c\<rparr>)"
      by (simp add: on_contacts_def)
    with run good e have "nd_calls n' = nd_calls ?n1 \<and> nd_contacts n' = c \<and> r = b \<and> (b \<longrightarrow> dn_trials dn' = inactivityTrials)"
      by (cases "dn_stub dn"; cases b)
        (auto simp: bd_dynamic_def answers_def bd_gets(1)[OF inv] Let_def bd_stop_def)
    with good c show ?thesis
      by auto
  next
    case bad
    obtain b c where c: "contacts_step (nd_contacts n) (ContactsDeactivate i) = Some (b, c)"
      using run bad e by (cases "dn_stub dn")
        (auto simp: bd_dynamic_def answers_def on_contacts_def bd_gets(1)[OF inv] Let_def bind_eq_Some_conv)
    then have "on_contacts (ContactsDeactivate i) ?n1 = Some (b, ?n1\<lparr>nd_contacts := c\<rparr>)"
      by (simp add: on_contacts_def)
    with run bad e have "nd_calls n' = nd_calls ?n1 \<and> nd_contacts n' = c \<and> r = b \<and> (b \<longrightarrow> dn_trials dn' = dn_trials dn - 1)"
      by (cases "dn_stub dn"; cases b)
        (auto simp: bd_dynamic_def answers_def bd_gets(1)[OF inv] Let_def bd_stop_def)
    with bad c show ?thesis
      by auto
  qed
qed

definition calls_to :: "nat \<Rightarrow> (nat \<times> request \<times> bool) list \<Rightarrow> nat" where
  "calls_to i cs = length (filter (\<lambda>c. fst c = i) cs)"

lemma calls_to_append [simp]: "calls_to i (cs @ ds) = calls_to i cs + calls_to i ds"
  by (simp add: calls_to_def)

lemma calls_to_simps [simp]: "calls_to i [] = 0" "calls_to i [c] = (if fst c = i then 1 else 0)"
  by (simp_all add: calls_to_def)

definition trials_of :: "nat \<Rightarrow> (nat \<times> dynamic_neighbor) list \<Rightarrow> nat" where
  "trials_of i ds = (case map_of ds i of None \<Rightarrow> 0 | Some dn \<Rightarrow> dn_trials dn)"

text \<open>
  What happens to a neighbor \<open>i\<close> that does not answer: each call to it costs a trial and leaves the
  contact inactive; without a call its state does not change.
\<close>

definition silenced :: "nat \<Rightarrow> nat \<Rightarrow> nat \<Rightarrow> node \<Rightarrow> node \<Rightarrow> bool" where
  "silenced i t t' n n' \<longleftrightarrow> node_inv n' \<and> node_size n' = node_size n \<and>
     (\<exists>cs. nd_calls n' = nd_calls n @ cs \<and> calls_to i cs + t' \<le> t \<and>
        (if calls_to i cs = 0
         then state (mContacts (nd_contacts n') ! i) = state (mContacts (nd_contacts n) ! i)
         else isInactive (state (mContacts (nd_contacts n') ! i))))"

lemma silenced_refl: "node_inv n \<Longrightarrow> silenced i t t n n"
  by (auto simp: silenced_def intro: exI[of _ "[]"])

lemma silenced_trans:
  assumes "silenced i t u n m" "silenced i u v m n'"
  shows "silenced i t v n n'"
proof -
  obtain cs ds where c: "nd_calls m = nd_calls n @ cs" "calls_to i cs + u \<le> t"
      "if calls_to i cs = 0 then state (mContacts (nd_contacts m) ! i) = state (mContacts (nd_contacts n) ! i)
       else isInactive (state (mContacts (nd_contacts m) ! i))"
    and d: "nd_calls n' = nd_calls m @ ds" "calls_to i ds + v \<le> u"
      "if calls_to i ds = 0 then state (mContacts (nd_contacts n') ! i) = state (mContacts (nd_contacts m) ! i)
       else isInactive (state (mContacts (nd_contacts n') ! i))"
    using assms by (auto simp: silenced_def)
  have "node_inv n'" "node_size n' = node_size n"
    using assms by (simp_all add: silenced_def)
  moreover have "nd_calls n' = nd_calls n @ cs @ ds" "calls_to i (cs @ ds) + v \<le> t"
    using c(1,2) d(1,2) by simp_all
  moreover have "if calls_to i (cs @ ds) = 0
      then state (mContacts (nd_contacts n') ! i) = state (mContacts (nd_contacts n) ! i)
      else isInactive (state (mContacts (nd_contacts n') ! i))"
    using c(3) d(3) by (auto split: if_splits)
  ultimately show ?thesis
    unfolding silenced_def by blast
qed

lemma bd_dynamic_silenced:
  assumes inv: "node_inv n" and j: "j < node_size n"
    and silent: "\<not> answers (env i)"
  shows "\<exists>dn' n'. bd_dynamic (env j) j dn n = Some (True, dn', n') \<and> bd_frame n n' \<and>
    mDynamicNeighbors n' = mDynamicNeighbors n \<and>
    silenced i (if j = i then dn_trials dn else 0) (if j = i then dn_trials dn' else 0) n n'"
proof -
  obtain dn' n' where s: "bd_dynamic (env j) j dn n = Some (True, dn', n')" "bd_frame n n'"
    "node_size n' = node_size n" "mDynamicNeighbors n' = mDynamicNeighbors n"
    using bd_dynamic_inv[OF inv j] by blast
  obtain e where e: "contacts_get j (nd_contacts n) = Some e"
    using contacts_get_some[OF j] by blast
  have len: "j < length (mContacts (nd_contacts n))"
    using j by (simp add: node_size_def contacts_size_def)
  have inv': "node_inv n'"
    using s(2) by (simp add: bd_frame_def)
  from bd_dynamic_effect[OF inv s(1) e]
  have "silenced i (if j = i then dn_trials dn else 0) (if j = i then dn_trials dn' else 0) n n'"
  proof (elim disjE exE conjE)
    assume "nd_calls n' = nd_calls n" "nd_contacts n' = nd_contacts n" "dn_trials dn' \<le> dn_trials dn"
    with inv' s(3) show ?thesis
      by (auto simp: silenced_def intro: exI[of _ "[]"])
  next
    fix rq a x
    assume call: "nd_calls n' = nd_calls n @ [(j, rq, a)]" "0 < dn_trials dn"
      "x = (if answers (env j) then ContactsActivate j else ContactsDeactivate j)"
      "contacts_step (nd_contacts n) x = Some (True, nd_contacts n')"
      "True \<longrightarrow> dn_trials dn' = (if answers (env j) then inactivityTrials else dn_trials dn - 1)"
    have x: "x = ContactsActivate j \<or> x = ContactsDeactivate j"
      using call(3) by simp
    have "if calls_to i [(j, rq, a)] = 0
      then state (mContacts (nd_contacts n') ! i) = state (mContacts (nd_contacts n) ! i)
      else isInactive (state (mContacts (nd_contacts n') ! i))"
      using activate_state[OF call(4) x] silent call(3) len by auto
    with call(1,2,5) silent inv' s(3) show ?thesis
      unfolding silenced_def by (intro conjI exI[of _ "[(j, rq, a)]"]) auto
  qed
  with s show ?thesis
    by blast
qed

lemma bd_dynamics_silenced:
  "node_inv n \<Longrightarrow> \<forall>j \<in> keys ds. j < node_size n \<Longrightarrow> keys_sorted ds \<Longrightarrow> \<not> answers (env i) \<Longrightarrow>
   bd_dynamics env ds n = Some (ds', n') \<Longrightarrow> silenced i (trials_of i ds) (trials_of i ds') n n'"
proof (induction ds arbitrary: n ds')
  case Nil
  then show ?case
    by (simp add: silenced_refl trials_of_def)
next
  case (Cons d ds)
  obtain j dn where d: "d = (j, dn)"
    by (cases d)
  show ?case
  proof (cases "bd_stopped n")
    case True
    with Cons.prems(1,5) d show ?thesis
      by (simp add: silenced_refl)
  next
    case False
    have j: "j < node_size n" "j \<notin> keys ds"
      using Cons.prems(2,3) d by (auto simp: keys_def)
    obtain dn' n1 where s: "bd_dynamic (env j) j dn n = Some (True, dn', n1)" "bd_frame n n1"
      "silenced i (if j = i then dn_trials dn else 0) (if j = i then dn_trials dn' else 0) n n1"
      using bd_dynamic_silenced[OF Cons.prems(1) j(1), of env i dn] Cons.prems(4) by blast
    then obtain ds1 where t: "bd_dynamics env ds n1 = Some (ds1, n')" "ds' = (j, dn') # ds1"
      using Cons.prems(5) False d by (auto simp: bind_eq_Some_conv)
    have n1: "node_inv n1" "node_size n1 = node_size n"
      using s(3) by (simp_all add: silenced_def)
    have keys: "map fst ds1 = map fst ds"
      using bd_dynamics_inv[OF n1(1), of ds env] t(1) Cons.prems(2) n1(2) d by auto
    have rest: "silenced i (trials_of i ds) (trials_of i ds1) n1 n'"
      using Cons.IH[OF n1(1) _ _ Cons.prems(4) t(1)] Cons.prems(2,3) n1(2) d by simp
    show ?thesis
    proof (cases "j = i")
      case True
      have "map_of ds i = None" "map_of ds1 i = None"
        using j(2) keys_map_fst[OF keys] True by (auto simp: map_of_eq_None_iff keys_def)
      then have "trials_of i ds = 0" "trials_of i ds1 = 0"
        by (simp_all add: trials_of_def)
      with rest have "silenced i (dn_trials dn') (dn_trials dn') n1 n'"
        by (auto simp: silenced_def)
      with s(3) True show ?thesis
        using silenced_trans unfolding d t(2) by (fastforce simp: trials_of_def)
    next
      case False
      then have "trials_of i (d # ds) = trials_of i ds" "trials_of i ds' = trials_of i ds1"
        by (simp_all add: d t(2) trials_of_def)
      moreover have "silenced i (trials_of i ds) (trials_of i ds) n n1"
        using s(3) False by (auto simp: silenced_def)
      ultimately show ?thesis
        using silenced_trans[OF _ rest] by simp
    qed
  qed
qed

lemma dynamic_turn_silenced:
  assumes inv: "node_inv n" and silent: "\<not> answers (env i)"
  shows "\<exists>n1. bd_dynamic_turn env n = Some (\<not> bd_stopped n, n1) \<and> bd_stopped n1 = bd_stopped n \<and>
    silenced i (trials_of i (mDynamicNeighbors n)) (trials_of i (mDynamicNeighbors n1)) n n1"
proof -
  obtain n1 where n1: "bd_dynamic_turn env n = Some (\<not> bd_stopped n, n1)" "bd_frame n n1"
    using bd_dynamic_turn_inv[OF inv] by blast
  have "silenced i (trials_of i (mDynamicNeighbors n)) (trials_of i (mDynamicNeighbors n1)) n n1"
  proof (cases "bd_stopped n")
    case True
    with n1(1) inv show ?thesis
      by (simp add: bd_dynamic_turn_def silenced_refl)
  next
    case False
    then obtain ds n2 where d: "bd_dynamics env (mDynamicNeighbors n) n = Some (ds, n2)"
      "n1 = n2\<lparr>mDynamicNeighbors := ds\<rparr>"
      using n1(1) by (auto simp: bd_dynamic_turn_def bind_eq_Some_conv)
    note I = node_invD[OF inv]
    have "silenced i (trials_of i (mDynamicNeighbors n)) (trials_of i ds) n n2"
      using bd_dynamics_silenced[OF inv _ I(5) silent d(1)] I(6) by blast
    moreover have "nd_contacts n1 = nd_contacts n2" "nd_calls n1 = nd_calls n2" "mDynamicNeighbors n1 = ds"
      using d(2) by simp_all
    moreover have "node_inv n1"
      using n1(2) by (simp add: bd_frame_def)
    ultimately show ?thesis
      unfolding silenced_def node_size_def by metis
  qed
  with n1 show ?thesis
    by (simp add: bd_frame_def)
qed

lemma resolveDynamic_silenced:
  "node_inv n \<Longrightarrow> list_all (\<lambda>env. \<not> answers (env i)) envs \<Longrightarrow>
   \<exists>going n'. bd_resolveDynamic envs n = Some (going, n') \<and>
     silenced i (trials_of i (mDynamicNeighbors n)) (trials_of i (mDynamicNeighbors n')) n n'"
proof (induction envs arbitrary: n)
  case Nil
  then show ?case
    by (simp add: silenced_refl)
next
  case (Cons env envs)
  obtain n1 where n1: "bd_dynamic_turn env n = Some (\<not> bd_stopped n, n1)"
    "silenced i (trials_of i (mDynamicNeighbors n)) (trials_of i (mDynamicNeighbors n1)) n n1"
    using dynamic_turn_silenced[OF Cons.prems(1), of env i] Cons.prems(2) by auto
  show ?case
  proof (cases "bd_stopped n")
    case True
    with n1 show ?thesis
      by simp
  next
    case False
    have "node_inv n1"
      using n1(2) by (simp add: silenced_def)
    from Cons.IH[OF this] Cons.prems(2) n1 False show ?thesis
      by (auto intro: silenced_trans)
  qed
qed

subsection \<open>Properties\<close>

text \<open>
  C27: the search for the static neighbors is bounded and ends: over any number of turns the loop makes
  at most as many \<open>Greet\<close> calls as the neighbors have trials together, it ends only when it is
  stopped or every neighbor has answered or used up its trials, and it does end once there were more
  turns than a neighbor has trials, at each of which the timers had expired.
\<close>

theorem static_discovery_ends:
  assumes "node_inv n" "list_all turn_ok envs"
  shows "\<exists>going n' gs. bd_resolveStatic envs n = Some (going, n') \<and> nd_greets n' = nd_greets n @ gs \<and>
    length gs + trials_left n' \<le> trials_left n \<and>
    (\<not> going \<longrightarrow> bd_stopped n' \<or> (\<forall>sn \<in> set (mStaticNeighbors n'). sn_trials sn = 0)) \<and>
    (envs \<noteq> [] \<and> prompt_turns envs n \<and>
       (\<forall>sn \<in> set (mStaticNeighbors n). sn_trials sn < length envs) \<longrightarrow> \<not> going)"
proof -
  obtain going n' gs where r: "bd_resolveStatic envs n = Some (going, n')" "nd_greets n' = nd_greets n @ gs"
    "length gs + trials_left n' \<le> trials_left n"
    "\<not> going \<longrightarrow> bd_stopped n' \<or> (\<forall>sn \<in> set (mStaticNeighbors n'). sn_trials sn = 0)"
    using resolveStatic_runs[OF assms] by blast
  have "\<not> going" if "envs \<noteq> []" "prompt_turns envs n"
    "\<forall>sn \<in> set (mStaticNeighbors n). sn_trials sn < length envs"
  proof (rule resolveStatic_ends[OF assms that(2) _ _ r(1)])
    show "\<forall>sn \<in> set (mStaticNeighbors n). sn_trials sn \<le> length envs - 1"
      using that(3) by auto
    show "length envs - 1 < length envs"
      using that(1) by simp
  qed
  with r show ?thesis
    by blast
qed

text \<open>
  C28: a neighbor that does not answer is asked no more often than it has trials: over any number
  of turns the loop sends contact \<open>i\<close> at most as many heartbeats as \<open>i\<close> has trials, and it leaves the
  contact shown as inactive as soon as one was sent, and its state alone as long as none was.
\<close>

theorem silent_neighbor_dropped:
  assumes "node_inv n" "list_all (\<lambda>env. \<not> answers (env i)) envs"
  shows "\<exists>going n' cs. bd_resolveDynamic envs n = Some (going, n') \<and> nd_calls n' = nd_calls n @ cs \<and>
    calls_to i cs + trials_of i (mDynamicNeighbors n') \<le> trials_of i (mDynamicNeighbors n) \<and>
    (if calls_to i cs = 0
     then state (mContacts (nd_contacts n') ! i) = state (mContacts (nd_contacts n) ! i)
     else isInactive (state (mContacts (nd_contacts n') ! i)))"
  using resolveDynamic_silenced[OF assms] unfolding silenced_def by blast

subsection \<open>Examples\<close>

text \<open>A host with one static neighbor that never answers, and one that was greeted and then fell silent.\<close>

definition no_greeting :: "int \<Rightarrow> nat \<Rightarrow> static_env" where
  "no_greeting t k = \<lparr>se_steady = t, se_stub = True,
     se_response = \<lparr>gr_status = False, gr_nickname = [], gr_identity = [], gr_ipAddressAndPort = []\<rparr>,
     se_threshold = 5000, se_kick = t\<rparr>"

definition no_answer :: "int \<Rightarrow> nat \<Rightarrow> dynamic_env" where
  "no_answer t i = \<lparr>de_steady = t, de_stub = True,
     de_response = \<lparr>hr_status = False, hr_identity = []\<rparr>, de_kick = t\<rparr>"

definition sample_times :: "int list" where
  "sample_times = map (\<lambda>k. 10000000000 * int k) [1..<8]"

definition lonely_engine :: "engine option" where
  "lonely_engine = new_engine ''ann'' ''id-ann'' ''10.0.0.1'' ''80'' [(''10.0.0.2'', 500, 0)] 0"

lemma static_run:
  "case lonely_engine of None \<Rightarrow> False | Some e0 \<Rightarrow>
     prompt_turns (map no_greeting sample_times) (en_node e0) \<and> trials_left (en_node e0) = 3 \<and>
     list_all (\<lambda>sn. sn_trials sn < 7) (mStaticNeighbors (en_node e0)) \<and> nd_greets (en_node e0) = []"
  by code_simp

theorem static_discovery_ends_witness:
  "\<exists>(e0 :: engine) n'. lonely_engine = Some e0 \<and>
    bd_resolveStatic (map no_greeting sample_times) (en_node e0) = Some (False, n') \<and>
    length (nd_greets n') \<le> 3"
proof -
  have len: "length ''ann'' < TTCONTACTS_DATA_MAX_LENGTH"
    by (simp add: TTCONTACTS_DATA_MAX_LENGTH_def)
  obtain e0 where e0: "lonely_engine = Some e0" "engine_inv e0"
    using new_engine_inv[OF len] unfolding lonely_engine_def by blast
  have run: "prompt_turns (map no_greeting sample_times) (en_node e0)" "trials_left (en_node e0) = 3"
    "\<forall>sn \<in> set (mStaticNeighbors (en_node e0)). sn_trials sn < 7" "nd_greets (en_node e0) = []"
    using static_run unfolding e0(1) option.case list_all_iff by blast+
  have inv: "node_inv (en_node e0)" and ok: "list_all turn_ok (map no_greeting sample_times)"
    using e0(2) by (simp_all add: engine_inv_def list_all_iff turn_ok_def no_greeting_def response_ok_def
        TTCONTACTS_DATA_MAX_LENGTH_def)
  show ?thesis
    using static_discovery_ends[OF inv ok] run e0(1) by (auto simp: sample_times_def)
qed

theorem silent_neighbor_dropped_witness:
  "\<exists>(e :: engine) n' going. bd_resolveDynamic (map no_answer sample_times) (en_node e) = Some (going, n') \<and>
    calls_to 1 (nd_calls n') \<le> 5"
proof -
  have len: "length ''ann'' < TTCONTACTS_DATA_MAX_LENGTH"
    "list_all engine_op_ok [EngineGreet 5000 0 ''bob'' ''id-bob'' ''10.0.0.2:80'']"
    by (simp_all add: TTCONTACTS_DATA_MAX_LENGTH_def)
  obtain e0 rs e where e: "lonely_engine = Some e0"
    "run_ops engine_step e0 [EngineGreet 5000 0 ''bob'' ''id-bob'' ''10.0.0.2:80''] = Some (rs, e)" "engine_inv e"
    using engine_run_inv[OF len] unfolding lonely_engine_def by blast
  have "case lonely_engine of None \<Rightarrow> False | Some e0 \<Rightarrow>
      (case run_ops engine_step e0 [EngineGreet 5000 0 ''bob'' ''id-bob'' ''10.0.0.2:80''] of
         None \<Rightarrow> False
       | Some (rs, e) \<Rightarrow> trials_of 1 (mDynamicNeighbors (en_node e)) = 5 \<and> nd_calls (en_node e) = [])"
    by code_simp
  then have t: "trials_of 1 (mDynamicNeighbors (en_node e)) = 5" "nd_calls (en_node e) = []"
    unfolding e(1) option.case e(2) prod.case by blast+
  have inv: "node_inv (en_node e)" and silent: "list_all (\<lambda>env. \<not> answers (env 1)) (map no_answer sample_times)"
    using e(3) by (simp_all add: engine_inv_def list_all_iff answers_def no_answer_def)
  show ?thesis
    using silent_neighbor_dropped[OF inv silent] t by fastforce
qed

end
