(* ===== verification/Timer_Pace.thy ===== *)
theory Timer_Pace
  imports Services
begin

text \<open>
  \<open>TTUtilsTimerFactory\<close> (utils/src/TTUtilsTimerFactory.hpp): timers with a random threshold
  between two bounds.  The random number is what \<open>draw\<close> gives, of which the library promises only
  that it lies between the bounds (\<open>uniform\<close>).

  The theorem bounds how often the chat loop calls a neighbor, whatever happens in between.
\<close>

subsection \<open>The factory\<close>

record timer_factory =
  tf_min :: int
  tf_max :: int

definition factory_create :: "(int \<Rightarrow> int \<Rightarrow> int) \<Rightarrow> timer_factory \<Rightarrow> int \<Rightarrow> timer" where
  "factory_create draw f now = new_timer (draw (tf_min f) (tf_max f)) now"

definition uniform :: "(int \<Rightarrow> int \<Rightarrow> int) \<Rightarrow> bool" where
  "uniform draw \<longleftrightarrow> (\<forall>a b. a \<le> b \<longrightarrow> a \<le> draw a b \<and> draw a b \<le> b)"

text \<open>The factory of \<open>TTBroadcasterChat\<close>, and the entry \<open>handleSend\<close> makes with it for a neighbor.\<close>

definition chat_timer_factory :: timer_factory where
  "chat_timer_factory = \<lparr>tf_min = 3000, tf_max = 6000\<rparr>"

definition new_chat_neighbor :: "(int \<Rightarrow> int \<Rightarrow> int) \<Rightarrow> bool \<Rightarrow> int \<Rightarrow> chat_neighbor" where
  "new_chat_neighbor draw stub now =
     \<lparr>nb_stub = stub, nb_timer = timer_expire (factory_create draw chat_timer_factory now),
      pendingMessages = []\<rparr>"

lemma new_chat_neighbor_fresh: "new_chat_neighbor draw stub now = fresh_neighbor stub (draw 3000 6000) now"
  by (simp add: new_chat_neighbor_def fresh_neighbor_def factory_create_def chat_timer_factory_def)

lemma new_chat_neighbor_threshold:
  "uniform draw \<Longrightarrow> 3000 \<le> mThreshold (nb_timer (new_chat_neighbor draw stub now)) \<and>
     mThreshold (nb_timer (new_chat_neighbor draw stub now)) \<le> 6000"
  by (simp add: uniform_def new_chat_neighbor_def factory_create_def chat_timer_factory_def new_timer_def timer_expire_def)

subsection \<open>Turns at one neighbor\<close>

text \<open>
  A turn meets the clocks and outcomes of its \<open>chat_env\<close>, a node in whatever state, and the messages
  pending by then.  The times of the turns that made a call: when the timer was asked, and when
  it was kicked.
\<close>

type_synonym chat_turn = "(int \<times> int \<times> bool \<times> bool) \<times> node \<times> string list"

fun chat_calls :: "nat \<Rightarrow> chat_turn list \<Rightarrow> chat_neighbor \<Rightarrow> (int \<times> int) list option" where
  "chat_calls i [] nb = Some []"
| "chat_calls i ((env, n, ms) # ts) nb = do {
     (nb1, n1) \<leftarrow> bc_neighbor env i (nb\<lparr>pendingMessages := ms\<rparr>) n;
     cs \<leftarrow> chat_calls i ts nb1;
     Some ((if nd_calls n1 \<noteq> nd_calls n then [(fst env, fst (snd env))] else []) @ cs)
   }"

text \<open>The steady clock does not go back.\<close>

fun clocks_from :: "int \<Rightarrow> chat_turn list \<Rightarrow> bool" where
  "clocks_from t [] = True"
| "clocks_from t (((steady, kick, outcome), n, ms) # ts) \<longleftrightarrow>
     t \<le> steady \<and> steady \<le> kick \<and> clocks_from kick ts"

lemma bc_neighbor_timer:
  assumes "bc_neighbor (steady, kick, stub_ok, call_ok) i nb n = Some (nb1, n1)"
  shows "if timer_expired steady (nb_timer nb) then nb_timer nb1 = timer_kick kick (nb_timer nb)
    else nb_timer nb1 = nb_timer nb \<and> n1 = n"
  using assms by (auto simp: bc_neighbor_def Let_def split: option.splits if_splits prod.splits)

lemma timer_expired_after:
  assumes "3000 \<le> mThreshold w" "mTimestamp w \<le> t" "timer_expired t w"
  shows "mTimestamp w + 3000000000 \<le> t"
proof -
  have "3000 \<le> (t - mTimestamp w) div 1000000"
    using assms by (simp add: timer_expired_def timer_remaining_def Let_def)
  then have "3000 * 1000000 \<le> t - mTimestamp w"
    by linarith
  then show ?thesis
    by simp
qed

lemma chat_calls_paced:
  "chat_calls i ts nb = Some cs \<Longrightarrow> clocks_from t ts \<Longrightarrow> mTimestamp (nb_timer nb) \<le> t \<Longrightarrow>
   3000 \<le> mThreshold (nb_timer nb) \<Longrightarrow>
   sorted_wrt (\<lambda>(s, k) (s', k'). k + 3000000000 \<le> s') cs \<and>
   (\<forall>(s, k) \<in> set cs. mTimestamp (nb_timer nb) + 3000000000 \<le> s)"
proof (induction ts arbitrary: nb cs t)
  case (Cons turn ts)
  obtain steady kick stub_ok call_ok n ms where turn: "turn = ((steady, kick, stub_ok, call_ok), n, ms)"
    by (metis surj_pair)
  let ?nb = "nb\<lparr>pendingMessages := ms\<rparr>"
  obtain nb1 n1 cs1 where run: "bc_neighbor (steady, kick, stub_ok, call_ok) i ?nb n = Some (nb1, n1)"
    "chat_calls i ts nb1 = Some cs1"
    and cs: "cs = (if nd_calls n1 \<noteq> nd_calls n then [(steady, kick)] else []) @ cs1"
    using Cons.prems(1) by (auto simp: turn bind_eq_Some_conv)
  have clocks: "t \<le> steady" "steady \<le> kick" "clocks_from kick ts"
    using Cons.prems(2) by (simp_all add: turn)
  note T = bc_neighbor_timer[OF run(1)]
  show ?case
  proof (cases "timer_expired steady (nb_timer nb)")
    case True
    then have nb1: "mTimestamp (nb_timer nb1) = kick" "mThreshold (nb_timer nb1) = mThreshold (nb_timer nb)"
      using T by (simp_all add: timer_kick_def)
    have late: "mTimestamp (nb_timer nb) + 3000000000 \<le> steady"
      using timer_expired_after[OF Cons.prems(4) _ True] Cons.prems(3) clocks(1) by linarith
    have rest: "sorted_wrt (\<lambda>(s, k) (s', k'). k + 3000000000 \<le> s') cs1"
      "\<forall>(s, k) \<in> set cs1. kick + 3000000000 \<le> s"
      using Cons.IH[OF run(2) clocks(3)] nb1 Cons.prems(4) by simp_all
    have "\<forall>(s, k) \<in> set cs1. mTimestamp (nb_timer nb) + 3000000000 \<le> s"
      using rest(2) late clocks(2) by fastforce
    with cs rest late show ?thesis
      by auto
  next
    case False
    then have nb1: "nb_timer nb1 = nb_timer nb" "n1 = n"
      using T by simp_all
    have "mTimestamp (nb_timer nb1) \<le> kick"
      using nb1(1) Cons.prems(3) clocks(1,2) by simp
    with Cons.IH[OF run(2) clocks(3)] nb1 Cons.prems(4) cs show ?thesis
      by simp
  qed
qed simp

subsection \<open>Properties\<close>

text \<open>
  C33: the chat loop calls a neighbor at most once in three seconds: from the timer's kick in the turn of a
  call to the turn of the next at least three seconds pass, whatever the random thresholds, the states the
  turns meet, the messages that come to be pending and the outcomes of the calls.
\<close>

theorem chat_calls_apart:
  assumes "uniform draw" "0 \<le> t" "clocks_from t ts" "chat_calls i ts (new_chat_neighbor draw stub now) = Some cs"
  shows "sorted_wrt (\<lambda>(s, k) (s', k'). k + 3000 * 1000000 \<le> s') cs"
proof -
  have "mTimestamp (nb_timer (new_chat_neighbor draw stub now)) \<le> t"
    using assms(2) by (simp add: new_chat_neighbor_def timer_expire_def)
  from chat_calls_paced[OF assms(4,3) this] new_chat_neighbor_threshold[OF assms(1)] show ?thesis
    by simp
qed

text \<open>Three turns, of which the second comes too early for a call.\<close>

definition three_turns :: "chat_turn list" where
  "three_turns = map (\<lambda>t. ((t, t, True, False), lone_node, [''hi''])) [9000000000, 10000000000, 16000000000]"

theorem chat_calls_apart_witness:
  "chat_calls 0 three_turns (new_chat_neighbor (\<lambda>a b. b) True 0) = Some [(9000000000, 9000000000), (16000000000, 16000000000)] \<and>
    sorted_wrt (\<lambda>(s, k) (s', k'). k + 3000 * 1000000 \<le> s') [(9000000000, 9000000000), (16000000000, 16000000000 :: int)]"
proof -
  have run: "chat_calls 0 three_turns (new_chat_neighbor (\<lambda>a b. b) True 0) =
      Some [(9000000000, 9000000000), (16000000000, 16000000000)]"
    by code_simp
  have "uniform (\<lambda>a b. b)" "clocks_from 0 three_turns"
    by (simp_all add: uniform_def three_turns_def)
  from chat_calls_apart[OF this(1) _ this(2) run] run show ?thesis
    by simp
qed

end
