(* ===== verification/Contact_Race.thy ===== *)
theory Contact_Race
  imports Inbox
begin

text \<open>
  \<open>addNeighbor\<close> of \<open>TTBroadcasterDiscovery\<close> in two stages: the contact, then its conversation.
  The lock it holds keeps out other additions only: requests of neighbors and the callbacks
  of the text box can come between the stages, when the two stores are out of step.  The theorem says
  what the requests about the new contact do there.
\<close>

subsection \<open>The two stages\<close>

text \<open>\<open>Inl\<close> is the end of the method, \<open>Inr\<close> the number of the new contact.\<close>

definition bd_addContact ::
  "string \<Rightarrow> string \<Rightarrow> string \<Rightarrow> node \<Rightarrow> ((bool + nat) \<times> node) option" where
  "bd_addContact nick ident address n =
     (if nick = [] \<or> ident = [] \<or> address = [] then Some (Inl False, n)
      else case contacts_find ident (nd_contacts n) of
        Some i \<Rightarrow> do {
          (active, n1) \<leftarrow> on_contacts (ContactsActivate i) n;
          if \<not> active then Some (Inl False, bd_stop n1) else Some (Inl True, n1)
        }
      | None \<Rightarrow> do {
          (created, n1) \<leftarrow> on_contacts (ContactsCreate nick ident address) n;
          if \<not> created then Some (Inl False, n1)
          else case contacts_find ident (nd_contacts n1) of
            None \<Rightarrow> Some (Inl False, bd_stop n1)
          | Some i \<Rightarrow> Some (Inr i, n1)
        })"

definition bd_addConversation :: "dynamic_neighbor \<Rightarrow> nat \<Rightarrow> node \<Rightarrow> (bool \<times> node) option" where
  "bd_addConversation fresh i n = do {
     (stored, n1) \<leftarrow> on_chat (ChatCreate i) n;
     if \<not> stored then bd_fail n1
     else Some (True, n1\<lparr>mDynamicNeighbors := map_emplace i fresh (mDynamicNeighbors n1)\<rparr>)
   }"

lemma bd_addNeighbor_stages:
  "bd_addNeighbor fresh nick ident address n = do {
     (answer, n1) \<leftarrow> bd_addContact nick ident address n;
     case answer of Inl r \<Rightarrow> Some (r, n1) | Inr i \<Rightarrow> bd_addConversation fresh i n1
   }"
  by (auto simp: bd_addNeighbor_def bd_addContact_def bd_addConversation_def bd_fail_def
      bind_eq_Some_conv Option.bind_eq_None_conv split: option.splits if_splits Option.bind_splits)

subsection \<open>Between the stages\<close>

text \<open>The contact is there, shown as active, under the first number without a conversation.\<close>

lemma bd_addContact_new:
  assumes inv: "node_inv n" and new: "contacts_find ident (nd_contacts n) = None"
    and args: "nick \<noteq> []" "ident \<noteq> []" "address \<noteq> []" "length nick < TTCONTACTS_DATA_MAX_LENGTH"
  shows "\<exists>c. bd_addContact nick ident address n = Some (Inr (node_size n), n\<lparr>nd_contacts := c\<rparr>) \<and>
    contacts_inv c \<and> \<not> ch_stopped c \<and> contacts_find ident c = Some (node_size n) \<and>
    contacts_size c = Suc (node_size n) \<and> contacts_online c (node_size n) \<and>
    address_of (n\<lparr>nd_contacts := c\<rparr>) (node_size n) = address"
proof -
  have cinv: "contacts_inv (nd_contacts n)" "\<not> ch_stopped (nd_contacts n)"
    using sync_contacts_inv[OF node_invD(1)[OF inv]] by simp_all
  have "contacts_op_ok (ContactsCreate nick ident address)"
    using args(4) by simp
  from contacts_step_total[OF cinv(1) this] obtain r c where
    c: "contacts_step (nd_contacts n) (ContactsCreate nick ident address) = Some (r, c)" "contacts_inv c"
    by blast
  have "r \<and> contacts_size c = Suc (contacts_size (nd_contacts n)) \<and>
      mCurrentContact c = mCurrentContact (nd_contacts n) \<and> \<not> ch_stopped c"
    using pair.c_create[OF cinv _ c(1)] args(4) by simp
  then have r: r "contacts_size c = Suc (node_size n)" "\<not> ch_stopped c"
    by (simp_all add: node_size_def)
  note created = contacts_step_create[OF c(1)]
  have find: "contacts_find ident c = Some (node_size n)"
    using created(2) by (simp add: contacts_find_def node_size_def contacts_size_def)
  have addr: "address_of (n\<lparr>nd_contacts := c\<rparr>) (node_size n) = address"
    using created(1) by (simp add: address_of_def node_size_def contacts_size_def nth_append)
  have "mContacts c = mContacts (nd_contacts n) @ [new_handler_entry nick ident address]"
    using c(1) contacts_create_eq[OF args(4), of ident address "nd_contacts n"] by auto
  then have "contacts_online c (node_size n)"
    by (simp add: contacts_online_def node_size_def contacts_size_def nth_append isActive_def)
  with r(1,2,3) c find addr args(1-3) new show ?thesis
    by (intro exI[of _ c]) (simp add: bd_addContact_def on_contacts_def del: contacts_step.simps)
qed

lemma tell_between_stages:
  assumes c: "contacts_inv c" "\<not> ch_stopped c" "contacts_find ident c = Some i" "contacts_size c = Suc i"
    "contacts_online c i" "address_of (n\<lparr>nd_contacts := c\<rparr>) i \<noteq> nd_address n"
    and h: "chat_inv (nd_chat n)" "\<not> th_stopped (nd_chat n)" "chat_length (nd_chat n) = i"
  shows "\<exists>n2. bc_handleTell now ident message (n\<lparr>nd_contacts := c\<rparr>) = Some (False, n2) \<and> bc_stopped n2"
proof -
  let ?n = "n\<lparr>nd_contacts := c\<rparr>"
  obtain e where e: "contacts_get i (nd_contacts ?n) = Some e"
    using contacts_get_some[of i ?n] c(4) by (auto simp: node_size_def)
  have sender: "bc_sender ident ?n = Inr i"
    using c(3,6) e address_of_get[OF e] by (simp add: bc_sender_def)
  obtain r c1 where c1: "contacts_step c (ContactsReceive i) = Some (r, c1)"
    using contacts_step_total[OF c(1), of "ContactsReceive i"] by auto
  have r
    using pair.c_receive[OF c(1,2) c1] c(4,5) by simp
  obtain r' h1 where h1: "chat_step (nd_chat n) (ChatReceive i message now) = Some (r', h1)"
    using pair.h_total[OF h(1)] by blast
  have "\<not> r'"
    using pair.h_receive[OF h(1,2) h1] h(3) by simp
  with \<open>r\<close> sender c1 h1 show ?thesis
    by (simp add: bc_handleTell_def on_contacts_def on_chat_def bc_fail_def
        del: contacts_step.simps chat_step.simps)
qed

lemma selection_between_stages:
  assumes c: "contacts_inv (nd_contacts (en_node e))" "\<not> ch_stopped (nd_contacts (en_node e))"
    "contacts_size (nd_contacts (en_node e)) = Suc i"
    and h: "chat_inv (nd_chat (en_node e))" "\<not> th_stopped (nd_chat (en_node e))"
      "chat_length (nd_chat (en_node e)) = i"
  shows "\<exists>e1. engine_selection now i e = Some (False, e1) \<and> en_stopped e1"
proof -
  obtain r c1 where c1: "contacts_step (nd_contacts (en_node e)) (ContactsSelect i) = Some (r, c1)"
    using contacts_step_total[OF c(1), of "ContactsSelect i"] by auto
  obtain r' h1 where h1: "chat_step (nd_chat (en_node e)) (ChatSelect now i) = Some (r', h1)"
    using pair.h_total[OF h(1)] by blast
  have "\<not> r'"
    using pair.h_select[OF h(1,2) h1] h(3) by simp
  with c1 h1 c(3) show ?thesis
    by (simp add: engine_selection_def on_contacts_def on_chat_def engine_stop_def engine_onStop_def Let_def
        del: contacts_step.simps chat_step.simps)
qed

subsection \<open>Properties\<close>

text \<open>
  C21: a neighbor whose first message, or the user's first selection of it, comes while it is being
  added brings the engine down: between the creation of the contact and that of its conversation
  a \<open>Tell\<close> from it is answered with an error and stops the broadcaster, which the supervision loop
  follows, and a selection of it stops the engine at once.
\<close>

theorem new_contact_races:
  assumes "length nick0 < TTCONTACTS_DATA_MAX_LENGTH" "list_all engine_op_ok xs"
    and "new_engine nick0 ident0 ip port neighbors now0 = Some e0"
    and "run_ops engine_step e0 xs = Some (rs, e)"
    and "nick \<noteq> []" "ident \<noteq> []" "address \<noteq> []" "length nick < TTCONTACTS_DATA_MAX_LENGTH"
    and "contacts_find ident (nd_contacts (en_node e)) = None" "address \<noteq> nd_address (en_node e)"
  shows "\<exists>n i. bd_addContact nick ident address (en_node e) = Some (Inr i, n) \<and>
    (\<exists>e1. engine_step (e\<lparr>en_node := n\<rparr>) (EngineTell now ident message) = Some (False, e1) \<and>
       engine_watch e1 = (False, engine_stop e1)) \<and>
    (\<exists>e2. engine_step (e\<lparr>en_node := n\<rparr>) (EngineSelection now i) = Some (False, e2) \<and> en_stopped e2)"
proof -
  let ?n = "en_node e"
  have n: "node_inv ?n"
    using engine_run_inv[OF assms(1,2), of ident0 ip port neighbors now0] assms(3,4)
    by (auto simp: engine_inv_def)
  have h: "chat_inv (nd_chat ?n)" "\<not> th_stopped (nd_chat ?n)" "chat_length (nd_chat ?n) = node_size ?n"
    using node_invD(1)[OF n] by (simp_all add: pair.sync_def node_size_def)
  obtain c where add: "bd_addContact nick ident address ?n = Some (Inr (node_size ?n), ?n\<lparr>nd_contacts := c\<rparr>)"
    and c: "contacts_inv c" "\<not> ch_stopped c" "contacts_find ident c = Some (node_size ?n)"
      "contacts_size c = Suc (node_size ?n)" "contacts_online c (node_size ?n)"
      "address_of (?n\<lparr>nd_contacts := c\<rparr>) (node_size ?n) = address"
    using bd_addContact_new[OF n assms(9,5-8)] by blast
  let ?e = "e\<lparr>en_node := ?n\<lparr>nd_contacts := c\<rparr>\<rparr>"
  have "address_of (?n\<lparr>nd_contacts := c\<rparr>) (node_size ?n) \<noteq> nd_address ?n"
    using c(6) assms(10) by simp
  from tell_between_stages[OF c(1-5) this h] obtain n2 where
    t: "bc_handleTell now ident message (?n\<lparr>nd_contacts := c\<rparr>) = Some (False, n2)" "bc_stopped n2"
    by blast
  let ?e1 = "?e\<lparr>en_node := n2\<rparr>"
  have "engine_step ?e (EngineTell now ident message) = Some (False, ?e1)"
    using t(1) by (simp add: on_node_def answered_def service_Tell_def null_check_def handle_failed_def)
  moreover have "engine_watch ?e1 = (False, engine_stop ?e1)"
    using t(2) by (simp add: engine_watch_def Let_def)
  moreover obtain e2 where "engine_selection now (node_size ?n) ?e = Some (False, e2)" "en_stopped e2"
    using selection_between_stages[of ?e "node_size ?n" now] c h by auto
  ultimately show ?thesis
    using add by auto
qed

theorem new_contact_races_witness:
  "\<exists>e0 n i e1. new_engine ''ann'' ''id-ann'' ''10.0.0.1'' ''80'' [] 0 = Some e0 \<and>
    bd_addContact ''bob'' ''id-bob'' ''10.0.0.2:80'' (en_node e0) = Some (Inr i, n) \<and>
    engine_step (e0\<lparr>en_node := n\<rparr>) (EngineTell 1 ''id-bob'' ''hi'') = Some (False, e1) \<and>
    engine_watch e1 = (False, engine_stop e1)"
proof -
  have short: "length ''ann'' < TTCONTACTS_DATA_MAX_LENGTH" "length ''bob'' < TTCONTACTS_DATA_MAX_LENGTH"
    by (simp_all add: TTCONTACTS_DATA_MAX_LENGTH_def)
  have "case new_engine ''ann'' ''id-ann'' ''10.0.0.1'' ''80'' [] 0 of None \<Rightarrow> False | Some e0 \<Rightarrow>
      contacts_find ''id-bob'' (nd_contacts (en_node e0)) = None \<and> nd_address (en_node e0) = ''10.0.0.1:80''"
    by code_simp
  then obtain e0 where e0: "new_engine ''ann'' ''id-ann'' ''10.0.0.1'' ''80'' [] 0 = Some e0"
    "contacts_find ''id-bob'' (nd_contacts (en_node e0)) = None" "''10.0.0.2:80'' \<noteq> nd_address (en_node e0)"
    by (auto split: option.splits)
  from new_contact_races[OF short(1) _ e0(1) _ _ _ _ short(2) e0(2,3), of "[]" "[]" 1 "''hi''"] e0(1)
  show ?thesis
    by auto
qed

end
