(* ===== verification/Engine_Life.thy ===== *)
theory Engine_Life
  imports Engine TextBox_Handler Pump_Spec
begin

text \<open>
  The life of \<open>TTEngine\<close> (engine/src/TTEngine.cpp) from its constructor to its destructor, with the
  threads that work on it: the thread of \<open>main\<close>, which constructs the engine, runs its supervision
  loop and destroys it; the threads \<open>server\<close>, \<open>chat\<close> and \<open>discovery\<close> it starts (the last with the two
  loops it starts in turn and waits for); the thread of \<open>TTTextBoxHandler\<close>, which makes the
  engine's callbacks and was started before any of them; and the handlers of neighbors' requests.
  One relation for each of them; \<open>engine_outside\<close> is whoever stops the engine, or one of its
  stores, from the outside.

  A step is a turn of a loop, a callback, a request, a stop or one of the calls of the constructor.
  A second caller of \<open>stop\<close> waits until the first is through (\<open>call_once\<close>), so \<open>stop\<close> is one step.  It
  starts by shutting the server down, which waits for the requests under way; so there are no
  requests after it.

  The lemmas show when a stop ends everything, that nothing the threads use is destroyed before they
  have left, and two races at both ends of the engine's life: callbacks that come before the
  broadcasters exist or when they are gone, and a stop before the server exists, after which the
  engine never ends.
\<close>

subsection \<open>State\<close>

datatype main_pc =
    E_Building nat                    \<comment> \<open>the handlers exist; the calls made on the stores so far\<close>
  | E_Started                         \<comment> \<open>the constructor has returned\<close>
  | E_Running                         \<comment> \<open>in \<open>run\<close>\<close>
  | E_Left                            \<comment> \<open>\<open>run\<close> has returned\<close>
  | E_Joining                         \<comment> \<open>the destructor waits for the three promises\<close>
  | E_Emptied                         \<comment> \<open>the broadcasters are gone, waiting for the text box's thread\<close>
  | E_Gone

datatype engine_pc = T_None | T_Looping | T_Returned | T_Stopped | T_Exited

text \<open>\<open>X_Reading i\<close>: in \<open>receive\<close>, with \<open>i\<close> tries left after this one.\<close>

datatype caller_pc = X_Head nat | X_Reading nat | X_Calling callback | X_Exited

text \<open>
  \<open>el_parts\<close>: the stub, the broadcasters, the services and the server exist.  \<open>el_fault\<close>: a callback
  used a broadcaster that does not exist.
\<close>

record engine_life =
  el_engine :: engine
  el_parts :: bool
  el_fault :: bool
  el_main :: main_pc
  el_server :: engine_pc
  el_chat :: engine_pc
  el_discovery :: engine_pc
  el_static :: bool                   \<comment> \<open>the loop over the static neighbors goes on\<close>
  el_dynamic :: bool
  el_textbox :: caller_pc

text \<open>What the settings and the clocks contribute to the constructor.\<close>

record engine_start =
  sc_nick :: string
  sc_identity :: string
  sc_ip :: string
  sc_port :: string
  sc_neighbors :: "(string \<times> int \<times> int) list"
  sc_now :: timestamp

definition start_address :: "engine_start \<Rightarrow> string" where
  "start_address c = sc_ip c @ '':'' @ sc_port c"

definition init_life :: "engine_start \<Rightarrow> engine_life" where
  "init_life c =
     \<lparr>el_engine = \<lparr>en_node = \<lparr>nd_contacts = init_contacts_handler, nd_chat = init_chat_handler,
        nd_address = start_address c, bc_stopped = False, mNeighbors = [], bd_stopped = False,
        mStaticNeighbors = [], mDynamicNeighbors = [], nd_calls = [], nd_greets = []\<rparr>,
        en_stopped = False, en_once = False, en_server = False, en_textbox = False\<rparr>,
      el_parts = False, el_fault = False, el_main = E_Building 0, el_server = T_None,
      el_chat = T_None, el_discovery = T_None, el_static = False, el_dynamic = False,
      el_textbox = X_Head RECEIVE_TRY_COUNT\<rparr>"

subsection \<open>\<open>stop\<close> while parts are missing\<close>

text \<open>\<open>onStop\<close> skips the parts that do not exist, and is not called a second time.\<close>

definition early_stop :: "engine \<Rightarrow> engine" where
  "early_stop e =
     (let e1 = e\<lparr>en_stopped := True\<rparr>; n = en_node e1 in
      if en_once e1 then e1
      else e1\<lparr>en_once := True, en_textbox := True,
        en_node := n\<lparr>nd_contacts := contacts_stop (nd_contacts n), nd_chat := chat_stop (nd_chat n)\<rparr>\<rparr>)"

definition life_stop :: "engine_life \<Rightarrow> engine_life" where
  "life_stop s =
     s\<lparr>el_engine := (if el_parts s then engine_stop (el_engine s) else early_stop (el_engine s))\<rparr>"

subsection \<open>The thread of \<open>main\<close>\<close>

definition first_calls :: "engine_start \<Rightarrow> (node \<Rightarrow> (bool \<times> node) option) list" where
  "first_calls c =
     [on_contacts (ContactsCreate (sc_nick c) (sc_identity c) (start_address c)),
      on_contacts (ContactsSelect 0), on_chat (ChatCreate 0), on_chat (ChatSelect (sc_now c) 0)]"

definition put_node :: "node \<Rightarrow> engine_life \<Rightarrow> engine_life" where
  "put_node n s = s\<lparr>el_engine := (el_engine s)\<lparr>en_node := n\<rparr>\<rparr>"

text \<open>The rest of the constructor: the other parts, and the three threads.\<close>

definition assemble :: "engine_start \<Rightarrow> engine_life \<Rightarrow> engine_life" where
  "assemble c s =
     (put_node ((en_node (el_engine s))\<lparr>mStaticNeighbors := map (\<lambda>(a, threshold, steady).
        fresh_static threshold steady (a @ '':'' @ sc_port c)) (sc_neighbors c)\<rparr>) s)
     \<lparr>el_parts := True, el_server := T_Looping, el_chat := T_Looping, el_discovery := T_Looping,
      el_static := True, el_dynamic := True, el_main := E_Started\<rparr>"

text \<open>
  The destructor stops the engine and waits for the promises; then the members are destroyed, the
  broadcasters first and the text box handler, which stops and waits for its thread, after them.
\<close>

inductive engine_main :: "engine_start \<Rightarrow> engine_life \<Rightarrow> engine_life \<Rightarrow> bool" for c where
  em_first: "el_main s = E_Building k \<Longrightarrow> k < 4 \<Longrightarrow> (first_calls c ! k) (en_node (el_engine s)) = Some (r, n) \<Longrightarrow>
     engine_main c s ((put_node n s)\<lparr>el_main := E_Building (Suc k)\<rparr>)"
| em_assemble: "el_main s = E_Building 4 \<Longrightarrow> engine_main c s (assemble c s)"
| em_run: "el_main s = E_Started \<Longrightarrow>
     engine_main c s (s\<lparr>el_main := if en_stopped (el_engine s) then E_Left else E_Running\<rparr>)"
| em_watch: "el_main s = E_Running \<Longrightarrow> engine_watch (el_engine s) = (r, e) \<Longrightarrow>
     engine_main c s (s\<lparr>el_engine := e, el_main := if r then E_Running else E_Left\<rparr>)"
| em_destruct: "el_main s = E_Left \<Longrightarrow> engine_main c s ((life_stop s)\<lparr>el_main := E_Joining\<rparr>)"
| em_join: "el_main s = E_Joining \<Longrightarrow> el_server s = T_Exited \<Longrightarrow> el_chat s = T_Exited \<Longrightarrow>
     el_discovery s = T_Exited \<Longrightarrow>
     engine_main c s (s\<lparr>el_parts := False, el_engine := (el_engine s)\<lparr>en_textbox := True\<rparr>,
       el_main := E_Emptied\<rparr>)"
| em_textbox: "el_main s = E_Emptied \<Longrightarrow> el_textbox s = X_Exited \<Longrightarrow>
     engine_main c s (s\<lparr>el_main := E_Gone\<rparr>)"

inductive_cases engine_main_cases: "engine_main c s t"

subsection \<open>The threads of the engine\<close>

text \<open>\<open>Wait\<close> of the gRPC server returns once the server was shut down.\<close>

inductive server_thread :: "engine_life \<Rightarrow> engine_life \<Rightarrow> bool" where
  sv_return: "el_server s = T_Looping \<Longrightarrow> en_server (el_engine s) \<Longrightarrow>
     server_thread s (s\<lparr>el_server := T_Returned\<rparr>)"
| sv_stop: "el_server s = T_Returned \<Longrightarrow> server_thread s ((life_stop s)\<lparr>el_server := T_Stopped\<rparr>)"
| sv_promise: "el_server s = T_Stopped \<Longrightarrow> server_thread s (s\<lparr>el_server := T_Exited\<rparr>)"

inductive chat_thread :: "engine_life \<Rightarrow> engine_life \<Rightarrow> bool" where
  ct_turn: "el_chat s = T_Looping \<Longrightarrow> engine_step (el_engine s) (EngineChatTurn env) = Some (going, e) \<Longrightarrow>
     chat_thread s (s\<lparr>el_engine := e, el_chat := if going then T_Looping else T_Returned\<rparr>)"
| ct_stop: "el_chat s = T_Returned \<Longrightarrow> chat_thread s ((life_stop s)\<lparr>el_chat := T_Stopped\<rparr>)"
| ct_promise: "el_chat s = T_Stopped \<Longrightarrow> chat_thread s (s\<lparr>el_chat := T_Exited\<rparr>)"

text \<open>\<open>run\<close> of the discovery broadcaster starts two tasks and waits for both.\<close>

inductive discovery_thread :: "engine_life \<Rightarrow> engine_life \<Rightarrow> bool" where
  dt_static: "el_discovery s = T_Looping \<Longrightarrow> el_static s \<Longrightarrow>
     engine_step (el_engine s) (EngineStaticTurn env) = Some (going, e) \<Longrightarrow>
     discovery_thread s (s\<lparr>el_engine := e, el_static := going\<rparr>)"
| dt_dynamic: "el_discovery s = T_Looping \<Longrightarrow> el_dynamic s \<Longrightarrow>
     engine_step (el_engine s) (EngineDynamicTurn denv) = Some (going, e) \<Longrightarrow>
     discovery_thread s (s\<lparr>el_engine := e, el_dynamic := going\<rparr>)"
| dt_return: "el_discovery s = T_Looping \<Longrightarrow> \<not> el_static s \<Longrightarrow> \<not> el_dynamic s \<Longrightarrow>
     discovery_thread s (s\<lparr>el_discovery := T_Returned\<rparr>)"
| dt_stop: "el_discovery s = T_Returned \<Longrightarrow> discovery_thread s ((life_stop s)\<lparr>el_discovery := T_Stopped\<rparr>)"
| dt_promise: "el_discovery s = T_Stopped \<Longrightarrow> discovery_thread s (s\<lparr>el_discovery := T_Exited\<rparr>)"

inductive_cases server_thread_cases: "server_thread s t"
inductive_cases chat_thread_cases: "chat_thread s t"
inductive_cases discovery_thread_cases: "discovery_thread s t"

subsection \<open>Callbacks and requests\<close>

definition life_mailbox :: "timestamp \<Rightarrow> chat_neighbor \<Rightarrow> string \<Rightarrow> engine_life \<Rightarrow> engine_life option" where
  "life_mailbox now fresh message s =
     (if \<not> el_parts s then Some (s\<lparr>el_fault := True\<rparr>)
      else case engine_mailbox now fresh message (el_engine s) of
        None \<Rightarrow> None | Some (r, e) \<Rightarrow> Some (s\<lparr>el_engine := e\<rparr>))"

text \<open>\<open>selection\<close>, with the \<open>stop\<close> of an engine that may not be complete.\<close>

definition life_selection :: "timestamp \<Rightarrow> nat \<Rightarrow> engine_life \<Rightarrow> engine_life option" where
  "life_selection now i s =
     (if i < contacts_size (nd_contacts (en_node (el_engine s))) then do {
        (r1, n1) \<leftarrow> on_contacts (ContactsSelect i) (en_node (el_engine s));
        (r2, n2) \<leftarrow> on_chat (ChatSelect now i) n1;
        Some (if \<not> (r1 \<and> r2) then life_stop (put_node n2 s) else put_node n2 s)
      } else Some s)"

primrec life_callback :: "timestamp \<Rightarrow> chat_neighbor \<Rightarrow> callback \<Rightarrow> engine_life \<Rightarrow> engine_life option" where
  "life_callback now fresh (MessageSent message) s = life_mailbox now fresh message s"
| "life_callback now fresh (ContactsSelected i) s = life_selection now (unat i) s"

text \<open>
  The text box handler's \<open>main\<close>.  A read may fail, find the end of the pipe or give a message;
  after a message the tries are full again.  In the end the handler stops itself.
\<close>

definition textbox_leave :: "engine_life \<Rightarrow> engine_life" where
  "textbox_leave s = s\<lparr>el_engine := (el_engine s)\<lparr>en_textbox := True\<rparr>, el_textbox := X_Exited\<rparr>"

inductive textbox_thread :: "engine_life \<Rightarrow> engine_life \<Rightarrow> bool" where
  xt_tired: "el_textbox s = X_Head 0 \<Longrightarrow> textbox_thread s (textbox_leave s)"
| xt_stopped: "el_textbox s = X_Head (Suc i) \<Longrightarrow> en_textbox (el_engine s) \<Longrightarrow> textbox_thread s (textbox_leave s)"
| xt_go: "el_textbox s = X_Head (Suc i) \<Longrightarrow> \<not> en_textbox (el_engine s) \<Longrightarrow>
     textbox_thread s (s\<lparr>el_textbox := X_Reading i\<rparr>)"
| xt_failed: "el_textbox s = X_Reading i \<Longrightarrow> textbox_thread s (s\<lparr>el_textbox := X_Head i\<rparr>)"
| xt_quiet: "el_textbox s = X_Reading i \<Longrightarrow> textbox_dispatch m = Some (True, []) \<Longrightarrow>
     textbox_thread s (s\<lparr>el_textbox := X_Head RECEIVE_TRY_COUNT\<rparr>)"
| xt_message: "el_textbox s = X_Reading i \<Longrightarrow> textbox_dispatch m = Some (True, [k]) \<Longrightarrow>
     textbox_thread s (s\<lparr>el_textbox := X_Calling k\<rparr>)"
| xt_end: "el_textbox s = X_Reading i \<Longrightarrow> textbox_thread s (textbox_leave s)"
| xt_call: "el_textbox s = X_Calling k \<Longrightarrow> life_callback now fresh k s = Some t \<Longrightarrow>
     textbox_thread s (t\<lparr>el_textbox := X_Head RECEIVE_TRY_COUNT\<rparr>)"

inductive_cases textbox_thread_cases: "textbox_thread s t"

primrec is_request :: "engine_op \<Rightarrow> bool" where
  "is_request (EngineMailbox now fresh message) = False"
| "is_request (EngineSelection now i) = False"
| "is_request (EngineTell now ident message) = True"
| "is_request (EngineNarrate hasher clock parts) = True"
| "is_request (EngineGreet threshold steady nick ident address) = True"
| "is_request (EngineHeartbeat ident) = True"
| "is_request (EngineChatTurn env) = False"
| "is_request (EngineStaticTurn env) = False"
| "is_request (EngineDynamicTurn env) = False"

text \<open>The pointer \<open>application\<close> is set once the engine is constructed, and reset before it is destroyed.\<close>

definition signalInterruptHandler :: "engine_life \<Rightarrow> engine_life" where
  "signalInterruptHandler s =
     (if el_main s = E_Started \<or> el_main s = E_Running \<or> el_main s = E_Left then life_stop s else s)"

text \<open>
  Requests of neighbors; the signal handler of \<open>Main.cpp\<close>; and the two stores, which stop when
  their windows do not answer.
\<close>

inductive engine_outside :: "engine_life \<Rightarrow> engine_life \<Rightarrow> bool" where
  eo_request: "el_parts s \<Longrightarrow> \<not> en_server (el_engine s) \<Longrightarrow> is_request x \<Longrightarrow>
     engine_step (el_engine s) x = Some (r, e) \<Longrightarrow> engine_outside s (s\<lparr>el_engine := e\<rparr>)"
| eo_signal: "engine_outside s (signalInterruptHandler s)"
| eo_contacts: "n = en_node (el_engine s) \<Longrightarrow>
     engine_outside s (put_node (n\<lparr>nd_contacts := contacts_stop (nd_contacts n)\<rparr>) s)"
| eo_chat: "n = en_node (el_engine s) \<Longrightarrow>
     engine_outside s (put_node (n\<lparr>nd_chat := chat_stop (nd_chat n)\<rparr>) s)"

inductive_cases engine_outside_cases: "engine_outside s t"

text \<open>Everybody's steps, and those of everybody else.\<close>

definition life_step :: "engine_start \<Rightarrow> engine_life \<Rightarrow> engine_life \<Rightarrow> bool" where
  "life_step c s t \<longleftrightarrow> engine_main c s t \<or> server_thread s t \<or> chat_thread s t \<or>
     discovery_thread s t \<or> textbox_thread s t \<or> engine_outside s t"

subsection \<open>Flags\<close>

definition flags_up :: "engine \<Rightarrow> engine \<Rightarrow> bool" where
  "flags_up e e' \<longleftrightarrow> (en_stopped e \<longrightarrow> en_stopped e') \<and> (en_once e \<longrightarrow> en_once e') \<and>
     (en_textbox e \<longrightarrow> en_textbox e') \<and> (en_server e \<longrightarrow> en_server e') \<and>
     (en_once e \<longrightarrow> en_server e' = en_server e) \<and>
     (en_stopped e = en_once e \<longrightarrow> en_stopped e' = en_once e')"

lemma flags_up_refl [simp]: "flags_up e e" "flags_up e (e\<lparr>en_node := n\<rparr>)" "flags_up e (e\<lparr>en_textbox := True\<rparr>)"
  by (simp_all add: flags_up_def)

lemma flags_up_stop [simp]:
  "flags_up e (engine_stop e)" "flags_up e (engine_stop (e\<lparr>en_node := n\<rparr>))" "flags_up e (early_stop e)"
  by (simp_all add: flags_up_def engine_stop_def engine_onStop_def early_stop_def Let_def)

lemma flags_up_step: "engine_step e x = Some (r, e') \<Longrightarrow> flags_up e e'"
  by (cases x)
    (auto simp: engine_mailbox_def engine_selection_def on_node_def bind_eq_Some_conv Let_def
      split: if_splits prod.splits)

lemma flags_up_mailbox: "engine_mailbox now fresh m e = Some (r, e') \<Longrightarrow> flags_up e e'"
  using flags_up_step[of e "EngineMailbox now fresh m"] by simp

lemma life_stop_flags: "flags_up (el_engine s) (el_engine (life_stop s))"
  by (simp add: life_stop_def)

lemma life_stop_simps [simp]:
  "el_parts (life_stop s) = el_parts s" "el_main (life_stop s) = el_main s"
  "el_server (life_stop s) = el_server s" "el_chat (life_stop s) = el_chat s"
  "el_discovery (life_stop s) = el_discovery s" "el_static (life_stop s) = el_static s"
  "el_dynamic (life_stop s) = el_dynamic s" "el_textbox (life_stop s) = el_textbox s"
  "el_fault (life_stop s) = el_fault s"
  "en_stopped (el_engine (life_stop s))" "en_once (el_engine (life_stop s))"
  "en_server (el_engine (life_stop s)) = (en_server (el_engine s) \<or> el_parts s \<and> \<not> en_once (el_engine s))"
  by (auto simp: life_stop_def engine_stop_def engine_onStop_def early_stop_def Let_def)

lemma signal_fault [simp]: "el_fault (signalInterruptHandler s) = el_fault s"
  by (simp add: signalInterruptHandler_def)

lemma put_node_simps [simp]:
  "el_parts (put_node n s) = el_parts s" "el_main (put_node n s) = el_main s"
  "el_server (put_node n s) = el_server s" "el_chat (put_node n s) = el_chat s"
  "el_discovery (put_node n s) = el_discovery s" "el_static (put_node n s) = el_static s"
  "el_dynamic (put_node n s) = el_dynamic s" "el_textbox (put_node n s) = el_textbox s"
  "el_fault (put_node n s) = el_fault s" "el_engine (put_node n s) = (el_engine s)\<lparr>en_node := n\<rparr>"
  by (simp_all add: put_node_def)

text \<open>What a callback changes.\<close>

definition same_pcs :: "engine_life \<Rightarrow> engine_life \<Rightarrow> bool" where
  "same_pcs s t \<longleftrightarrow> el_parts t = el_parts s \<and> el_main t = el_main s \<and> el_server t = el_server s \<and>
     el_chat t = el_chat s \<and> el_discovery t = el_discovery s \<and> el_static t = el_static s \<and>
     el_dynamic t = el_dynamic s"

lemma life_callback_frame:
  assumes "life_callback now fresh k s = Some t"
  shows "same_pcs s t \<and> flags_up (el_engine s) (el_engine t) \<and>
    (el_parts s \<or> en_server (el_engine t) = en_server (el_engine s))"
proof (cases k)
  case (MessageSent m)
  with assms show ?thesis
    by (auto simp: life_mailbox_def same_pcs_def split: if_splits option.splits dest: flags_up_mailbox)
next
  case (ContactsSelected i)
  have "flags_up (el_engine s) (el_engine (life_stop (put_node n s)))" for n
    using life_stop_flags[of "put_node n s"] by (simp add: flags_up_def)
  with assms ContactsSelected show ?thesis
    by (auto simp: life_selection_def same_pcs_def bind_eq_Some_conv split: if_splits)
qed

subsection \<open>The invariant\<close>

definition all_pcs :: "(engine_pc \<Rightarrow> bool) \<Rightarrow> engine_life \<Rightarrow> bool" where
  "all_pcs P s \<longleftrightarrow> P (el_server s) \<and> P (el_chat s) \<and> P (el_discovery s)"

definition life_inv :: "engine_life \<Rightarrow> bool" where
  "life_inv s \<longleftrightarrow> en_stopped (el_engine s) = en_once (el_engine s) \<and>
     (case el_main s of
        E_Building k \<Rightarrow> \<not> el_parts s \<and> all_pcs (\<lambda>p. p = T_None) s \<and> \<not> en_server (el_engine s)
      | E_Started \<Rightarrow> el_parts s \<and> all_pcs (\<lambda>p. p \<noteq> T_None) s
      | E_Running \<Rightarrow> el_parts s \<and> all_pcs (\<lambda>p. p \<noteq> T_None) s
      | E_Left \<Rightarrow> el_parts s \<and> all_pcs (\<lambda>p. p \<noteq> T_None) s
      | E_Joining \<Rightarrow> el_parts s \<and> all_pcs (\<lambda>p. p \<noteq> T_None) s \<and> en_once (el_engine s)
      | E_Emptied \<Rightarrow> \<not> el_parts s \<and> all_pcs (\<lambda>p. p = T_Exited) s \<and> en_once (el_engine s)
      | E_Gone \<Rightarrow> \<not> el_parts s \<and> all_pcs (\<lambda>p. p = T_Exited) s \<and> en_once (el_engine s) \<and>
          el_textbox s = X_Exited)"

lemma life_inv_init: "life_inv (init_life c)"
  by (simp add: life_inv_def init_life_def all_pcs_def)

text \<open>Steps that move no thread of the engine keep it.\<close>

lemma life_inv_frame:
  assumes "life_inv s" "same_pcs s t" "flags_up (el_engine s) (el_engine t)"
    and "el_parts s \<or> en_server (el_engine t) = en_server (el_engine s)"
    and "el_main s = E_Gone \<Longrightarrow> el_textbox t = X_Exited"
  shows "life_inv t"
  using assms by (auto simp: life_inv_def same_pcs_def flags_up_def all_pcs_def split: main_pc.splits)

lemma life_inv_textbox: "life_inv s \<Longrightarrow> textbox_thread s t \<Longrightarrow> life_inv t"
proof -
  assume inv: "life_inv s" and step: "textbox_thread s t"
  have gone: "el_main s = E_Gone \<Longrightarrow> el_textbox s = X_Exited"
    using inv by (simp add: life_inv_def)
  have "same_pcs s t \<and> flags_up (el_engine s) (el_engine t) \<and>
      (el_parts s \<or> en_server (el_engine t) = en_server (el_engine s)) \<and>
      (el_textbox s = X_Exited \<longrightarrow> el_textbox t = X_Exited)"
    using step
  proof cases
    case (xt_call k now fresh t1)
    then show ?thesis
      using life_callback_frame[OF xt_call(3)] by (simp add: same_pcs_def)
  qed (simp_all add: same_pcs_def textbox_leave_def)
  with gone show "life_inv t"
    using life_inv_frame[OF inv, of t] by blast
qed

lemma life_inv_outside: "life_inv s \<Longrightarrow> engine_outside s t \<Longrightarrow> life_inv t"
proof -
  assume inv: "life_inv s" and step: "engine_outside s t"
  have gone: "el_main s = E_Gone \<Longrightarrow> el_textbox s = X_Exited"
    and built: "el_main s = E_Started \<or> el_main s = E_Running \<or> el_main s = E_Left \<Longrightarrow> el_parts s"
    using inv by (auto simp: life_inv_def)
  have "same_pcs s t \<and> flags_up (el_engine s) (el_engine t) \<and>
      (el_parts s \<or> en_server (el_engine t) = en_server (el_engine s)) \<and> el_textbox t = el_textbox s"
    using step
  proof cases
    case (eo_request x r e)
    then show ?thesis
      using flags_up_step[OF eo_request(5)] by (simp add: same_pcs_def)
  next
    case eo_signal
    then show ?thesis
      using built life_stop_flags[of s] by (auto simp: same_pcs_def signalInterruptHandler_def)
  qed (simp_all add: same_pcs_def)
  with gone show "life_inv t"
    using life_inv_frame[OF inv, of t] by simp
qed

lemma engine_watch_flags: "engine_watch e = (r, e') \<Longrightarrow> flags_up e e'"
  by (auto simp: engine_watch_def Let_def split: if_splits)

lemma life_inv_main: "life_inv s \<Longrightarrow> engine_main c s t \<Longrightarrow> life_inv t"
proof (erule engine_main.cases, goal_cases)
  case (4 s r e)
  then show ?case
    using engine_watch_flags[of "el_engine s" r e] by (simp add: life_inv_def all_pcs_def flags_up_def)
qed (simp_all add: life_inv_def all_pcs_def assemble_def)

lemma life_inv_threads:
  "life_inv s \<Longrightarrow> server_thread s t \<Longrightarrow> life_inv t"
  "life_inv s \<Longrightarrow> chat_thread s t \<Longrightarrow> life_inv t"
  "life_inv s \<Longrightarrow> discovery_thread s t \<Longrightarrow> life_inv t"
proof -
  show "life_inv s \<Longrightarrow> server_thread s t \<Longrightarrow> life_inv t"
    by (erule server_thread.cases) (auto simp: life_inv_def all_pcs_def split: main_pc.splits)
  show "life_inv t" if "life_inv s" "chat_thread s t"
    using that(2)
  proof cases
    case (ct_turn env going e)
    then show ?thesis
      using that(1) flags_up_step[OF ct_turn(3)]
      by (auto simp: life_inv_def all_pcs_def flags_up_def split: main_pc.splits)
  qed (use that(1) in \<open>auto simp: life_inv_def all_pcs_def split: main_pc.splits\<close>)
  show "life_inv t" if "life_inv s" "discovery_thread s t"
    using that(2)
  proof cases
    case (dt_static env going e)
    then show ?thesis
      using that(1) flags_up_step[OF dt_static(4)]
      by (auto simp: life_inv_def all_pcs_def flags_up_def split: main_pc.splits)
  next
    case (dt_dynamic env going e)
    then show ?thesis
      using that(1) flags_up_step[OF dt_dynamic(4)]
      by (auto simp: life_inv_def all_pcs_def flags_up_def split: main_pc.splits)
  qed (use that(1) in \<open>auto simp: life_inv_def all_pcs_def split: main_pc.splits\<close>)
qed

lemma life_inv_step: "life_inv s \<Longrightarrow> life_step c s t \<Longrightarrow> life_inv t"
  unfolding life_step_def
  using life_inv_main life_inv_threads life_inv_textbox life_inv_outside by blast

subsection \<open>After a stop\<close>

definition stopping :: "engine_life \<Rightarrow> bool" where
  "stopping s \<longleftrightarrow> en_stopped (el_engine s) \<and> en_once (el_engine s) \<and> en_server (el_engine s) \<and>
     bc_stopped (en_node (el_engine s)) \<and> bd_stopped (en_node (el_engine s)) \<and>
     (\<forall>k. el_main s \<noteq> E_Building k)"

definition flags_down :: "node \<Rightarrow> node \<Rightarrow> bool" where
  "flags_down n n' \<longleftrightarrow> (bc_stopped n \<longrightarrow> bc_stopped n') \<and> (bd_stopped n \<longrightarrow> bd_stopped n')"

lemma flags_down_refl [simp]: "flags_down n n"
  by (simp add: flags_down_def)

lemma flags_down_stores:
  "on_contacts x n = Some (r, n') \<Longrightarrow> flags_down n n'" "on_chat y n = Some (r, n') \<Longrightarrow> flags_down n n'"
  by (auto simp: on_contacts_def on_chat_def flags_down_def)

lemma flags_down_trans: "flags_down n n1 \<Longrightarrow> flags_down n1 n2 \<Longrightarrow> flags_down n n2"
  by (simp add: flags_down_def)

lemma bc_fail_flags: "bc_fail n1 = Some (r, n') \<Longrightarrow> flags_down n n1 \<Longrightarrow> flags_down n n'"
  by (auto simp: bc_fail_def bc_stop_def flags_down_def)

lemma bc_handleSend_flags:
  assumes "bc_handleSend now fresh m n = Some (r, n')"
  shows "flags_down n n'"
proof (cases "contacts_current (nd_contacts n)")
  case None
  with assms show ?thesis
    by (simp add: bc_handleSend_def bc_fail_flags)
next
  case (Some i)
  show ?thesis
  proof (cases "chat_current (nd_chat n) = Some i")
    case False
    with assms Some show ?thesis
      by (auto simp: bc_handleSend_def bc_fail_flags split: option.splits if_splits)
  next
    case True
    with assms Some obtain sent n1 where a: "on_contacts (ContactsSend i) n = Some (sent, n1)"
      and rest: "if \<not> sent then bc_fail n1 = Some (r, n') else
        (\<exists>stored n2. on_chat (ChatSend i m now) n1 = Some (stored, n2) \<and>
          (bc_fail n2 = Some (r, n') \<or> n' = n2 \<or> n' = n2\<lparr>mNeighbors := push_pending i fresh m (mNeighbors n2)\<rparr>))"
      by (auto simp: bc_handleSend_def bind_eq_Some_conv split: if_splits option.splits)
    have n1: "flags_down n n1"
      by (rule flags_down_stores(1)[OF a])
    have more: "flags_down n n'"
      if "on_chat (ChatSend i m now) n1 = Some (stored, n2)"
        and "bc_fail n2 = Some (r, n') \<or> n' = n2 \<or> n' = n2\<lparr>mNeighbors := push_pending i fresh m (mNeighbors n2)\<rparr>"
      for stored n2
    proof -
      have "flags_down n n2"
        using flags_down_trans[OF n1 flags_down_stores(2)[OF that(1)]] .
      with that(2) show ?thesis
        using bc_fail_flags by (auto simp: flags_down_def)
    qed
    show ?thesis
      using rest n1 bc_fail_flags more by (cases sent) auto
  qed
qed

lemma flags_down_engine_stop: "flags_down (en_node e) (en_node (engine_stop e))"
  by (simp add: flags_down_def engine_stop_def engine_onStop_def bd_stop_def bc_stop_def Let_def)

lemma flags_down_life_stop: "flags_down (en_node (el_engine s)) (en_node (el_engine (life_stop s)))"
  using flags_down_engine_stop[of "el_engine s"]
  by (simp add: life_stop_def early_stop_def flags_down_def Let_def)

lemma life_callback_flags:
  assumes "life_callback now fresh k s = Some t"
  shows "flags_down (en_node (el_engine s)) (en_node (el_engine t))"
proof (cases k)
  case (MessageSent m)
  show ?thesis
  proof (cases "el_parts s")
    case True
    then obtain r n where "bc_handleSend now fresh m (en_node (el_engine s)) = Some (r, n)"
      "el_engine t = (if r then (el_engine s)\<lparr>en_node := n\<rparr> else engine_stop ((el_engine s)\<lparr>en_node := n\<rparr>))"
      using assms MessageSent
      by (auto simp: life_mailbox_def engine_mailbox_def bind_eq_Some_conv Let_def split: option.splits if_splits)
    then show ?thesis
      using bc_handleSend_flags flags_down_trans flags_down_engine_stop[of "(el_engine s)\<lparr>en_node := n\<rparr>"]
      by fastforce
  qed (use assms MessageSent in \<open>auto simp: life_mailbox_def\<close>)
next
  case (ContactsSelected i)
  show ?thesis
  proof (cases "unat i < contacts_size (nd_contacts (en_node (el_engine s)))")
    case True
    then obtain r1 n1 r2 n2 where
      a: "on_contacts (ContactsSelect (unat i)) (en_node (el_engine s)) = Some (r1, n1)"
      and b: "on_chat (ChatSelect now (unat i)) n1 = Some (r2, n2)"
      and t: "t = (if r1 \<and> r2 then put_node n2 s else life_stop (put_node n2 s))"
      using assms ContactsSelected by (auto simp: life_selection_def bind_eq_Some_conv split: if_splits)
    have "flags_down (en_node (el_engine s)) n2"
      using flags_down_trans[OF flags_down_stores(1)[OF a] flags_down_stores(2)[OF b]] .
    then show ?thesis
      using flags_down_life_stop[of "put_node n2 s"] unfolding t flags_down_def by simp
  qed (use assms ContactsSelected in \<open>auto simp: life_selection_def\<close>)
qed

text \<open>The turns of the loops, once their broadcaster is stopped.\<close>

lemma turns_stopped:
  "bc_stopped n \<Longrightarrow> bc_run_turn env n = Some (False, n)"
  "bd_stopped n \<Longrightarrow> bd_static_turn senv n = Some (False, n)"
  "bd_stopped n \<Longrightarrow> bd_dynamic_turn denv n = Some (False, n)"
proof -
  show "bd_stopped n \<Longrightarrow> bd_static_turn senv n = Some (False, n)"
    by (cases "mStaticNeighbors n") (simp_all add: bd_static_turn_def)
qed (simp_all add: bc_run_turn_def bd_dynamic_turn_def)

lemma steps_stopped:
  assumes "stopping s"
  shows "engine_step (el_engine s) (EngineChatTurn env) = Some (False, el_engine s)"
    "engine_step (el_engine s) (EngineStaticTurn senv) = Some (False, el_engine s)"
    "engine_step (el_engine s) (EngineDynamicTurn denv) = Some (False, el_engine s)"
  using assms turns_stopped by (simp_all add: stopping_def on_node_def)

lemma stopping_stop: "stopping s \<Longrightarrow> stopping (life_stop s)"
  using flags_down_life_stop[of s] by (simp add: stopping_def flags_down_def)

lemma watch_stopping: "stopping s \<Longrightarrow> engine_watch (el_engine s) = (False, el_engine s)"
  by (simp add: stopping_def engine_watch_def engine_stop_def Let_def)

subsection \<open>Every thread leaves\<close>

primrec engine_rank :: "engine_pc \<Rightarrow> nat" where
  "engine_rank T_None = 3"
| "engine_rank T_Looping = 3"
| "engine_rank T_Returned = 2"
| "engine_rank T_Stopped = 1"
| "engine_rank T_Exited = 0"

primrec main_rank_of :: "main_pc \<Rightarrow> nat" where
  "main_rank_of (E_Building k) = 4"
| "main_rank_of E_Started = 4"
| "main_rank_of E_Running = 4"
| "main_rank_of E_Left = 3"
| "main_rank_of E_Joining = 2"
| "main_rank_of E_Emptied = 1"
| "main_rank_of E_Gone = 0"

definition discovery_rank :: "engine_life \<Rightarrow> nat" where
  "discovery_rank s = engine_rank (el_discovery s) +
     (if el_discovery s = T_Looping then of_bool (el_static s) + of_bool (el_dynamic s) else 0)"

lemma rank_bounds: "engine_rank p \<le> 3" "main_rank_of q \<le> 4" "discovery_rank s \<le> 5"
  by ((cases p; simp), (cases q; simp), (cases "el_discovery s"; simp add: discovery_rank_def))

text \<open>What the destructor is waiting for.\<close>

definition main_waits :: "engine_life \<Rightarrow> bool" where
  "main_waits s \<longleftrightarrow> el_main s = E_Gone \<or> el_main s = E_Joining \<and> \<not> all_pcs (\<lambda>p. p = T_Exited) s \<or>
     el_main s = E_Emptied \<and> el_textbox s \<noteq> X_Exited"

text \<open>The counters of the threads that do not take the step stay as they are.\<close>

lemma main_stopping:
  assumes "stopping s" "engine_main c s t"
  shows "stopping t" "main_rank_of (el_main t) < main_rank_of (el_main s)"
    "el_server t = el_server s" "el_chat t = el_chat s" "discovery_rank t = discovery_rank s"
proof -
  have "stopping t \<and> main_rank_of (el_main t) < main_rank_of (el_main s) \<and>
    el_server t = el_server s \<and> el_chat t = el_chat s \<and> discovery_rank t = discovery_rank s"
    using assms(2)
  proof cases
    case (em_watch r e)
    then show ?thesis
      using watch_stopping[OF assms(1)] assms(1) by (simp add: stopping_def discovery_rank_def)
  next
    case em_destruct
    then show ?thesis
      using stopping_stop[OF assms(1)] by (simp add: stopping_def discovery_rank_def)
  qed (use assms(1) in \<open>simp_all add: stopping_def discovery_rank_def\<close>)
  then show "stopping t" "main_rank_of (el_main t) < main_rank_of (el_main s)"
    "el_server t = el_server s" "el_chat t = el_chat s" "discovery_rank t = discovery_rank s"
    by simp_all
qed

lemma server_stopping:
  assumes "stopping s" "server_thread s t"
  shows "stopping t" "el_main t = el_main s" "engine_rank (el_server t) < engine_rank (el_server s)"
    "el_chat t = el_chat s" "discovery_rank t = discovery_rank s"
proof -
  have "stopping t \<and> el_main t = el_main s \<and> engine_rank (el_server t) < engine_rank (el_server s) \<and>
    el_chat t = el_chat s \<and> discovery_rank t = discovery_rank s"
    using assms(2)
  proof cases
    case sv_stop
    then show ?thesis
      using stopping_stop[OF assms(1)] by (simp add: stopping_def discovery_rank_def)
  qed (use assms(1) in \<open>simp_all add: stopping_def discovery_rank_def\<close>)
  then show "stopping t" "el_main t = el_main s" "engine_rank (el_server t) < engine_rank (el_server s)"
    "el_chat t = el_chat s" "discovery_rank t = discovery_rank s"
    by simp_all
qed

lemma chat_stopping:
  assumes "stopping s" "chat_thread s t"
  shows "stopping t" "el_main t = el_main s" "engine_rank (el_chat t) < engine_rank (el_chat s)"
    "el_server t = el_server s" "discovery_rank t = discovery_rank s"
proof -
  have "stopping t \<and> el_main t = el_main s \<and> engine_rank (el_chat t) < engine_rank (el_chat s) \<and>
    el_server t = el_server s \<and> discovery_rank t = discovery_rank s"
    using assms(2)
  proof cases
    case (ct_turn env going e)
    then show ?thesis
      using steps_stopped(1)[OF assms(1), of env] assms(1) by (simp add: stopping_def discovery_rank_def)
  next
    case ct_stop
    then show ?thesis
      using stopping_stop[OF assms(1)] by (simp add: stopping_def discovery_rank_def)
  qed (use assms(1) in \<open>simp_all add: stopping_def discovery_rank_def\<close>)
  then show "stopping t" "el_main t = el_main s" "engine_rank (el_chat t) < engine_rank (el_chat s)"
    "el_server t = el_server s" "discovery_rank t = discovery_rank s"
    by simp_all
qed

lemma discovery_stopping:
  assumes "stopping s" "discovery_thread s t"
  shows "stopping t" "el_main t = el_main s" "discovery_rank t < discovery_rank s"
    "el_server t = el_server s" "el_chat t = el_chat s"
proof -
  have "stopping t \<and> el_main t = el_main s \<and> discovery_rank t < discovery_rank s \<and>
    el_server t = el_server s \<and> el_chat t = el_chat s"
    using assms(2)
  proof cases
    case (dt_static env going e)
    then show ?thesis
      using steps_stopped(2)[OF assms(1), of env] assms(1) by (simp add: stopping_def discovery_rank_def)
  next
    case (dt_dynamic env going e)
    then show ?thesis
      using steps_stopped(3)[OF assms(1), of env] assms(1) by (simp add: stopping_def discovery_rank_def)
  next
    case dt_stop
    then show ?thesis
      using stopping_stop[OF assms(1)] by (simp add: stopping_def discovery_rank_def)
  qed (use assms(1) in \<open>simp_all add: stopping_def discovery_rank_def\<close>)
  then show "stopping t" "el_main t = el_main s" "discovery_rank t < discovery_rank s"
    "el_server t = el_server s" "el_chat t = el_chat s"
    by simp_all
qed

text \<open>Callbacks, requests and whoever is outside.\<close>

definition engine_visitors :: "engine_life \<Rightarrow> engine_life \<Rightarrow> bool" where
  "engine_visitors s t \<longleftrightarrow> textbox_thread s t \<or> engine_outside s t"

lemma visitors_stopping:
  assumes "stopping s" "engine_visitors s t"
  shows "stopping t" "el_main t = el_main s" "el_server t = el_server s" "el_chat t = el_chat s"
    "discovery_rank t = discovery_rank s"
proof -
  have "stopping t \<and> same_pcs s t" if "textbox_thread s t"
    using that
  proof cases
    case (xt_call k now fresh t1)
    note frame = life_callback_frame[OF xt_call(3)] life_callback_flags[OF xt_call(3)]
    with assms(1) show ?thesis
      unfolding xt_call(1) by (simp add: stopping_def same_pcs_def flags_up_def flags_down_def)
  qed (use assms(1) in \<open>simp_all add: stopping_def same_pcs_def textbox_leave_def\<close>)
  moreover have "stopping t \<and> same_pcs s t" if "engine_outside s t"
    using that
  proof cases
    case eo_signal
    then show ?thesis
      using stopping_stop[OF assms(1)] assms(1) by (simp add: same_pcs_def signalInterruptHandler_def)
  qed (use assms(1) in \<open>simp_all add: stopping_def same_pcs_def\<close>)
  ultimately have "stopping t" "same_pcs s t"
    using assms(2) unfolding engine_visitors_def by blast+
  then show "stopping t" "el_main t = el_main s" "el_server t = el_server s" "el_chat t = el_chat s"
    "discovery_rank t = discovery_rank s"
    by (simp_all add: same_pcs_def discovery_rank_def)
qed

definition main_others :: "engine_life \<Rightarrow> engine_life \<Rightarrow> bool" where
  "main_others s t \<longleftrightarrow> server_thread s t \<or> chat_thread s t \<or> discovery_thread s t \<or> engine_visitors s t"

definition server_others :: "engine_start \<Rightarrow> engine_life \<Rightarrow> engine_life \<Rightarrow> bool" where
  "server_others c s t \<longleftrightarrow> engine_main c s t \<or> chat_thread s t \<or> discovery_thread s t \<or> engine_visitors s t"

definition chat_others :: "engine_start \<Rightarrow> engine_life \<Rightarrow> engine_life \<Rightarrow> bool" where
  "chat_others c s t \<longleftrightarrow> engine_main c s t \<or> server_thread s t \<or> discovery_thread s t \<or> engine_visitors s t"

definition discovery_others :: "engine_start \<Rightarrow> engine_life \<Rightarrow> engine_life \<Rightarrow> bool" where
  "discovery_others c s t \<longleftrightarrow> engine_main c s t \<or> server_thread s t \<or> chat_thread s t \<or> engine_visitors s t"

lemmas others_defs = main_others_def server_others_def chat_others_def discovery_others_def

lemma life_inv_visitors: "life_inv s \<Longrightarrow> engine_visitors s t \<Longrightarrow> life_inv t"
  unfolding engine_visitors_def using life_inv_textbox life_inv_outside by blast

interpretation life_main: stoppable "engine_main c" main_others "init_life c" life_inv
  stopping main_waits "\<lambda>s. main_rank_of (el_main s)" 4
proof
  fix s t
  show "life_inv s \<Longrightarrow> engine_main c s t \<Longrightarrow> life_inv t"
    by (rule life_inv_main)
  show "life_inv s \<Longrightarrow> main_others s t \<Longrightarrow> life_inv t"
    unfolding main_others_def using life_inv_threads life_inv_visitors by blast
  show "engine_main c s t \<Longrightarrow> stopping s \<Longrightarrow>
      stopping t \<and> main_rank_of (el_main t) < main_rank_of (el_main s)"
    using main_stopping by blast
  show "stopping t \<and> main_rank_of (el_main t) = main_rank_of (el_main s)"
    if "main_others s t" "stopping s"
    using that server_stopping chat_stopping discovery_stopping visitors_stopping
    unfolding main_others_def by metis
  show "\<exists>t. engine_main c s t" if "life_inv s" "stopping s" "\<not> main_waits s"
  proof (cases "el_main s")
    case E_Running
    then show ?thesis
      using em_watch[of s False "el_engine s" c] watch_stopping[OF that(2)] by blast
  qed (use that em_run[of s c] em_destruct[of s c] em_join[of s c] em_textbox[of s c] in
      \<open>auto simp: stopping_def main_waits_def all_pcs_def\<close>)
qed (simp_all add: life_inv_init rank_bounds)

lemma not_none: "life_inv s \<Longrightarrow> stopping s \<Longrightarrow> all_pcs (\<lambda>p. p \<noteq> T_None) s"
  by (auto simp: life_inv_def stopping_def all_pcs_def split: main_pc.splits)

interpretation life_server: stoppable server_thread "server_others c" "init_life c" life_inv
  stopping "\<lambda>s. el_server s = T_Exited" "\<lambda>s. engine_rank (el_server s)" 3
proof
  fix s t
  show "life_inv s \<Longrightarrow> server_thread s t \<Longrightarrow> life_inv t"
    by (rule life_inv_threads)
  show "life_inv s \<Longrightarrow> server_others c s t \<Longrightarrow> life_inv t"
    unfolding server_others_def using life_inv_main life_inv_threads life_inv_visitors by blast
  show "server_thread s t \<Longrightarrow> stopping s \<Longrightarrow>
      stopping t \<and> engine_rank (el_server t) < engine_rank (el_server s)"
    using server_stopping by blast
  show "stopping t \<and> engine_rank (el_server t) = engine_rank (el_server s)"
    if "server_others c s t" "stopping s"
    using that main_stopping chat_stopping discovery_stopping visitors_stopping
    unfolding server_others_def by metis
  show "\<exists>t. server_thread s t" if "life_inv s" "stopping s" "el_server s \<noteq> T_Exited"
    using that(3) not_none[OF that(1,2)] that(2) sv_return[of s] sv_stop[of s] sv_promise[of s]
    by (cases "el_server s") (auto simp: all_pcs_def stopping_def)
qed (simp_all add: life_inv_init rank_bounds)

interpretation life_chat: stoppable chat_thread "chat_others c" "init_life c" life_inv
  stopping "\<lambda>s. el_chat s = T_Exited" "\<lambda>s. engine_rank (el_chat s)" 3
proof
  fix s t
  show "life_inv s \<Longrightarrow> chat_thread s t \<Longrightarrow> life_inv t"
    by (rule life_inv_threads)
  show "life_inv s \<Longrightarrow> chat_others c s t \<Longrightarrow> life_inv t"
    unfolding chat_others_def using life_inv_main life_inv_threads life_inv_visitors by blast
  show "chat_thread s t \<Longrightarrow> stopping s \<Longrightarrow>
      stopping t \<and> engine_rank (el_chat t) < engine_rank (el_chat s)"
    using chat_stopping by blast
  show "stopping t \<and> engine_rank (el_chat t) = engine_rank (el_chat s)"
    if "chat_others c s t" "stopping s"
    using that main_stopping server_stopping discovery_stopping visitors_stopping
    unfolding chat_others_def by metis
  show "\<exists>t. chat_thread s t" if "life_inv s" "stopping s" "el_chat s \<noteq> T_Exited"
    using that(3) not_none[OF that(1,2)] ct_turn[of s _ False, OF _ steps_stopped(1)[OF that(2)]]
      ct_stop[of s] ct_promise[of s]
    by (cases "el_chat s") (auto simp: all_pcs_def)
qed (simp_all add: life_inv_init rank_bounds)

interpretation life_discovery: stoppable discovery_thread "discovery_others c" "init_life c" life_inv
  stopping "\<lambda>s. el_discovery s = T_Exited" discovery_rank 5
proof
  fix s t
  show "life_inv s \<Longrightarrow> discovery_thread s t \<Longrightarrow> life_inv t"
    by (rule life_inv_threads)
  show "life_inv s \<Longrightarrow> discovery_others c s t \<Longrightarrow> life_inv t"
    unfolding discovery_others_def using life_inv_main life_inv_threads life_inv_visitors by blast
  show "discovery_thread s t \<Longrightarrow> stopping s \<Longrightarrow> stopping t \<and> discovery_rank t < discovery_rank s"
    using discovery_stopping by blast
  show "stopping t \<and> discovery_rank t = discovery_rank s"
    if "discovery_others c s t" "stopping s"
    using that main_stopping server_stopping chat_stopping visitors_stopping
    unfolding discovery_others_def by metis
  show "\<exists>t. discovery_thread s t" if "life_inv s" "stopping s" "el_discovery s \<noteq> T_Exited"
  proof (cases "el_discovery s")
    case T_Looping
    then show ?thesis
      using dt_static[of s _ False, OF _ _ steps_stopped(2)[OF that(2)]]
        dt_dynamic[of s _ False, OF _ _ steps_stopped(3)[OF that(2)]] dt_return[of s] by blast
  qed (use that(3) not_none[OF that(1,2)] dt_stop[of s] dt_promise[of s] in \<open>auto simp: all_pcs_def\<close>)
qed (simp_all add: life_inv_init rank_bounds)

subsection \<open>Reachable states\<close>

abbreviation life_reachable :: "engine_start \<Rightarrow> engine_life \<Rightarrow> bool" where
  "life_reachable c \<equiv> (life_step c)\<^sup>*\<^sup>* (init_life c)"

lemma life_reachable_inv: "life_reachable c s \<Longrightarrow> life_inv s"
  by (induction rule: rtranclp_induct) (auto intro: life_inv_init life_inv_step)

lemma life_steps:
  "engine_main c s t \<Longrightarrow> life_step c s t" "server_thread s t \<Longrightarrow> life_step c s t"
  "chat_thread s t \<Longrightarrow> life_step c s t" "discovery_thread s t \<Longrightarrow> life_step c s t"
  "textbox_thread s t \<Longrightarrow> life_step c s t" "engine_outside s t \<Longrightarrow> life_step c s t"
  by (simp_all add: life_step_def)

lemma life_then: "life_reachable c s \<Longrightarrow> (life_step c)\<^sup>*\<^sup>* s t \<Longrightarrow> life_reachable c t"
  by (rule rtranclp_trans)

lemma main_steps_life: "(engine_main c)\<^sup>*\<^sup>* s t \<Longrightarrow> (life_step c)\<^sup>*\<^sup>* s t"
  by (induction rule: rtranclp_induct) (auto intro: life_steps rtranclp.rtrancl_into_rtrancl)

text \<open>The engine after its constructor, with the text box's thread somewhere in its loop.\<close>

definition started_life :: "engine_start \<Rightarrow> engine \<Rightarrow> caller_pc \<Rightarrow> engine_life" where
  "started_life c e p = (init_life c)
     \<lparr>el_engine := e, el_parts := True, el_main := E_Started, el_server := T_Looping,
      el_chat := T_Looping, el_discovery := T_Looping, el_static := True, el_dynamic := True,
      el_textbox := p\<rparr>"

definition start_engine :: "engine_start \<Rightarrow> engine option" where
  "start_engine c = new_engine (sc_nick c) (sc_identity c) (sc_ip c) (sc_port c) (sc_neighbors c) (sc_now c)"

lemma constructor_steps:
  assumes "start_engine c = Some e"
  shows "(engine_main c)\<^sup>*\<^sup>* ((init_life c)\<lparr>el_textbox := p\<rparr>) (started_life c e p)"
proof -
  obtain r1 c1 r2 c2 r3 h1 r4 h2 where
    a: "contacts_create (sc_nick c) (sc_identity c) (start_address c) init_contacts_handler = Some (r1, c1)"
      "contacts_select 0 c1 = Some (r2, c2)" "chat_create 0 init_chat_handler = Some (r3, h1)"
      "chat_select (sc_now c) 0 h1 = Some (r4, h2)"
    and e: "e = \<lparr>en_node = \<lparr>nd_contacts = c2, nd_chat = h2, nd_address = start_address c,
             bc_stopped = False, mNeighbors = [], bd_stopped = False,
             mStaticNeighbors = map (\<lambda>(a, threshold, steady).
               fresh_static threshold steady (a @ '':'' @ sc_port c)) (sc_neighbors c),
             mDynamicNeighbors = [], nd_calls = [], nd_greets = []\<rparr>,
           en_stopped = False, en_once = False, en_server = False, en_textbox = False\<rparr>"
    using assms by (auto simp: start_engine_def new_engine_def start_address_def bind_eq_Some_conv Let_def)
  let ?m = "\<lambda>k x h. (init_life c)\<lparr>el_textbox := p, el_main := E_Building k,
      el_engine := \<lparr>en_node = \<lparr>nd_contacts = x, nd_chat = h, nd_address = start_address c,
          bc_stopped = False, mNeighbors = [], bd_stopped = False, mStaticNeighbors = [],
          mDynamicNeighbors = [], nd_calls = [], nd_greets = []\<rparr>,
        en_stopped = False, en_once = False, en_server = False, en_textbox = False\<rparr>\<rparr>"
  have "engine_main c (?m 0 init_contacts_handler init_chat_handler) (?m 1 c1 init_chat_handler)"
    using em_first[of "?m 0 init_contacts_handler init_chat_handler" 0 c r1] a
    by (simp add: init_life_def first_calls_def on_contacts_def put_node_def)
  moreover have "engine_main c (?m 1 c1 init_chat_handler) (?m 2 c2 init_chat_handler)"
    using em_first[of "?m 1 c1 init_chat_handler" 1 c r2] a
    by (simp add: init_life_def first_calls_def on_contacts_def put_node_def numeral_2_eq_2)
  moreover have "engine_main c (?m 2 c2 init_chat_handler) (?m 3 c2 h1)"
    using em_first[of "?m 2 c2 init_chat_handler" 2 c r3] a
    by (simp add: init_life_def first_calls_def on_chat_def put_node_def numeral_3_eq_3 numeral_2_eq_2)
  moreover have "engine_main c (?m 3 c2 h1) (?m 4 c2 h2)"
    using em_first[of "?m 3 c2 h1" 3 c r4] a
    by (simp add: init_life_def first_calls_def on_chat_def put_node_def eval_nat_numeral)
  moreover have "engine_main c (?m 4 c2 h2) (started_life c e p)"
    using em_assemble[of "?m 4 c2 h2" c]
    by (simp add: assemble_def started_life_def put_node_def e init_life_def)
  moreover have "?m 0 init_contacts_handler init_chat_handler = (init_life c)\<lparr>el_textbox := p\<rparr>"
    by (simp add: init_life_def)
  ultimately show ?thesis
    by (metis (no_types, lifting) converse_rtranclp_into_rtranclp rtranclp.rtrancl_refl)
qed

subsection \<open>From the start to the end\<close>

lemma life_stop_again: "stopping s \<Longrightarrow> el_parts s \<Longrightarrow> life_stop s = s"
  by (simp add: stopping_def life_stop_def engine_stop_def Let_def)

lemma stopping_pcs [simp]:
  "stopping (s\<lparr>el_server := p\<rparr>) = stopping s" "stopping (s\<lparr>el_chat := p\<rparr>) = stopping s"
  "stopping (s\<lparr>el_discovery := p\<rparr>) = stopping s" "stopping (s\<lparr>el_static := b\<rparr>) = stopping s"
  "stopping (s\<lparr>el_dynamic := b\<rparr>) = stopping s"
  by (simp_all add: stopping_def)

lemma three_steps:
  assumes "life_step c s s1" "life_step c s1 s2" "life_step c s2 t"
  shows "(life_step c)\<^sup>*\<^sup>* s t"
  using assms by (meson converse_rtranclp_into_rtranclp rtranclp.rtrancl_refl)

lemma server_ends:
  assumes "stopping s" "el_parts s" "el_server s = T_Looping"
  shows "(life_step c)\<^sup>*\<^sup>* s (s\<lparr>el_server := T_Exited\<rparr>)"
proof (rule three_steps)
  show "life_step c s (s\<lparr>el_server := T_Returned\<rparr>)"
    using assms sv_return[of s] life_steps(2) by (auto simp: stopping_def)
  show "life_step c (s\<lparr>el_server := T_Returned\<rparr>) (s\<lparr>el_server := T_Stopped\<rparr>)"
    using sv_stop[of "s\<lparr>el_server := T_Returned\<rparr>"] assms life_steps(2) by (simp add: life_stop_again)
  show "life_step c (s\<lparr>el_server := T_Stopped\<rparr>) (s\<lparr>el_server := T_Exited\<rparr>)"
    using sv_promise[of "s\<lparr>el_server := T_Stopped\<rparr>"] life_steps(2) by simp
qed

lemma chat_ends:
  assumes "stopping s" "el_parts s" "el_chat s = T_Looping"
  shows "(life_step c)\<^sup>*\<^sup>* s (s\<lparr>el_chat := T_Exited\<rparr>)"
proof (rule three_steps)
  show "life_step c s (s\<lparr>el_chat := T_Returned\<rparr>)"
    using ct_turn[OF assms(3) steps_stopped(1)[OF assms(1)]] life_steps(3) by simp
  show "life_step c (s\<lparr>el_chat := T_Returned\<rparr>) (s\<lparr>el_chat := T_Stopped\<rparr>)"
    using ct_stop[of "s\<lparr>el_chat := T_Returned\<rparr>"] assms life_steps(3) by (simp add: life_stop_again)
  show "life_step c (s\<lparr>el_chat := T_Stopped\<rparr>) (s\<lparr>el_chat := T_Exited\<rparr>)"
    using ct_promise[of "s\<lparr>el_chat := T_Stopped\<rparr>"] life_steps(3) by simp
qed

lemma discovery_ends:
  assumes "stopping s" "el_parts s" "el_discovery s = T_Looping" "el_static s" "el_dynamic s"
  shows "(life_step c)\<^sup>*\<^sup>* s (s\<lparr>el_static := False, el_dynamic := False, el_discovery := T_Exited\<rparr>)"
proof -
  let ?s1 = "s\<lparr>el_static := False\<rparr>"
  let ?s2 = "s\<lparr>el_static := False, el_dynamic := False\<rparr>"
  have "life_step c s ?s1"
    using dt_static[OF assms(3,4) steps_stopped(2)[OF assms(1)]] life_steps(4) by simp
  moreover have "life_step c ?s1 ?s2"
    using dt_dynamic[of ?s1 _ False, OF _ _ steps_stopped(3)] assms life_steps(4) by simp
  moreover have "(life_step c)\<^sup>*\<^sup>* ?s2 (?s2\<lparr>el_discovery := T_Exited\<rparr>)"
  proof (rule three_steps)
    show "life_step c ?s2 (?s2\<lparr>el_discovery := T_Returned\<rparr>)"
      using dt_return[of ?s2] assms life_steps(4) by simp
    show "life_step c (?s2\<lparr>el_discovery := T_Returned\<rparr>) (?s2\<lparr>el_discovery := T_Stopped\<rparr>)"
      using dt_stop[of "?s2\<lparr>el_discovery := T_Returned\<rparr>"] assms life_steps(4) by (simp add: life_stop_again)
    show "life_step c (?s2\<lparr>el_discovery := T_Stopped\<rparr>) (?s2\<lparr>el_discovery := T_Exited\<rparr>)"
      using dt_promise[of "?s2\<lparr>el_discovery := T_Stopped\<rparr>"] life_steps(4) by simp
  qed
  ultimately show ?thesis
    by (simp add: converse_rtranclp_into_rtranclp)
qed

text \<open>A run from the constructor to the destructor in which the text box's thread takes no step.\<close>

lemma start_engine_ok:
  assumes "length (sc_nick c) < TTCONTACTS_DATA_MAX_LENGTH"
  obtains e where "start_engine c = Some e" "engine_inv e"
  using new_engine_inv[OF assms] unfolding start_engine_def by blast

lemma started_stopping:
  assumes "engine_inv e"
  shows "stopping (life_stop (started_life c e p))"
  using assms by (simp add: stopping_def started_life_def life_stop_def engine_inv_def engine_stop_def
    engine_onStop_def bc_stop_def bd_stop_def Let_def)

lemma destructor_steps:
  assumes "engine_inv e"
  shows "\<exists>t. (life_step c)\<^sup>*\<^sup>* (started_life c e p) t \<and> el_main t = E_Emptied \<and> el_textbox t = p \<and>
    \<not> el_parts t"
proof -
  let ?s = "life_stop (started_life c e p)"
  let ?j = "?s\<lparr>el_main := E_Joining\<rparr>"
  let ?x = "?j\<lparr>el_server := T_Exited, el_chat := T_Exited, el_static := False, el_dynamic := False,
    el_discovery := T_Exited\<rparr>"
  have s: "stopping ?s"
    by (rule started_stopping[OF assms])
  have pcs: "el_parts ?s" "el_main ?s = E_Started" "el_server ?s = T_Looping" "el_chat ?s = T_Looping"
    "el_discovery ?s = T_Looping" "el_static ?s" "el_dynamic ?s" "el_textbox ?s = p"
    by (simp_all add: started_life_def)
  have j: "stopping ?j" "stopping (?s\<lparr>el_main := E_Left\<rparr>)"
    using s by (simp_all add: stopping_def)
  have "life_step c (started_life c e p) ?s"
    using eo_signal[of "started_life c e p"] life_steps(6)
    by (simp add: started_life_def signalInterruptHandler_def)
  moreover have "life_step c ?s (?s\<lparr>el_main := E_Left\<rparr>)"
    using em_run[OF pcs(2), of c] s life_steps(1) by (simp add: stopping_def)
  moreover have "life_step c (?s\<lparr>el_main := E_Left\<rparr>) ?j"
    using em_destruct[of "?s\<lparr>el_main := E_Left\<rparr>" c] life_steps(1) pcs(1)
    by (simp add: life_stop_again[OF j(2)])
  moreover have "(life_step c)\<^sup>*\<^sup>* ?j ?x"
    using server_ends[of ?j c] chat_ends[of "?j\<lparr>el_server := T_Exited\<rparr>" c]
      discovery_ends[of "?j\<lparr>el_server := T_Exited, el_chat := T_Exited\<rparr>" c] j(1) pcs
    by simp
  moreover have "life_step c ?x (?x\<lparr>el_parts := False,
      el_engine := (el_engine ?x)\<lparr>en_textbox := True\<rparr>, el_main := E_Emptied\<rparr>)"
    using em_join[of ?x c] life_steps(1) by simp
  ultimately have "(life_step c)\<^sup>*\<^sup>* (started_life c e p) (?x\<lparr>el_parts := False,
      el_engine := (el_engine ?x)\<lparr>en_textbox := True\<rparr>, el_main := E_Emptied\<rparr>)"
    by (meson converse_rtranclp_into_rtranclp rtranclp.rtrancl_into_rtrancl)
  with pcs(8) show ?thesis
    by (intro exI[of _ "?x\<lparr>el_parts := False,
      el_engine := (el_engine ?x)\<lparr>en_textbox := True\<rparr>, el_main := E_Emptied\<rparr>"]) simp
qed

text \<open>The text box's thread begins to read before anything else happens.\<close>

lemma textbox_reads_first:
  "life_reachable c ((init_life c)\<lparr>el_textbox := X_Reading 2\<rparr>)"
  using xt_go[of "init_life c" 2] life_steps(5)[of "init_life c"]
  by (simp add: init_life_def RECEIVE_TRY_COUNT_def numeral_3_eq_3 numeral_2_eq_2 r_into_rtranclp)

lemma started_reachable:
  "start_engine c = Some e \<Longrightarrow> life_reachable c (started_life c e (X_Reading 2))"
  using life_then[OF textbox_reads_first main_steps_life[OF constructor_steps]] by blast


subsection \<open>A stop that comes too early\<close>

text \<open>The engine was stopped when it had no server: nobody will ever shut the server down.\<close>

definition doomed :: "engine_life \<Rightarrow> bool" where
  "doomed s \<longleftrightarrow> en_once (el_engine s) \<and> \<not> en_server (el_engine s) \<and>
     (el_server s = T_None \<or> el_server s = T_Looping) \<and> el_main s \<noteq> E_Emptied \<and> el_main s \<noteq> E_Gone"

lemma doomed_frame:
  "doomed s \<Longrightarrow> flags_up (el_engine s) (el_engine t) \<Longrightarrow> el_server t = el_server s \<Longrightarrow>
   el_main t = el_main s \<Longrightarrow> doomed t"
  by (simp add: doomed_def flags_up_def)

lemma doomed_threads:
  assumes "doomed s"
  shows "\<not> server_thread s t" "chat_thread s t \<Longrightarrow> doomed t" "discovery_thread s t \<Longrightarrow> doomed t"
proof -
  show "\<not> server_thread s t"
    using assms by (auto simp: doomed_def elim: server_thread_cases)
  show "doomed t" if "chat_thread s t"
    using that by cases
      (rule doomed_frame[OF assms]; auto intro: life_stop_flags dest: flags_up_step simp del: engine_step.simps)+
  show "doomed t" if "discovery_thread s t"
    using that by cases
      (rule doomed_frame[OF assms]; auto intro: life_stop_flags dest: flags_up_step simp del: engine_step.simps)+
qed

lemma doomed_main: "doomed s \<Longrightarrow> engine_main c s t \<Longrightarrow> doomed t"
proof (erule engine_main_cases)
  fix r e assume "doomed s" "engine_watch (el_engine s) = (r, e)"
    "t = s\<lparr>el_engine := e, el_main := if r then E_Running else E_Left\<rparr>"
  then show "doomed t"
    using engine_watch_flags[of "el_engine s" r e] by (simp add: doomed_def flags_up_def)
qed (auto simp: doomed_def assemble_def)

lemma doomed_visitors:
  assumes "doomed s"
  shows "textbox_thread s t \<Longrightarrow> doomed t" "engine_outside s t \<Longrightarrow> doomed t"
proof -
  show "doomed t" if "textbox_thread s t"
    using that
  proof cases
    case (xt_call k now fresh t1)
    then show ?thesis
      using life_callback_frame[OF xt_call(3)] by (intro doomed_frame[OF assms]) (simp_all add: same_pcs_def)
  qed (rule doomed_frame[OF assms]; simp add: textbox_leave_def)+
  show "doomed t" if "engine_outside s t"
    using that by cases
      (rule doomed_frame[OF assms]; auto simp: signalInterruptHandler_def intro: life_stop_flags
        dest: flags_up_step simp del: engine_step.simps)+
qed

lemma doomed_step: "doomed s \<Longrightarrow> life_step c s t \<Longrightarrow> doomed t"
  unfolding life_step_def using doomed_main doomed_threads doomed_visitors by blast

lemma doomed_steps: "(life_step c)\<^sup>*\<^sup>* s t \<Longrightarrow> doomed s \<Longrightarrow> doomed t"
  by (induction rule: rtranclp_induct) (auto intro: doomed_step)

text \<open>
  It happens when the first contact is selected by the user before its conversation exists.
\<close>

lemma early_selection:
  assumes "length (sc_nick c) < TTCONTACTS_DATA_MAX_LENGTH"
  shows "\<exists>s. life_reachable c s \<and> el_main s = E_Building 1 \<and> en_stopped (el_engine s)"
proof -
  let ?i = "(init_life c)\<lparr>el_textbox := X_Reading 2\<rparr>"
  let ?n = "en_node (el_engine ?i)"
  have size: "contacts_size init_contacts_handler = 0"
    by (simp add: contacts_size_def init_contacts_handler_def)
  obtain c1 h1 where c1: "contacts_step init_contacts_handler
        (ContactsCreate (sc_nick c) (sc_identity c) (start_address c)) = Some (True, c1)"
    and h1: "chat_step init_chat_handler (ChatCreate 0) = Some (True, h1)"
    and s1: "pair.sync c1 h1" "contacts_size c1 = Suc 0"
    using pair.create_both[OF sync_init, of "sc_nick c" "sc_identity c" "start_address c"] assms size by auto
  obtain c2 where c2: "contacts_step c1 (ContactsSelect 0) = Some (True, c2)"
    using pair.select_both[OF s1(1), of 0 "0 :: timestamp"] s1(2) by auto
  have h: "chat_step init_chat_handler (ChatSelect 0 0) = Some (False, init_chat_handler)"
    by (simp add: chat_select_def init_chat_handler_def)
  let ?a = "(put_node (?n\<lparr>nd_contacts := c1\<rparr>) ?i)\<lparr>el_main := E_Building 1\<rparr>"
  let ?b = "?a\<lparr>el_textbox := X_Calling (ContactsSelected 0)\<rparr>"
  let ?d = "life_stop (put_node (?n\<lparr>nd_contacts := c2\<rparr>) ?b)"
  have "engine_main c ?i ?a"
    using em_first[of ?i 0 c True "?n\<lparr>nd_contacts := c1\<rparr>"] c1
    by (simp add: init_life_def first_calls_def on_contacts_def)
  moreover have "textbox_thread ?a ?b"
    using xt_message[of ?a 2 "select_message 0" "ContactsSelected 0"] dispatch_select[of 0] by simp
  moreover have "life_callback 0 fresh (ContactsSelected 0) ?b = Some ?d" for fresh
    using c2 h s1(2)
    by (simp add: life_selection_def init_life_def on_contacts_def on_chat_def put_node_def)
  then have "textbox_thread ?b (?d\<lparr>el_textbox := X_Head RECEIVE_TRY_COUNT\<rparr>)"
    using xt_call[of ?b "ContactsSelected 0"] by simp
  ultimately have "(life_step c)\<^sup>*\<^sup>* ?i (?d\<lparr>el_textbox := X_Head RECEIVE_TRY_COUNT\<rparr>)"
    by (meson three_steps life_steps)
  from life_then[OF textbox_reads_first this] show ?thesis
    by (intro exI[of _ "?d\<lparr>el_textbox := X_Head RECEIVE_TRY_COUNT\<rparr>"]) simp
qed

subsection \<open>Properties\<close>

text \<open>
  C19: nothing an engine's thread uses is destroyed before the thread has left: the broadcasters and the
  server exist as long as one of the three threads runs, and the engine is gone only when the text
  box's thread has left, too; and as long as the broadcasters exist no callback can fail to find them.
\<close>

theorem engine_outlives_threads:
  assumes "(life_step c)\<^sup>*\<^sup>* (init_life c) s"
  shows "(\<not> el_parts s \<longrightarrow> all_pcs (\<lambda>p. p = T_None \<or> p = T_Exited) s) \<and>
    (el_main s = E_Gone \<longrightarrow> el_textbox s = X_Exited \<and> all_pcs (\<lambda>p. p = T_Exited) s) \<and>
    (\<forall>t. el_parts s \<and> life_step c s t \<and> el_fault t \<longrightarrow> el_fault s)"
proof -
  have inv: "life_inv s"
    by (rule life_reachable_inv[OF assms])
  have call: "el_fault t = el_fault s" if "life_callback now fresh k s = Some t" "el_parts s" for now fresh k t
    using that by (cases k) (auto simp: life_mailbox_def life_selection_def bind_eq_Some_conv
      split: option.splits if_splits)
  have "el_fault s" if "el_parts s" "life_step c s t" "el_fault t" for t
    using that unfolding life_step_def
    by (auto simp: assemble_def textbox_leave_def call elim!: engine_main_cases server_thread_cases
        chat_thread_cases discovery_thread_cases textbox_thread_cases engine_outside_cases)
  moreover have "\<not> el_parts s \<longrightarrow> all_pcs (\<lambda>p. p = T_None \<or> p = T_Exited) s"
    "el_main s = E_Gone \<longrightarrow> el_textbox s = X_Exited \<and> all_pcs (\<lambda>p. p = T_Exited) s"
    using inv by (auto simp: life_inv_def all_pcs_def split: main_pc.splits)
  ultimately show ?thesis
    by blast
qed

definition sample_start :: engine_start where
  "sample_start = \<lparr>sc_nick = ''ann'', sc_identity = ''id-ann'', sc_ip = ''10.0.0.1'', sc_port = ''80'',
     sc_neighbors = [(''10.0.0.2'', 5000, 0)], sc_now = 0\<rparr>"

lemma sample_start_ok: "length (sc_nick sample_start) < TTCONTACTS_DATA_MAX_LENGTH"
  by (simp add: sample_start_def TTCONTACTS_DATA_MAX_LENGTH_def)

theorem engine_outlives_threads_witness:
  "\<exists>s. life_reachable sample_start s \<and> el_main s = E_Emptied \<and>
    all_pcs (\<lambda>p. p = T_None \<or> p = T_Exited) s"
proof -
  obtain e where e: "start_engine sample_start = Some e" "engine_inv e"
    using start_engine_ok[OF sample_start_ok] .
  obtain t where t: "(life_step sample_start)\<^sup>*\<^sup>* (started_life sample_start e (X_Reading 2)) t"
    "el_main t = E_Emptied" "\<not> el_parts t"
    using destructor_steps[OF e(2)] by blast
  from life_then[OF started_reachable[OF e(1)] t(1)] engine_outlives_threads[of sample_start t] t(2,3)
  show ?thesis
    by blast
qed

text \<open>
  C18: once the constructed engine is stopped, by whomever, each of its threads leaves after a few more of
  its own steps and can always take one until then, whatever the others do; the thread of
  \<open>main\<close> waits only for those threads and, at the very end, for the text box's thread.
\<close>

theorem engine_shuts_down:
  assumes "(life_step c)\<^sup>*\<^sup>* (init_life c) s" "el_parts s" "\<not> en_stopped (el_engine s)"
  shows "(\<forall>n t. runs server_thread (server_others c) n (life_stop s) t \<longrightarrow>
      n \<le> 3 \<and> (el_server t = T_Exited \<or> (\<exists>u. server_thread t u))) \<and>
    (\<forall>n t. runs chat_thread (chat_others c) n (life_stop s) t \<longrightarrow>
      n \<le> 3 \<and> (el_chat t = T_Exited \<or> (\<exists>u. chat_thread t u))) \<and>
    (\<forall>n t. runs discovery_thread (discovery_others c) n (life_stop s) t \<longrightarrow>
      n \<le> 5 \<and> (el_discovery t = T_Exited \<or> (\<exists>u. discovery_thread t u))) \<and>
    (\<forall>n t. runs (engine_main c) main_others n (life_stop s) t \<longrightarrow>
      n \<le> 4 \<and> (main_waits t \<or> (\<exists>u. engine_main c t u)))"
proof -
  have inv: "life_inv s"
    by (rule life_reachable_inv[OF assms(1)])
  have "stopping (life_stop s)"
    using inv assms(2,3) by (auto simp: stopping_def life_inv_def life_stop_def engine_stop_def
        engine_onStop_def bc_stop_def bd_stop_def Let_def)
  moreover have "life_inv (life_stop s)"
    using inv assms(2) life_stop_flags[of s]
    by (intro life_inv_frame[OF inv]) (auto simp: same_pcs_def life_inv_def)
  ultimately show ?thesis
    using life_server.leaves life_chat.leaves life_discovery.leaves life_main.leaves by blast
qed

theorem engine_shuts_down_witness:
  "\<exists>s. life_reachable sample_start s \<and> el_main s = E_Started \<and> (\<exists>u. server_thread (life_stop s) u)"
proof -
  obtain e where e: "start_engine sample_start = Some e" "engine_inv e"
    using start_engine_ok[OF sample_start_ok] .
  let ?s = "started_life sample_start e (X_Reading 2)"
  have "life_reachable sample_start ?s" "el_parts ?s" "\<not> en_stopped (el_engine ?s)"
    using started_reachable[OF e(1)] e(2) by (simp_all add: started_life_def engine_inv_def)
  from engine_shuts_down[OF this] runs_nil[of server_thread "server_others sample_start" "life_stop ?s"]
  have "el_server (life_stop ?s) = T_Exited \<or> (\<exists>u. server_thread (life_stop ?s) u)"
    by blast
  with \<open>life_reachable sample_start ?s\<close> show ?thesis
    by (intro exI[of _ ?s]) (simp add: started_life_def)
qed


text \<open>
  C24: an engine that is stopped while it is being constructed, as a failed selection of the text box
  does, never ends: its server is created afterwards and nobody shuts it down, so that the
  thread \<open>server\<close> never leaves \<open>Wait\<close> and the destructor waits for it for ever.
\<close>

theorem engine_stopped_too_early:
  assumes "(life_step c)\<^sup>*\<^sup>* (init_life c) s" "el_main s = E_Building k" "en_stopped (el_engine s)"
    and "(life_step c)\<^sup>*\<^sup>* s t"
  shows "el_main t \<noteq> E_Emptied \<and> el_main t \<noteq> E_Gone \<and> {u. server_thread t u} = {} \<and>
    (el_main t = E_Joining \<longrightarrow> {u. engine_main c t u} = {})"
proof -
  have "doomed s"
    using life_reachable_inv[OF assms(1)] assms(2,3) by (simp add: life_inv_def doomed_def all_pcs_def)
  then have t: "doomed t"
    by (rule doomed_steps[OF assms(4)])
  have "\<not> engine_main c t u" if "el_main t = E_Joining" for u
    using t that by (auto simp: doomed_def elim: engine_main_cases)
  with t doomed_threads(1)[OF t] show ?thesis
    by (auto simp: doomed_def)
qed

theorem engine_stopped_too_early_witness:
  "\<exists>s. life_reachable sample_start s \<and> en_stopped (el_engine s) \<and> {u. server_thread s u} = {}"
proof -
  obtain s where s: "life_reachable sample_start s" "el_main s = E_Building 1" "en_stopped (el_engine s)"
    using early_selection[OF sample_start_ok] by blast
  from engine_stopped_too_early[OF s rtranclp.rtrancl_refl] s show ?thesis
    by blast
qed

end
