(* ===== verification/Syscall.thy ===== *)
theory Syscall
  imports Prelude
begin

text \<open>
  \<open>TTUtilsSyscall\<close> (utils/src/TTUtilsSyscall.hpp): the calls to the operating system that the
  three kinds of interprocess communication make.  The operating system is a parameter: a
  record of functions on a state \<open>'w\<close> of the outside world, one function per virtual method, as the
  class is in the code.  A result is what the call returns; a file descriptor, the address of a
  semaphore and the address of a mapping are integers, and the null pointer (also
  \<open>SEM_FAILED\<close>) is 0.  Calls after which the code reads \<open>errno\<close> return it as well.

  Two functions are no methods of the class: \<open>sc_memory\<close> and \<open>sc_store\<close> are the access to a mapped
  memory, and \<open>sc_sleep\<close> is \<open>std::this_thread::sleep_for\<close>; other processes run meanwhile, so
  these, too, depend on the world.
\<close>

datatype errno = EAGAIN | ETIMEDOUT | EINTR | ERRNO_OTHER

record 'w syscall =
  sc_sem_open :: "string \<Rightarrow> bool \<Rightarrow> 'w \<Rightarrow> int \<times> 'w"       \<comment> \<open>name, \<open>O_CREAT\<close>\<close>
  sc_sem_post :: "int \<Rightarrow> 'w \<Rightarrow> int \<times> 'w"
  sc_sem_timedwait :: "int \<Rightarrow> int \<Rightarrow> 'w \<Rightarrow> int \<times> 'w"     \<comment> \<open>semaphore, deadline in seconds\<close>
  sc_sem_unlink :: "string \<Rightarrow> 'w \<Rightarrow> int \<times> 'w"
  sc_mmap :: "nat \<Rightarrow> int \<Rightarrow> 'w \<Rightarrow> int \<times> 'w"              \<comment> \<open>size, descriptor\<close>
  sc_shm_open :: "string \<Rightarrow> bool \<Rightarrow> 'w \<Rightarrow> int \<times> 'w"       \<comment> \<open>name, \<open>O_CREAT | O_EXCL\<close>\<close>
  sc_shm_unlink :: "string \<Rightarrow> 'w \<Rightarrow> int \<times> 'w"
  sc_clock_gettime :: "'w \<Rightarrow> (int \<times> int) \<times> 'w"          \<comment> \<open>code, seconds\<close>
  sc_mq_open :: "string \<Rightarrow> bool \<Rightarrow> nat \<Rightarrow> nat \<Rightarrow> 'w \<Rightarrow> int \<times> 'w"
  sc_mq_unlink :: "string \<Rightarrow> 'w \<Rightarrow> int \<times> 'w"
  sc_mq_timedsend :: "int \<Rightarrow> string \<Rightarrow> nat \<Rightarrow> int \<Rightarrow> 'w \<Rightarrow> (int \<times> errno) \<times> 'w"
  sc_mq_timedreceive :: "int \<Rightarrow> nat \<Rightarrow> int \<Rightarrow> 'w \<Rightarrow> (int \<times> errno \<times> string) \<times> 'w"
  sc_ftruncate :: "int \<Rightarrow> nat \<Rightarrow> 'w \<Rightarrow> int \<times> 'w"
  sc_open :: "string \<Rightarrow> bool \<Rightarrow> 'w \<Rightarrow> int \<times> 'w"           \<comment> \<open>path, for writing (not blocking)\<close>
  sc_close :: "int \<Rightarrow> 'w \<Rightarrow> int \<times> 'w"
  sc_unlink :: "string \<Rightarrow> 'w \<Rightarrow> int \<times> 'w"
  sc_mkfifo :: "string \<Rightarrow> 'w \<Rightarrow> int \<times> 'w"
  sc_read :: "int \<Rightarrow> nat \<Rightarrow> 'w \<Rightarrow> (int \<times> string) \<times> 'w"
  sc_write :: "int \<Rightarrow> string \<Rightarrow> nat \<Rightarrow> 'w \<Rightarrow> int \<times> 'w"
  sc_memory :: "int \<Rightarrow> 'w \<Rightarrow> string"
  sc_store :: "int \<Rightarrow> string \<Rightarrow> 'w \<Rightarrow> 'w"
  sc_sleep :: "int \<Rightarrow> 'w \<Rightarrow> 'w"

text \<open>
  An operating system on which every call fails, from which the examples in the theories below are
  made by replacing some of the calls.
\<close>

definition failing_os :: "'w syscall" where
  "failing_os =
     \<lparr>sc_sem_open = \<lambda>n c w. (0, w), sc_sem_post = \<lambda>s w. (-1, w),
      sc_sem_timedwait = \<lambda>s t w. (-1, w), sc_sem_unlink = \<lambda>n w. (-1, w),
      sc_mmap = \<lambda>k fd w. (0, w), sc_shm_open = \<lambda>n c w. (-1, w), sc_shm_unlink = \<lambda>n w. (-1, w),
      sc_clock_gettime = \<lambda>w. ((-1, 0), w), sc_mq_open = \<lambda>n c k l w. (-1, w),
      sc_mq_unlink = \<lambda>n w. (-1, w), sc_mq_timedsend = \<lambda>d m k t w. ((-1, ERRNO_OTHER), w),
      sc_mq_timedreceive = \<lambda>d k t w. ((-1, ERRNO_OTHER, ''''), w),
      sc_ftruncate = \<lambda>fd k w. (-1, w), sc_open = \<lambda>p r w. (-1, w), sc_close = \<lambda>fd w. (-1, w),
      sc_unlink = \<lambda>p w. (-1, w), sc_mkfifo = \<lambda>p w. (-1, w), sc_read = \<lambda>fd k w. ((-1, ''''), w),
      sc_write = \<lambda>fd m k w. (-1, w), sc_memory = \<lambda>a w. '''', sc_store = \<lambda>a m w. w,
      sc_sleep = \<lambda>t w. w\<rparr>"

end
