(* ===== verification/Shared_Mem.thy ===== *)
theory Shared_Mem
  imports Syscall "HOL-Library.Sublist" "HOL-Library.Signed_Division"
begin

text \<open>
  \<open>TTUtilsSharedMem\<close> (utils/src/TTUtilsSharedMem.cpp): the shared memory of one message and the
  two semaphores through which the contacts handler passes messages to the contacts window.
  Each method is a function on the object and the world; what a method reports is a \<open>bool\<close>, as in
  the code, and a received message a string of bytes.

  The lemmas show that every object is released that was acquired, whatever fails, that a
  connection that failed stays closed, how often a method tries, and, in the last part, on the two
  processes as a step relation: whatever the speeds of the two processes and whoever
  gives up, the messages received are those sent, in order, none torn and none twice.
\<close>

subsection \<open>State\<close>

record shared_mem =
  mSharedMemoryName :: string
  mDataConsumedSemName :: string
  mDataProducedSemName :: string
  mSharedMessage :: int
  mSharedMessageSize :: nat
  mDataProducedSemaphore :: int
  mDataConsumedSemaphore :: int
  mAlive :: bool
  mSharedMemoryCreated :: bool
  mDataConsumedSemCreated :: bool
  mDataProducedSemCreated :: bool

definition new_shared_mem :: "string \<Rightarrow> string \<Rightarrow> string \<Rightarrow> nat \<Rightarrow> shared_mem" where
  "new_shared_mem name consumed produced bytes =
     \<lparr>mSharedMemoryName = name, mDataConsumedSemName = consumed, mDataProducedSemName = produced,
      mSharedMessage = 0, mSharedMessageSize = bytes, mDataProducedSemaphore = 0,
      mDataConsumedSemaphore = 0, mAlive = False, mSharedMemoryCreated = False,
      mDataConsumedSemCreated = False, mDataProducedSemCreated = False\<rparr>"

definition shm_alive :: "shared_mem \<Rightarrow> bool" where
  "shm_alive m = mAlive m"

subsection \<open>Operations\<close>

definition shm_create :: "'w syscall \<Rightarrow> shared_mem \<Rightarrow> 'w \<Rightarrow> bool \<times> shared_mem \<times> 'w" where
  "shm_create os m w =
     (if shm_alive m then (False, m, w)
      else let (fd, w1) = sc_shm_open os (mSharedMemoryName m) True w in
        if fd < 0 then (False, m, w1)
        else let m1 = m\<lparr>mSharedMemoryCreated := True\<rparr>;
                 (code, w2) = sc_ftruncate os fd (mSharedMessageSize m1) w1 in
          if code = -1 then (False, m1, w2)
          else let (address, w3) = sc_mmap os (mSharedMessageSize m1) fd w2;
                   m2 = m1\<lparr>mSharedMessage := address\<rparr> in
            if mSharedMessage m2 = 0 then (False, m2, w3)
            else let (produced, w4) = sc_sem_open os (mDataProducedSemName m2) True w3;
                     m3 = m2\<lparr>mDataProducedSemaphore := produced\<rparr> in
              if mDataProducedSemaphore m3 = 0 then (False, m3, w4)
              else let m4 = m3\<lparr>mDataProducedSemCreated := True\<rparr>;
                       (consumed, w5) = sc_sem_open os (mDataConsumedSemName m4) True w4;
                       m5 = m4\<lparr>mDataConsumedSemaphore := consumed\<rparr> in
                if mDataConsumedSemaphore m5 = 0 then (False, m5, w5)
                else (True, m5\<lparr>mDataConsumedSemCreated := True, mAlive := True\<rparr>, w5))"

text \<open>The loop of \<open>open\<close>: what is not yet open is tried again, at most \<open>attempt\<close> times.\<close>

fun shm_attach ::
  "'w syscall \<Rightarrow> int \<Rightarrow> nat \<Rightarrow> shared_mem \<Rightarrow> int \<Rightarrow> 'w \<Rightarrow> shared_mem \<times> int \<times> 'w" where
  "shm_attach os timeoutMs 0 m fd w = (m, fd, w)"
| "shm_attach os timeoutMs (Suc attempt) m fd w =
     (let (m1, w1) =
            (if mDataProducedSemaphore m = 0 then
               let (s, w') = sc_sem_open os (mDataProducedSemName m) False w
               in (m\<lparr>mDataProducedSemaphore := s\<rparr>, w')
             else (m, w));
          (m2, w2) =
            (if mDataConsumedSemaphore m1 = 0 then
               let (s, w') = sc_sem_open os (mDataConsumedSemName m1) False w1
               in (m1\<lparr>mDataConsumedSemaphore := s\<rparr>, w')
             else (m1, w1));
          (fd1, w3) =
            (if fd \<le> 0 then sc_shm_open os (mSharedMemoryName m2) False w2 else (fd, w2))
      in if mDataProducedSemaphore m2 \<noteq> 0 \<and> mDataConsumedSemaphore m2 \<noteq> 0 \<and> 0 < fd1
         then (m2, fd1, w3)
         else shm_attach os timeoutMs attempt m2 fd1 (sc_sleep os timeoutMs w3))"

definition shm_open ::
  "'w syscall \<Rightarrow> nat \<Rightarrow> int \<Rightarrow> shared_mem \<Rightarrow> 'w \<Rightarrow> bool \<times> shared_mem \<times> 'w" where
  "shm_open os attempts timeoutMs m w =
     (if shm_alive m then (False, m, w)
      else let (m1, fd, w1) = shm_attach os timeoutMs attempts m 0 w in
        if mDataProducedSemaphore m1 = 0 then (False, m1, w1)
        else if mDataConsumedSemaphore m1 = 0 then (False, m1, w1)
        else if fd < 0 then (False, m1, w1)
        else let (address, w2) = sc_mmap os (mSharedMessageSize m1) fd w1;
                 m2 = m1\<lparr>mSharedMessage := address\<rparr> in
          if mSharedMessage m2 = 0 then (False, m2, w2)
          else (True, m2\<lparr>mAlive := True\<rparr>, w2))"

text \<open>
  The loop that \<open>receive\<close> and \<open>send\<close> share: whether a wait succeeded within the attempts.  An
  interrupted call and any other failure alike lead to the next attempt.
\<close>

fun shm_wait :: "'w syscall \<Rightarrow> int \<Rightarrow> int \<Rightarrow> nat \<Rightarrow> 'w \<Rightarrow> bool \<times> 'w" where
  "shm_wait os semaphore timeoutSecs 0 w = (False, w)"
| "shm_wait os semaphore timeoutSecs (Suc attempt) w =
     (let ((rc, tv_sec), w1) = sc_clock_gettime os w in
      if rc = -1 then (False, w1)
      else let (code, w2) = sc_sem_timedwait os semaphore (tv_sec + timeoutSecs) w1 in
        if code \<noteq> -1 then (True, w2) else shm_wait os semaphore timeoutSecs attempt w2)"

text \<open>The message received is \<open>None\<close> where the code leaves the caller's buffer as it was.\<close>

definition shm_receive ::
  "'w syscall \<Rightarrow> nat \<Rightarrow> int \<Rightarrow> shared_mem \<Rightarrow> 'w \<Rightarrow> bool \<times> string option \<times> shared_mem \<times> 'w" where
  "shm_receive os attempts timeoutMs m w =
     (let (result, message, w1) =
        (if shm_alive m then
           let (produced, w2) = shm_wait os (mDataProducedSemaphore m) (timeoutMs sdiv 1000) attempts w in
           if \<not> produced then (False, None, w2)
           else let message = take (mSharedMessageSize m) (sc_memory os (mSharedMessage m) w2);
                    (code, w3) = sc_sem_post os (mDataConsumedSemaphore m) w2
             in (code \<noteq> -1, Some message, w3)
         else (False, None, w))
      in (result, message, m\<lparr>mAlive := result\<rparr>, w1))"

definition shm_send ::
  "'w syscall \<Rightarrow> nat \<Rightarrow> int \<Rightarrow> string \<Rightarrow> shared_mem \<Rightarrow> 'w \<Rightarrow> bool \<times> shared_mem \<times> 'w" where
  "shm_send os attempts timeoutMs message m w =
     (let (result, w1) =
        (if shm_alive m then
           let w2 = sc_store os (mSharedMessage m) (take (mSharedMessageSize m) message) w;
               (code, w3) = sc_sem_post os (mDataProducedSemaphore m) w2 in
           if code = -1 then (False, w3)
           else shm_wait os (mDataConsumedSemaphore m) (timeoutMs sdiv 1000) attempts w3
         else (False, w))
      in (result, m\<lparr>mAlive := result\<rparr>, w1))"

definition shm_destroy :: "'w syscall \<Rightarrow> shared_mem \<Rightarrow> 'w \<Rightarrow> bool \<times> shared_mem \<times> 'w" where
  "shm_destroy os m w =
     (let (r1, m1, w1) =
            (if mSharedMemoryCreated m then
               let (code, w') = sc_shm_unlink os (mSharedMemoryName m) w
               in (code = 0, m\<lparr>mSharedMemoryCreated := False\<rparr>, w')
             else (True, m, w));
          (r2, m2, w2) =
            (if mDataConsumedSemCreated m1 then
               let (code, w') = sc_sem_unlink os (mDataConsumedSemName m1) w1
               in (code = 0, m1\<lparr>mDataConsumedSemCreated := False\<rparr>, w')
             else (True, m1, w1));
          (r3, m3, w3) =
            (if mDataProducedSemCreated m2 then
               let (code, w') = sc_sem_unlink os (mDataProducedSemName m2) w2
               in (code = 0, m2\<lparr>mDataProducedSemCreated := False\<rparr>, w')
             else (True, m2, w2))
      in (r1 \<and> r2 \<and> r3, m3, w3))"

subsection \<open>What is created is released\<close>

text \<open>
  The documented effect of the calls on the names that exist: opening for creation adds the name
  unless it fails, unlinking removes it unless it fails, the other calls add and remove nothing.
  Shared objects (\<open>True\<close>) and semaphores (\<open>False\<close>) have names of their own.
\<close>

definition ipc_names :: "'w syscall \<Rightarrow> ('w \<Rightarrow> (bool \<times> string) set) \<Rightarrow> bool" where
  "ipc_names os names \<longleftrightarrow>
     (\<forall>n w. names (snd (sc_shm_open os n True w)) =
        (if fst (sc_shm_open os n True w) < 0 then names w else insert (True, n) (names w))) \<and>
     (\<forall>n w. names (snd (sc_sem_open os n True w)) =
        (if fst (sc_sem_open os n True w) = 0 then names w else insert (False, n) (names w))) \<and>
     (\<forall>n w. names (snd (sc_shm_unlink os n w)) =
        (if fst (sc_shm_unlink os n w) = 0 then names w - {(True, n)} else names w)) \<and>
     (\<forall>n w. names (snd (sc_sem_unlink os n w)) =
        (if fst (sc_sem_unlink os n w) = 0 then names w - {(False, n)} else names w)) \<and>
     (\<forall>fd k w. names (snd (sc_ftruncate os fd k w)) = names w) \<and>
     (\<forall>fd k w. names (snd (sc_mmap os k fd w)) = names w)"

text \<open>The names an object has to unlink.\<close>

definition holdings :: "shared_mem \<Rightarrow> (bool \<times> string) set" where
  "holdings m =
     (if mSharedMemoryCreated m then {(True, mSharedMemoryName m)} else {}) \<union>
     (if mDataConsumedSemCreated m then {(False, mDataConsumedSemName m)} else {}) \<union>
     (if mDataProducedSemCreated m then {(False, mDataProducedSemName m)} else {})"

lemma ipc_namesD:
  assumes "ipc_names os names"
  shows "sc_shm_open os n True w = (fd, w1) \<Longrightarrow>
      names w1 = (if fd < 0 then names w else insert (True, n) (names w))"
    "sc_sem_open os n True w = (s, w1) \<Longrightarrow>
      names w1 = (if s = 0 then names w else insert (False, n) (names w))"
    "sc_shm_unlink os n w = (c, w1) \<Longrightarrow> names w1 = (if c = 0 then names w - {(True, n)} else names w)"
    "sc_sem_unlink os n w = (c, w1) \<Longrightarrow> names w1 = (if c = 0 then names w - {(False, n)} else names w)"
    "sc_ftruncate os fd k w = (c, w1) \<Longrightarrow> names w1 = names w"
    "sc_mmap os k fd w = (a, w1) \<Longrightarrow> names w1 = names w"
  using assms unfolding ipc_names_def by (metis fst_conv snd_conv)+

lemma shm_create_holds:
  assumes os: "ipc_names os names" and run: "shm_create os m w = (r, m1, w1)"
    and fresh: "holdings m = {}" "\<not> mAlive m"
  shows "names w1 = names w \<union> holdings m1 \<and> r = mAlive m1 \<and> (r \<longrightarrow> mSharedMemoryCreated m1 \<and>
      mDataConsumedSemCreated m1 \<and> mDataProducedSemCreated m1) \<and>
    mSharedMemoryName m1 = mSharedMemoryName m \<and> mDataConsumedSemName m1 = mDataConsumedSemName m \<and>
    mDataProducedSemName m1 = mDataProducedSemName m"
proof -
  obtain fd wa where a: "sc_shm_open os (mSharedMemoryName m) True w = (fd, wa)"
    by (cases "sc_shm_open os (mSharedMemoryName m) True w")
  obtain c wb where b: "sc_ftruncate os fd (mSharedMessageSize m) wa = (c, wb)"
    by (cases "sc_ftruncate os fd (mSharedMessageSize m) wa")
  obtain p wc where c: "sc_mmap os (mSharedMessageSize m) fd wb = (p, wc)"
    by (cases "sc_mmap os (mSharedMessageSize m) fd wb")
  obtain s wd where d: "sc_sem_open os (mDataProducedSemName m) True wc = (s, wd)"
    by (cases "sc_sem_open os (mDataProducedSemName m) True wc")
  obtain t we where e: "sc_sem_open os (mDataConsumedSemName m) True wd = (t, we)"
    by (cases "sc_sem_open os (mDataConsumedSemName m) True wd")
  note names = ipc_namesD(1)[OF os a] ipc_namesD(5)[OF os b] ipc_namesD(6)[OF os c]
    ipc_namesD(2)[OF os d] ipc_namesD(2)[OF os e]
  have clear: "\<not> mSharedMemoryCreated m" "\<not> mDataConsumedSemCreated m" "\<not> mDataProducedSemCreated m"
    using fresh(1) by (auto simp: holdings_def split: if_splits)
  from run[symmetric] show ?thesis
    by (cases "fd < 0"; cases "c = -1"; cases "p = 0"; cases "s = 0"; cases "t = 0")
      (auto simp: shm_create_def shm_alive_def holdings_def a b c d e names clear fresh(2))
qed

lemma shm_destroy_releases:
  assumes os: "ipc_names os names" and run: "shm_destroy os m w = (True, m1, w1)"
  shows "names w1 = names w - holdings m \<and> holdings m1 = {}"
proof -
  obtain c1 wa where a: "sc_shm_unlink os (mSharedMemoryName m) w = (c1, wa)"
    by (cases "sc_shm_unlink os (mSharedMemoryName m) w")
  let ?wa = "if mSharedMemoryCreated m then wa else w"
  obtain c2 wb where b: "sc_sem_unlink os (mDataConsumedSemName m) ?wa = (c2, wb)"
    by (cases "sc_sem_unlink os (mDataConsumedSemName m) ?wa")
  let ?wb = "if mDataConsumedSemCreated m then wb else ?wa"
  obtain c3 wc where c: "sc_sem_unlink os (mDataProducedSemName m) ?wb = (c3, wc)"
    by (cases "sc_sem_unlink os (mDataProducedSemName m) ?wb")
  note names = ipc_namesD(3)[OF os a] ipc_namesD(4)[OF os b] ipc_namesD(4)[OF os c]
  from run[symmetric] a b c names show ?thesis
    by (cases "mSharedMemoryCreated m"; cases "mDataConsumedSemCreated m"; cases "mDataProducedSemCreated m")
      (auto simp: shm_destroy_def holdings_def)
qed

subsection \<open>A failed connection stays closed\<close>

text \<open>What the owner of an open connection does with it.\<close>

datatype shm_op = ShmSend string | ShmReceive

primrec shm_step :: "'w syscall \<Rightarrow> nat \<Rightarrow> int \<Rightarrow> shm_op \<Rightarrow> shared_mem \<times> 'w \<Rightarrow> bool \<times> shared_mem \<times> 'w" where
  "shm_step os attempts timeoutMs (ShmSend message) s =
     shm_send os attempts timeoutMs message (fst s) (snd s)"
| "shm_step os attempts timeoutMs ShmReceive s =
     (let (r, message, m, w) = shm_receive os attempts timeoutMs (fst s) (snd s) in (r, m, w))"

fun shm_calls ::
  "'w syscall \<Rightarrow> nat \<Rightarrow> int \<Rightarrow> shm_op list \<Rightarrow> shared_mem \<times> 'w \<Rightarrow> bool list \<times> shared_mem \<times> 'w" where
  "shm_calls os attempts timeoutMs [] s = ([], s)"
| "shm_calls os attempts timeoutMs (x # xs) s =
     (let (r, s1) = shm_step os attempts timeoutMs x s;
          (rs, s2) = shm_calls os attempts timeoutMs xs s1
      in (r # rs, s2))"

lemma shm_step_alive: "shm_step os attempts timeoutMs x s = (r, s1) \<Longrightarrow> mAlive (fst s1) = r"
  by (cases x) (auto simp: shm_send_def shm_receive_def split: prod.splits)

lemma shm_step_closed:
  "\<not> mAlive (fst s) \<Longrightarrow> shm_step os attempts timeoutMs x s = (False, s)"
  by (cases x; cases s) (simp_all add: shm_send_def shm_receive_def shm_alive_def)

lemma shm_calls_closed:
  "\<not> mAlive (fst s) \<Longrightarrow>
   shm_calls os attempts timeoutMs xs s = (replicate (length xs) False, s)"
  by (induction xs) (simp_all add: shm_step_closed)

lemma shm_calls_split:
  "mAlive (fst s) \<Longrightarrow> shm_calls os attempts timeoutMs xs s = (rs, s1) \<Longrightarrow>
   \<exists>k \<le> length xs. rs = replicate k True @ replicate (length xs - k) False \<and>
     mAlive (fst s1) = (k = length xs) \<and>
     s1 = snd (shm_calls os attempts timeoutMs (take (Suc k) xs) s)"
proof (induction xs arbitrary: s rs s1)
  case (Cons x xs)
  obtain r s2 where x: "shm_step os attempts timeoutMs x s = (r, s2)"
    by (cases "shm_step os attempts timeoutMs x s")
  have alive: "mAlive (fst s2) = r"
    by (rule shm_step_alive[OF x])
  obtain rs2 where rest: "shm_calls os attempts timeoutMs xs s2 = (rs2, s1)" "rs = r # rs2"
    using Cons.prems(2) x by (auto split: prod.splits)
  show ?case
  proof (cases r)
    case False
    then have "rs2 = replicate (length xs) False" "s1 = s2"
      using rest(1) alive shm_calls_closed[of s2 os attempts timeoutMs xs] by simp_all
    with False rest(2) alive x show ?thesis
      by (intro exI[of _ 0]) simp
  next
    case True
    then obtain k where "k \<le> length xs" "rs2 = replicate k True @ replicate (length xs - k) False"
      "mAlive (fst s1) = (k = length xs)"
      "s1 = snd (shm_calls os attempts timeoutMs (take (Suc k) xs) s2)"
      using Cons.IH[OF _ rest(1)] alive by blast
    with True rest(2) x show ?thesis
      by (intro exI[of _ "Suc k"]) (simp add: case_prod_beta)
  qed
qed simp

subsection \<open>The two processes\<close>

text \<open>
  The process that sends and the one that receives, beside each other: one step for each access
  to the memory or a semaphore, in \<open>send\<close> and in \<open>receive\<close>.  The loops count the attempts left.
  A wait that is interrupted or times out uses up an attempt; a failed clock or a used up count
  closes the connection of that process.  \<open>rv_sent\<close>, \<open>rv_confirmed\<close> and \<open>rv_received\<close>, which no step
  reads, list the messages handed to \<open>send\<close>, those for which it returned \<open>true\<close>, and those
  copied by \<open>receive\<close>.
\<close>

datatype sender_pc = S_Idle | S_Stored | S_Waiting nat | S_Closed

datatype receiver_pc = R_Idle | R_Waiting nat | R_Woken | R_Copied | R_Closed

record rendezvous =
  rv_memory :: "string option"
  rv_produced :: nat
  rv_consumed :: nat
  rv_sender :: sender_pc
  rv_receiver :: receiver_pc
  rv_sent :: "string list"
  rv_confirmed :: nat
  rv_received :: "string list"

definition init_rendezvous :: rendezvous where
  "init_rendezvous = \<lparr>rv_memory = None, rv_produced = 0, rv_consumed = 0, rv_sender = S_Idle,
     rv_receiver = R_Idle, rv_sent = [], rv_confirmed = 0, rv_received = []\<rparr>"

inductive sender_step :: "rendezvous \<Rightarrow> rendezvous \<Rightarrow> bool" where
  store: "rv_sender s = S_Idle \<Longrightarrow>
     sender_step s (s\<lparr>rv_sender := S_Stored, rv_memory := Some m, rv_sent := rv_sent s @ [m]\<rparr>)"
| post_produced: "rv_sender s = S_Stored \<Longrightarrow>
     sender_step s (s\<lparr>rv_sender := S_Waiting attempts, rv_produced := rv_produced s + 1\<rparr>)"
| post_produced_failed: "rv_sender s = S_Stored \<Longrightarrow> sender_step s (s\<lparr>rv_sender := S_Closed\<rparr>)"
| consumed: "rv_sender s = S_Waiting (Suc k) \<Longrightarrow> 0 < rv_consumed s \<Longrightarrow>
     sender_step s (s\<lparr>rv_sender := S_Idle, rv_consumed := rv_consumed s - 1,
                      rv_confirmed := rv_confirmed s + 1\<rparr>)"
| consumed_again: "rv_sender s = S_Waiting (Suc k) \<Longrightarrow> sender_step s (s\<lparr>rv_sender := S_Waiting k\<rparr>)"
| send_gives_up: "rv_sender s = S_Waiting k \<Longrightarrow> sender_step s (s\<lparr>rv_sender := S_Closed\<rparr>)"

inductive receiver_step :: "rendezvous \<Rightarrow> rendezvous \<Rightarrow> bool" where
  begin_receive: "rv_receiver s = R_Idle \<Longrightarrow> receiver_step s (s\<lparr>rv_receiver := R_Waiting attempts\<rparr>)"
| produced: "rv_receiver s = R_Waiting (Suc k) \<Longrightarrow> 0 < rv_produced s \<Longrightarrow>
     receiver_step s (s\<lparr>rv_receiver := R_Woken, rv_produced := rv_produced s - 1\<rparr>)"
| produced_again: "rv_receiver s = R_Waiting (Suc k) \<Longrightarrow>
     receiver_step s (s\<lparr>rv_receiver := R_Waiting k\<rparr>)"
| receive_gives_up: "rv_receiver s = R_Waiting k \<Longrightarrow> receiver_step s (s\<lparr>rv_receiver := R_Closed\<rparr>)"
| copy: "rv_receiver s = R_Woken \<Longrightarrow> rv_memory s = Some m \<Longrightarrow>
     receiver_step s (s\<lparr>rv_receiver := R_Copied, rv_received := rv_received s @ [m]\<rparr>)"
| post_consumed: "rv_receiver s = R_Copied \<Longrightarrow>
     receiver_step s (s\<lparr>rv_receiver := R_Idle, rv_consumed := rv_consumed s + 1\<rparr>)"
| post_consumed_failed: "rv_receiver s = R_Copied \<Longrightarrow> receiver_step s (s\<lparr>rv_receiver := R_Closed\<rparr>)"

inductive rendezvous_reachable :: "rendezvous \<Rightarrow> bool" where
  rv_init: "rendezvous_reachable init_rendezvous"
| rv_sender_step: "rendezvous_reachable s \<Longrightarrow> sender_step s t \<Longrightarrow> rendezvous_reachable t"
| rv_receiver_step: "rendezvous_reachable s \<Longrightarrow> receiver_step s t \<Longrightarrow> rendezvous_reachable t"

text \<open>
  Where the one message under way is: not yet taken by the receiver, or taken, or confirmed.
\<close>

definition rendezvous_inv :: "rendezvous \<Rightarrow> bool" where
  "rendezvous_inv s \<longleftrightarrow>
     rv_memory s = (if rv_sent s = [] then None else Some (last (rv_sent s))) \<and>
     (if rv_received s = rv_sent s then
        rv_produced s = 0 \<and> rv_receiver s \<noteq> R_Woken \<and>
        (rv_sender s = S_Idle \<longrightarrow> rv_consumed s = 0 \<and> rv_receiver s \<noteq> R_Copied \<and>
           rv_confirmed s = length (rv_sent s)) \<and>
        rv_sender s \<noteq> S_Stored \<and>
        (rv_sender s \<noteq> S_Idle \<longrightarrow> Suc (rv_confirmed s) = length (rv_sent s) \<and>
           rv_consumed s \<le> 1 \<and> (rv_receiver s = R_Copied \<longrightarrow> rv_consumed s = 0))
      else
        rv_sent s \<noteq> [] \<and> rv_received s = butlast (rv_sent s) \<and> rv_consumed s = 0 \<and>
        rv_sender s \<noteq> S_Idle \<and> rv_receiver s \<noteq> R_Copied \<and> Suc (rv_confirmed s) = length (rv_sent s) \<and>
        (rv_sender s = S_Stored \<longrightarrow> rv_produced s = 0 \<and> rv_receiver s \<noteq> R_Woken) \<and>
        rv_produced s \<le> 1 \<and> (rv_receiver s = R_Woken \<longrightarrow> rv_produced s = 0))"

lemma sender_step_inv: "sender_step s t \<Longrightarrow> rendezvous_inv s \<Longrightarrow> rendezvous_inv t"
  by (induction rule: sender_step.induct) (auto simp: rendezvous_inv_def split: if_splits)

lemma receiver_step_inv: "receiver_step s t \<Longrightarrow> rendezvous_inv s \<Longrightarrow> rendezvous_inv t"
  by (induction rule: receiver_step.induct) (auto simp: rendezvous_inv_def split: if_splits)

lemma rendezvous_reachable_inv: "rendezvous_reachable s \<Longrightarrow> rendezvous_inv s"
proof (induction rule: rendezvous_reachable.induct)
  case rv_init
  show ?case by (simp add: rendezvous_inv_def init_rendezvous_def)
qed (blast intro: sender_step_inv receiver_step_inv)+

subsection \<open>Properties\<close>

text \<open>
  Whatever fails while the shared memory and its semaphores are created, \<open>create\<close> reports success
  exactly when everything was created, and a \<open>destroy\<close> that reports success leaves no name
  behind that was not there before and takes away no other name.
\<close>

theorem shm_no_leak:
  assumes "ipc_names os names"
    and "shm_create os (new_shared_mem name consumed produced bytes) w = (r, m1, w1)"
    and "shm_destroy os m1 w1 = (True, m2, w2)"
  shows "r = shm_alive m1 \<and> names w2 \<subseteq> names w \<and>
    names w - {(True, name), (False, consumed), (False, produced)} \<subseteq> names w2 \<and>
    (r \<longrightarrow> names w2 = names w - {(True, name), (False, consumed), (False, produced)}) \<and>
    shm_destroy os m2 w2 = (True, m2, w2)"
proof -
  let ?m = "new_shared_mem name consumed produced bytes"
  have fresh: "holdings ?m = {}" "\<not> mAlive ?m"
    by (simp_all add: holdings_def new_shared_mem_def)
  have names: "mSharedMemoryName ?m = name" "mDataConsumedSemName ?m = consumed"
    "mDataProducedSemName ?m = produced"
    by (simp_all add: new_shared_mem_def)
  note c = shm_create_holds[OF assms(1,2) fresh, unfolded names]
  note d = shm_destroy_releases[OF assms(1,3)]
  have held: "holdings m1 \<subseteq> {(True, name), (False, consumed), (False, produced)}"
    using c by (auto simp: holdings_def split: if_splits)
  have all: "r \<Longrightarrow> holdings m1 = {(True, name), (False, consumed), (False, produced)}"
    using c by (auto simp: holdings_def)
  have "\<not> mSharedMemoryCreated m2" "\<not> mDataConsumedSemCreated m2" "\<not> mDataProducedSemCreated m2"
    using d by (auto simp: holdings_def split: if_splits)
  then have "shm_destroy os m2 w2 = (True, m2, w2)"
    by (simp add: shm_destroy_def)
  with c d held all show ?thesis
    by (auto simp: shm_alive_def)
qed

text \<open>An operating system that keeps a list of names, on which the second semaphore cannot be created.\<close>

definition names_os :: "(bool \<times> string) list syscall" where
  "names_os = failing_os\<lparr>
     sc_shm_open := \<lambda>n c w. (3, List.insert (True, n) w),
     sc_sem_open := \<lambda>n c w. if n = ''c'' then (0, w) else (7, List.insert (False, n) w),
     sc_shm_unlink := \<lambda>n w. (0, removeAll (True, n) w),
     sc_sem_unlink := \<lambda>n w. (0, removeAll (False, n) w),
     sc_ftruncate := \<lambda>fd k w. (0, w), sc_mmap := \<lambda>k fd w. (4096, w)\<rparr>"

theorem shm_no_leak_witness:
  "\<exists>m1 w1 m2 w2. shm_create names_os (new_shared_mem ''m'' ''c'' ''p'' 288) [(True, ''x'')] = (False, m1, w1) \<and>
    set w1 = {(True, ''x''), (True, ''m''), (False, ''p'')} \<and>
    shm_destroy names_os m1 w1 = (True, m2, w2) \<and> set w2 = {(True, ''x'')}"
proof -
  have os: "ipc_names names_os set"
    by (auto simp: ipc_names_def names_os_def failing_os_def)
  obtain m1 w1 where c: "shm_create names_os (new_shared_mem ''m'' ''c'' ''p'' 288) [(True, ''x'')] = (False, m1, w1)"
    "mSharedMemoryCreated m1" "\<not> mDataConsumedSemCreated m1" "mDataProducedSemCreated m1"
    "mSharedMemoryName m1 = ''m''" "mDataProducedSemName m1 = ''p''"
    "set w1 = {(True, ''x''), (True, ''m''), (False, ''p'')}"
    by (auto simp: shm_create_def new_shared_mem_def shm_alive_def names_os_def failing_os_def)
  obtain m2 w2 where d: "shm_destroy names_os m1 w1 = (True, m2, w2)"
    using c(2-6) by (simp add: shm_destroy_def names_os_def failing_os_def)
  from shm_no_leak[OF os c(1) d] have "set w2 = {(True, ''x'')}"
    by auto
  with c d show ?thesis
    by blast
qed

text \<open>
  Once a \<open>send\<close> or \<open>receive\<close> on the shared memory has failed, the connection is closed for
  good: all later calls fail, and the other process and the system never notice them.
\<close>

theorem shm_stays_closed:
  assumes "shm_alive (fst s)" "shm_calls os attempts timeoutMs xs s = (rs, s1)"
  shows "\<exists>k \<le> length xs. rs = replicate k True @ replicate (length xs - k) False \<and>
    shm_alive (fst s1) = (k = length xs) \<and>
    s1 = snd (shm_calls os attempts timeoutMs (take (Suc k) xs) s)"
  using shm_calls_split[of s os attempts timeoutMs xs rs s1] assms by (simp add: shm_alive_def)

text \<open>An operating system on which a number of waits succeed and the later ones time out.\<close>

definition patient_os :: "nat syscall" where
  "patient_os = failing_os\<lparr>sc_sem_post := \<lambda>s w. (0, w),
     sc_sem_timedwait := \<lambda>s t w. case w of 0 \<Rightarrow> (-1, 0) | Suc k \<Rightarrow> (0, k),
     sc_clock_gettime := \<lambda>w. ((0, 5), w)\<rparr>"

theorem shm_stays_closed_witness:
  "let s = ((new_shared_mem ''m'' ''c'' ''p'' 288)\<lparr>mAlive := True\<rparr>, 1)
   in fst (shm_calls patient_os 3 1000 [ShmSend ''a'', ShmSend ''b'', ShmReceive] s) = [True, False, False] \<and>
     (\<exists>k \<le> 3. snd (shm_calls patient_os 3 1000 [ShmSend ''a'', ShmSend ''b'', ShmReceive] s) =
       snd (shm_calls patient_os 3 1000 (take (Suc k) [ShmSend ''a'', ShmSend ''b'', ShmReceive]) s))"
proof -
  let ?s = "((new_shared_mem ''m'' ''c'' ''p'' 288)\<lparr>mAlive := True\<rparr>, 1 :: nat)"
  let ?xs = "[ShmSend ''a'', ShmSend ''b'', ShmReceive]"
  have "fst (shm_calls patient_os 3 1000 ?xs ?s) = [True, False, False]"
    by (simp add: shm_send_def shm_receive_def shm_alive_def patient_os_def failing_os_def
        numeral_3_eq_3)
  moreover have "\<exists>k \<le> 3. snd (shm_calls patient_os 3 1000 ?xs ?s) =
      snd (shm_calls patient_os 3 1000 (take (Suc k) ?xs) ?s)"
    using shm_stays_closed[of ?s patient_os 3 1000 ?xs "fst (shm_calls patient_os 3 1000 ?xs ?s)"
        "snd (shm_calls patient_os 3 1000 ?xs ?s)"]
    unfolding prod.collapse by (force simp: shm_alive_def)
  ultimately show ?thesis
    unfolding Let_def by blast
qed

text \<open>
  C37: whatever the speeds of the two processes, whichever waits time out or are interrupted and
  whoever gives up, the messages received through the shared memory are the first of those sent,
  whole and in order; at most the last one sent is missing; \<open>send\<close> returns \<open>true\<close> only for
  messages that were received.
\<close>

theorem rendezvous_delivers:
  assumes "rendezvous_reachable s"
  shows "prefix (rv_received s) (rv_sent s) \<and> length (rv_sent s) \<le> Suc (length (rv_received s)) \<and>
    rv_confirmed s \<le> length (rv_received s) \<and>
    (rv_sender s = S_Idle \<longrightarrow> rv_received s = rv_sent s \<and> rv_confirmed s = length (rv_sent s))"
proof -
  have inv: "rendezvous_inv s"
    by (rule rendezvous_reachable_inv[OF assms])
  show ?thesis
  proof (cases "rv_received s = rv_sent s")
    case True
    with inv show ?thesis
      by (cases "rv_sender s = S_Idle") (auto simp: rendezvous_inv_def)
  next
    case False
    then have "rv_sent s \<noteq> []" "rv_received s = butlast (rv_sent s)" "rv_sender s \<noteq> S_Idle"
      "Suc (rv_confirmed s) = length (rv_sent s)"
      using inv by (simp_all add: rendezvous_inv_def)
    then show ?thesis
      by (simp add: prefixeq_butlast)
  qed
qed

theorem rendezvous_delivers_witness:
  "\<exists>s. rendezvous_reachable s \<and> rv_sent s = [''a''] \<and> rv_received s = [''a''] \<and> rv_confirmed s = 1"
proof -
  let ?s1 = "init_rendezvous\<lparr>rv_sender := S_Stored, rv_memory := Some ''a'', rv_sent := [''a'']\<rparr>"
  let ?s2 = "?s1\<lparr>rv_sender := S_Waiting 3, rv_produced := 1\<rparr>"
  let ?s3 = "?s2\<lparr>rv_receiver := R_Waiting 3\<rparr>"
  let ?s4 = "?s3\<lparr>rv_receiver := R_Woken, rv_produced := 0\<rparr>"
  let ?s5 = "?s4\<lparr>rv_receiver := R_Copied, rv_received := [''a'']\<rparr>"
  let ?s6 = "?s5\<lparr>rv_receiver := R_Idle, rv_consumed := 1\<rparr>"
  let ?s7 = "?s6\<lparr>rv_sender := S_Idle, rv_consumed := 0, rv_confirmed := 1\<rparr>"
  note i = init_rendezvous_def
  have "rendezvous_reachable init_rendezvous"
    by (rule rv_init)
  moreover have "sender_step init_rendezvous ?s1"
    using store[of init_rendezvous "''a''"] by (simp add: i)
  moreover have "sender_step ?s1 ?s2"
    using post_produced[of ?s1 3] by (simp add: i)
  moreover have "receiver_step ?s2 ?s3"
    using begin_receive[of ?s2 3] by (simp add: i)
  moreover have "receiver_step ?s3 ?s4"
    using produced[of ?s3 2] by (simp add: i)
  moreover have "receiver_step ?s4 ?s5"
    using copy[of ?s4 "''a''"] by (simp add: i)
  moreover have "receiver_step ?s5 ?s6"
    using post_consumed[of ?s5] by (simp add: i)
  moreover have "sender_step ?s6 ?s7"
    using consumed[of ?s6 2] by (simp add: i)
  ultimately have "rendezvous_reachable ?s7"
    by (meson rv_sender_step rv_receiver_step)
  from rendezvous_delivers[OF this] this show ?thesis
    by (intro exI[of _ ?s7]) simp
qed

end
