(* ===== verification/Message_Queue.thy ===== *)
theory Message_Queue
  imports Syscall "HOL-Library.Signed_Division"
begin

text \<open>
  \<open>TTUtilsMessageQueue\<close> (utils/src/TTUtilsMessageQueue.cpp): a POSIX message queue, two of which
  connect the chat handler with the chat window.  Each method is a function on the object and
  the world.

  The lemmas show that a send or a receive, with its attempts, acts at most once on the
  queue and exactly once when it reports success, and bound the number of system calls.
\<close>

subsection \<open>State\<close>

text \<open>\<open>mq_deleter\<close> says whether \<open>mDeleter\<close>, which unlinks the queue's name, is set.\<close>

record message_queue =
  mq_name :: string
  mDescriptor :: int
  mq_deleter :: bool
  mQueueSize :: nat
  mMessageSize :: nat

definition new_message_queue :: "string \<Rightarrow> nat \<Rightarrow> nat \<Rightarrow> message_queue" where
  "new_message_queue name queueSize messageSize =
     \<lparr>mq_name = name, mDescriptor = -1, mq_deleter = False, mQueueSize = queueSize,
      mMessageSize = messageSize\<rparr>"

definition mq_alive :: "message_queue \<Rightarrow> bool" where
  "mq_alive q \<longleftrightarrow> mDescriptor q \<noteq> -1"

subsection \<open>Operations\<close>

definition mq_destruct :: "'w syscall \<Rightarrow> message_queue \<Rightarrow> 'w \<Rightarrow> message_queue \<times> 'w" where
  "mq_destruct os q w =
     (q\<lparr>mDescriptor := -1\<rparr>, if mq_deleter q then snd (sc_mq_unlink os (mq_name q) w) else w)"

definition mq_create :: "'w syscall \<Rightarrow> message_queue \<Rightarrow> 'w \<Rightarrow> bool \<times> message_queue \<times> 'w" where
  "mq_create os q w =
     (if mq_alive q then (False, q, w)
      else let (d, w1) = sc_mq_open os (mq_name q) True (mQueueSize q) (mMessageSize q) w;
               q1 = q\<lparr>mDescriptor := d\<rparr> in
        if mDescriptor q1 = -1 then (False, q1, w1) else (True, q1\<lparr>mq_deleter := True\<rparr>, w1))"

fun mq_attach :: "'w syscall \<Rightarrow> int \<Rightarrow> nat \<Rightarrow> message_queue \<Rightarrow> 'w \<Rightarrow> message_queue \<times> 'w" where
  "mq_attach os timeoutMs 0 q w = (q, w)"
| "mq_attach os timeoutMs (Suc attempt) q w =
     (let (d, w1) = sc_mq_open os (mq_name q) False (mQueueSize q) (mMessageSize q) w;
          q1 = q\<lparr>mDescriptor := d\<rparr> in
      if mDescriptor q1 \<noteq> -1 then (q1, w1)
      else mq_attach os timeoutMs attempt q1 (sc_sleep os timeoutMs w1))"

definition mq_open ::
  "'w syscall \<Rightarrow> nat \<Rightarrow> int \<Rightarrow> message_queue \<Rightarrow> 'w \<Rightarrow> bool \<times> message_queue \<times> 'w" where
  "mq_open os attempts timeoutMs q w =
     (if mq_alive q then (False, q, w)
      else let (q1, w1) = mq_attach os timeoutMs attempts q w in
        if mDescriptor q1 = -1 then (False, q1, w1) else (True, q1, w1))"

fun mq_receive_loop ::
  "'w syscall \<Rightarrow> int \<Rightarrow> nat \<Rightarrow> message_queue \<Rightarrow> 'w \<Rightarrow> bool \<times> string option \<times> 'w" where
  "mq_receive_loop os timeoutSecs 0 q w = (False, None, w)"
| "mq_receive_loop os timeoutSecs (Suc i) q w =
     (let ((rc, tv_sec), w1) = sc_clock_gettime os w in
      if rc = -1 then (False, None, w1)
      else let ((res, errno, message), w2) =
                 sc_mq_timedreceive os (mDescriptor q) (mMessageSize q) (tv_sec + timeoutSecs) w1 in
        if res \<noteq> -1 then (True, Some message, w2)
        else if errno = EAGAIN then mq_receive_loop os timeoutSecs i q w2
        else if errno = ETIMEDOUT then mq_receive_loop os timeoutSecs i q w2
        else (False, None, w2))"

definition mq_receive ::
  "'w syscall \<Rightarrow> nat \<Rightarrow> int \<Rightarrow> message_queue \<Rightarrow> 'w \<Rightarrow> bool \<times> string option \<times> 'w" where
  "mq_receive os attempts timeoutMs q w =
     (if mq_alive q then mq_receive_loop os (timeoutMs sdiv 1000) attempts q w else (False, None, w))"

fun mq_send_loop ::
  "'w syscall \<Rightarrow> string \<Rightarrow> int \<Rightarrow> nat \<Rightarrow> message_queue \<Rightarrow> 'w \<Rightarrow> bool \<times> 'w" where
  "mq_send_loop os message timeoutSecs 0 q w = (False, w)"
| "mq_send_loop os message timeoutSecs (Suc i) q w =
     (let ((rc, tv_sec), w1) = sc_clock_gettime os w in
      if rc = -1 then (False, w1)
      else let ((res, errno), w2) =
                 sc_mq_timedsend os (mDescriptor q) message (mMessageSize q) (tv_sec + timeoutSecs) w1 in
        if res \<noteq> -1 then (True, w2)
        else if errno = EAGAIN then mq_send_loop os message timeoutSecs i q w2
        else if errno = ETIMEDOUT then mq_send_loop os message timeoutSecs i q w2
        else (False, w2))"

definition mq_send ::
  "'w syscall \<Rightarrow> nat \<Rightarrow> int \<Rightarrow> string \<Rightarrow> message_queue \<Rightarrow> 'w \<Rightarrow> bool \<times> 'w" where
  "mq_send os attempts timeoutMs message q w =
     (if mq_alive q then mq_send_loop os message (timeoutMs sdiv 1000) attempts q w else (False, w))"

subsection \<open>Exactly once\<close>

text \<open>
  The documented effect on the contents of the queue with a given descriptor: a call that succeeds
  adds its message at the end or takes the first one, a call that fails and the clock do nothing.
\<close>

definition queue_contents :: "'w syscall \<Rightarrow> int \<Rightarrow> ('w \<Rightarrow> string list) \<Rightarrow> bool" where
  "queue_contents os d contents \<longleftrightarrow>
     (\<forall>m k t w. contents (snd (sc_mq_timedsend os d m k t w)) =
        (if fst (fst (sc_mq_timedsend os d m k t w)) = -1 then contents w else contents w @ [m])) \<and>
     (\<forall>k t w. if fst (fst (sc_mq_timedreceive os d k t w)) = -1
        then contents (snd (sc_mq_timedreceive os d k t w)) = contents w
        else contents w = snd (snd (fst (sc_mq_timedreceive os d k t w))) #
               contents (snd (sc_mq_timedreceive os d k t w))) \<and>
     (\<forall>w. contents (snd (sc_clock_gettime os w)) = contents w)"

lemma queue_contentsD:
  assumes "queue_contents os d contents"
  shows "sc_mq_timedsend os d m k t w = ((r, e), w1) \<Longrightarrow>
      contents w1 = (if r = -1 then contents w else contents w @ [m])"
    "sc_mq_timedreceive os d k t w = ((r, e, m), w1) \<Longrightarrow>
      (if r = -1 then contents w1 = contents w else contents w = m # contents w1)"
    "sc_clock_gettime os w = (c, w1) \<Longrightarrow> contents w1 = contents w"
  using assms unfolding queue_contents_def by (metis fst_conv snd_conv)+

lemma mq_send_loop_once:
  assumes os: "queue_contents os (mDescriptor q) contents"
  shows "mq_send_loop os m secs n q w = (r, w1) \<Longrightarrow>
    contents w1 = contents w @ (if r then [m] else [])"
proof (induction n arbitrary: w)
  case (Suc n)
  obtain rc sec wa where a: "sc_clock_gettime os w = ((rc, sec), wa)"
    by (cases "sc_clock_gettime os w") force
  obtain res e wb where
    b: "sc_mq_timedsend os (mDescriptor q) m (mMessageSize q) (sec + secs) wa = ((res, e), wb)"
    by (cases "sc_mq_timedsend os (mDescriptor q) m (mMessageSize q) (sec + secs) wa") force
  show ?case
    using Suc.prems Suc.IH[of wb] queue_contentsD(1)[OF os b] queue_contentsD(3)[OF os a]
    by (simp add: a b split: if_splits)
qed simp

lemma mq_receive_loop_once:
  assumes os: "queue_contents os (mDescriptor q) contents"
  shows "mq_receive_loop os secs n q w = (r, m, w1) \<Longrightarrow>
    r = (m \<noteq> None) \<and> contents w = (case m of None \<Rightarrow> [] | Some x \<Rightarrow> [x]) @ contents w1"
proof (induction n arbitrary: w)
  case (Suc n)
  obtain rc sec wa where a: "sc_clock_gettime os w = ((rc, sec), wa)"
    by (cases "sc_clock_gettime os w") force
  obtain res e x wb where
    b: "sc_mq_timedreceive os (mDescriptor q) (mMessageSize q) (sec + secs) wa = ((res, e, x), wb)"
    by (cases "sc_mq_timedreceive os (mDescriptor q) (mMessageSize q) (sec + secs) wa") force
  show ?case
    using Suc.prems Suc.IH[of wb] queue_contentsD(2)[OF os b] queue_contentsD(3)[OF os a]
    by (auto simp: a b split: if_splits)
qed simp

text \<open>What the two ends do with the queue: the messages sent and the messages received.\<close>

datatype mq_op = MqSend string | MqReceive

fun mq_calls ::
  "'w syscall \<Rightarrow> nat \<Rightarrow> int \<Rightarrow> message_queue \<Rightarrow> mq_op list \<Rightarrow> 'w \<Rightarrow> string list \<times> string list \<times> 'w" where
  "mq_calls os attempts timeoutMs q [] w = ([], [], w)"
| "mq_calls os attempts timeoutMs q (MqSend m # xs) w =
     (let (r, w1) = mq_send os attempts timeoutMs m q w;
          (sent, received, w2) = mq_calls os attempts timeoutMs q xs w1
      in (if r then m # sent else sent, received, w2))"
| "mq_calls os attempts timeoutMs q (MqReceive # xs) w =
     (let (r, m, w1) = mq_receive os attempts timeoutMs q w;
          (sent, received, w2) = mq_calls os attempts timeoutMs q xs w1
      in (sent, if r then the m # received else received, w2))"

text \<open>
  With all their attempts, \<open>send\<close> and \<open>receive\<close> act on the queue exactly once when they report
  success and not at all when they report failure: in any sequence of calls, what was there and
  what was sent is what was received and what is left, in order.
\<close>

theorem mq_exactly_once:
  assumes "queue_contents os (mDescriptor q) contents"
    and "mq_calls os attempts timeoutMs q xs w = (sent, received, w1)"
  shows "contents w @ sent = received @ contents w1"
proof -
  note os = assms(1)
  have "mq_calls os attempts timeoutMs q xs w = (sent, received, w1) \<Longrightarrow>
      contents w @ sent = received @ contents w1"
  proof (induction xs arbitrary: w sent received)
    case (Cons x xs)
    show ?case
    proof (cases x)
      case (MqSend m)
      obtain r wa where a: "mq_send os attempts timeoutMs m q w = (r, wa)"
        by (cases "mq_send os attempts timeoutMs m q w")
      obtain sent1 where b: "mq_calls os attempts timeoutMs q xs wa = (sent1, received, w1)"
        "sent = (if r then m # sent1 else sent1)"
        using Cons.prems MqSend by (auto simp: a split: prod.splits)
      have "contents wa = contents w @ (if r then [m] else [])"
        using a mq_send_loop_once[OF os] by (auto simp: mq_send_def split: if_splits)
      with Cons.IH[OF b(1)] b(2) show ?thesis
        by (simp split: if_splits)
    next
      case MqReceive
      obtain r m wa where a: "mq_receive os attempts timeoutMs q w = (r, m, wa)"
        by (cases "mq_receive os attempts timeoutMs q w") auto
      obtain received1 where b: "mq_calls os attempts timeoutMs q xs wa = (sent, received1, w1)"
        "received = (if r then the m # received1 else received1)"
        using Cons.prems MqReceive by (auto simp: a split: prod.splits)
      have "r = (m \<noteq> None) \<and> contents w = (case m of None \<Rightarrow> [] | Some x \<Rightarrow> [x]) @ contents wa"
        using a mq_receive_loop_once[OF os] by (auto simp: mq_receive_def split: if_splits)
      with Cons.IH[OF b(1)] b(2) show ?thesis
        by (auto split: option.splits)
    qed
  qed simp
  then show ?thesis
    using assms(2) by blast
qed

text \<open>A system with one queue of at most two messages; a full or an empty one is not available.\<close>

definition queue_os :: "string list syscall" where
  "queue_os = failing_os\<lparr>sc_clock_gettime := \<lambda>w. ((0, 5), w),
     sc_mq_timedsend := \<lambda>d m k t w. if 2 \<le> length w then ((-1, EAGAIN), w) else ((0, EAGAIN), w @ [m]),
     sc_mq_timedreceive := \<lambda>d k t w. case w of [] \<Rightarrow> ((-1, ETIMEDOUT, ''''), []) | m # ms \<Rightarrow> ((8, EAGAIN, m), ms)\<rparr>"

theorem mq_exactly_once_witness:
  "let q = (new_message_queue ''/q'' 2 8)\<lparr>mDescriptor := 3\<rparr>;
       xs = [MqReceive, MqSend ''a'', MqSend ''b'', MqSend ''c'', MqReceive]
   in mq_calls queue_os 3 1000 q xs [] = ([''a'', ''b''], [''a''], [''b'']) \<and>
     [] @ [''a'', ''b''] = [''a''] @ [''b'']"
proof -
  let ?q = "(new_message_queue ''/q'' 2 8)\<lparr>mDescriptor := 3\<rparr>"
  let ?xs = "[MqReceive, MqSend ''a'', MqSend ''b'', MqSend ''c'', MqReceive]"
  have os: "queue_contents queue_os (mDescriptor ?q) (\<lambda>w. w)"
    by (auto simp: queue_contents_def queue_os_def failing_os_def split: list.splits)
  have run: "mq_calls queue_os 3 1000 ?q ?xs [] = ([''a'', ''b''], [''a''], [''b''])"
    by (simp add: mq_send_def mq_receive_def mq_alive_def queue_os_def failing_os_def numeral_3_eq_3)
  from mq_exactly_once[OF os run] run show ?thesis
    unfolding Let_def by blast
qed

subsection \<open>The number of system calls\<close>

text \<open>\<open>tries\<close> counts the calls on queues.\<close>

definition queue_tries :: "'w syscall \<Rightarrow> ('w \<Rightarrow> nat) \<Rightarrow> bool" where
  "queue_tries os tries \<longleftrightarrow>
     (\<forall>d m k t w. tries (snd (sc_mq_timedsend os d m k t w)) = Suc (tries w)) \<and>
     (\<forall>d k t w. tries (snd (sc_mq_timedreceive os d k t w)) = Suc (tries w)) \<and>
     (\<forall>n c k l w. tries (snd (sc_mq_open os n c k l w)) = Suc (tries w)) \<and>
     (\<forall>w. tries (snd (sc_clock_gettime os w)) = tries w) \<and>
     (\<forall>t w. tries (sc_sleep os t w) = tries w)"

lemma queue_triesD:
  assumes "queue_tries os tries"
  shows "sc_mq_timedsend os d m k t w = (r, w1) \<Longrightarrow> tries w1 = Suc (tries w)"
    "sc_mq_timedreceive os d k t w = (r2, w1) \<Longrightarrow> tries w1 = Suc (tries w)"
    "sc_mq_open os n c k l w = (r3, w1) \<Longrightarrow> tries w1 = Suc (tries w)"
    "sc_clock_gettime os w = (r4, w1) \<Longrightarrow> tries w1 = tries w"
    "tries (sc_sleep os t w) = tries w"
  using assms unfolding queue_tries_def by (metis snd_conv)+

lemma mq_send_loop_tries:
  assumes os: "queue_tries os tries"
  shows "tries (snd (mq_send_loop os m secs n q w)) \<le> tries w + n"
proof (induction n arbitrary: w)
  case (Suc n)
  obtain rc sec wa where a: "sc_clock_gettime os w = ((rc, sec), wa)"
    by (cases "sc_clock_gettime os w") force
  obtain res e wb where
    b: "sc_mq_timedsend os (mDescriptor q) m (mMessageSize q) (sec + secs) wa = ((res, e), wb)"
    by (cases "sc_mq_timedsend os (mDescriptor q) m (mMessageSize q) (sec + secs) wa") force
  show ?case
    using Suc.IH[of wb] queue_triesD(1)[OF os b] queue_triesD(4)[OF os a] by (simp add: a b)
qed simp

lemma mq_receive_loop_tries:
  assumes os: "queue_tries os tries"
  shows "tries (snd (snd (mq_receive_loop os secs n q w))) \<le> tries w + n"
proof (induction n arbitrary: w)
  case (Suc n)
  obtain rc sec wa where a: "sc_clock_gettime os w = ((rc, sec), wa)"
    by (cases "sc_clock_gettime os w") force
  obtain res e x wb where
    b: "sc_mq_timedreceive os (mDescriptor q) (mMessageSize q) (sec + secs) wa = ((res, e, x), wb)"
    by (cases "sc_mq_timedreceive os (mDescriptor q) (mMessageSize q) (sec + secs) wa") force
  show ?case
    using Suc.IH[of wb] queue_triesD(2)[OF os b] queue_triesD(4)[OF os a] by (simp add: a b)
qed simp

lemma mq_attach_tries:
  assumes os: "queue_tries os tries"
  shows "mq_attach os t n q w = (q1, w1) \<Longrightarrow> tries w1 \<le> tries w + n \<and>
    (mDescriptor q = -1 \<and> mDescriptor q1 = -1 \<longrightarrow> tries w1 = tries w + n)"
proof (induction n arbitrary: q w)
  case (Suc n)
  obtain d wa where a: "sc_mq_open os (mq_name q) False (mQueueSize q) (mMessageSize q) w = (d, wa)"
    by (cases "sc_mq_open os (mq_name q) False (mQueueSize q) (mMessageSize q) w")
  show ?case
    using Suc.prems Suc.IH[of "q\<lparr>mDescriptor := d\<rparr>" "sc_sleep os t wa"] queue_triesD(3)[OF os a]
      queue_triesD(5)[OF os, of t wa]
    by (auto simp: a Let_def split: if_splits)
qed auto

text \<open>
  \<open>send\<close>, \<open>receive\<close> and \<open>open\<close> make at most as many calls on the queue as they have attempts,
  none when the queue is not in the state they need, and \<open>open\<close> gives up only after using them all.
\<close>

theorem mq_attempts:
  assumes "queue_tries os tries"
  shows "tries (snd (mq_send os attempts timeoutMs m q w)) \<le> tries w + attempts \<and>
    tries (snd (snd (mq_receive os attempts timeoutMs q w))) \<le> tries w + attempts \<and>
    (\<not> mq_alive q \<longrightarrow> mq_send os attempts timeoutMs m q w = (False, w) \<and>
       mq_receive os attempts timeoutMs q w = (False, None, w)) \<and>
    (\<forall>r q1 w1. mq_open os attempts timeoutMs q w = (r, q1, w1) \<longrightarrow>
       (if mq_alive q then \<not> r \<and> w1 = w
        else r = mq_alive q1 \<and> tries w1 \<le> tries w + attempts \<and>
          (\<not> r \<longrightarrow> tries w1 = tries w + attempts)))"
proof -
  have "if mq_alive q then \<not> r \<and> w1 = w
      else r = mq_alive q1 \<and> tries w1 \<le> tries w + attempts \<and> (\<not> r \<longrightarrow> tries w1 = tries w + attempts)"
    if "mq_open os attempts timeoutMs q w = (r, q1, w1)" for r q1 w1
    using that mq_attach_tries[OF assms, of timeoutMs attempts q w]
    by (auto simp: mq_open_def mq_alive_def split: if_splits prod.splits)
  then have "\<forall>r q1 w1. mq_open os attempts timeoutMs q w = (r, q1, w1) \<longrightarrow>
      (if mq_alive q then \<not> r \<and> w1 = w
       else r = mq_alive q1 \<and> tries w1 \<le> tries w + attempts \<and> (\<not> r \<longrightarrow> tries w1 = tries w + attempts))"
    by blast
  moreover have "tries (snd (mq_send os attempts timeoutMs m q w)) \<le> tries w + attempts"
    "tries (snd (snd (mq_receive os attempts timeoutMs q w))) \<le> tries w + attempts"
    using mq_send_loop_tries[OF assms] mq_receive_loop_tries[OF assms]
    by (simp_all add: mq_send_def mq_receive_def)
  moreover have "\<not> mq_alive q \<longrightarrow> mq_send os attempts timeoutMs m q w = (False, w) \<and>
      mq_receive os attempts timeoutMs q w = (False, None, w)"
    by (simp add: mq_send_def mq_receive_def)
  ultimately show ?thesis
    by blast
qed

theorem mq_attempts_witness:
  "let q = (new_message_queue ''/q'' 2 8)\<lparr>mDescriptor := 3\<rparr>;
       os = failing_os\<lparr>sc_clock_gettime := \<lambda>w. ((0, 5), w),
         sc_mq_timedsend := \<lambda>d m k t w. ((-1, EAGAIN), Suc w),
         sc_mq_timedreceive := \<lambda>d k t w. ((-1, EAGAIN, ''''), Suc w),
         sc_mq_open := \<lambda>n c k l w. (-1, Suc w)\<rparr>
   in snd (mq_send os 3 1000 ''a'' q 0) \<le> 3 \<and> mq_send os 3 1000 ''a'' q 0 = (False, 3)"
proof -
  let ?q = "(new_message_queue ''/q'' 2 8)\<lparr>mDescriptor := 3\<rparr>"
  let ?os = "failing_os\<lparr>sc_clock_gettime := \<lambda>w. ((0, 5), w),
         sc_mq_timedsend := \<lambda>d m k t w. ((-1, EAGAIN), Suc w),
         sc_mq_timedreceive := \<lambda>d k t w. ((-1, EAGAIN, ''''), Suc w),
         sc_mq_open := \<lambda>n c k l w. (-1, Suc w)\<rparr>"
  have os: "queue_tries ?os (\<lambda>w. w)"
    by (simp add: queue_tries_def failing_os_def)
  have "mq_send ?os 3 1000 ''a'' ?q 0 = (False, 3)"
    by (simp add: mq_send_def mq_alive_def failing_os_def numeral_3_eq_3)
  moreover from mq_attempts[OF os, of 3 1000 "''a''" ?q 0] have "snd (mq_send ?os 3 1000 ''a'' ?q 0) \<le> 3"
    by simp
  ultimately show ?thesis
    unfolding Let_def by blast
qed

end
