(* ===== verification/Named_Pipe.thy ===== *)
theory Named_Pipe
  imports Syscall
begin

text \<open>
  \<open>TTUtilsNamedPipe\<close> (utils/src/TTUtilsNamedPipe.cpp): the named pipe from the text box to the
  engine.  Each method is a function on the object and the world; \<open>None\<close> is the exception of
  \<open>value()\<close> on the descriptor of a pipe that is not open.

  The lemmas show who removes the pipe's name from the file system and when, and that a message
  written is read once, in order.
\<close>

subsection \<open>State\<close>

record named_pipe =
  mNamedPipePath :: string
  np_messageSize :: nat
  mNamedPipeDescriptor :: "int option"

definition new_named_pipe :: "string \<Rightarrow> nat \<Rightarrow> named_pipe" where
  "new_named_pipe path messageSize =
     \<lparr>mNamedPipePath = path, np_messageSize = messageSize, mNamedPipeDescriptor = None\<rparr>"

definition pipe_alive :: "named_pipe \<Rightarrow> bool" where
  "pipe_alive p \<longleftrightarrow> mNamedPipeDescriptor p \<noteq> None"

subsection \<open>Operations\<close>

definition pipe_destruct :: "'w syscall \<Rightarrow> named_pipe \<Rightarrow> 'w \<Rightarrow> named_pipe \<times> 'w" where
  "pipe_destruct os p w =
     (let (p1, w1) =
            (case mNamedPipeDescriptor p of
               None \<Rightarrow> (p, w)
             | Some fd \<Rightarrow> (p\<lparr>mNamedPipeDescriptor := None\<rparr>, snd (sc_close os fd w)))
      in if mNamedPipePath p1 \<noteq> []
         then (p1\<lparr>mNamedPipePath := ''''\<rparr>, snd (sc_unlink os (mNamedPipePath p1) w1))
         else (p1, w1))"

text \<open>The loops of \<open>create\<close> (for writing, without blocking) and of \<open>open\<close> (for reading).\<close>

fun pipe_attach ::
  "'w syscall \<Rightarrow> string \<Rightarrow> bool \<Rightarrow> int \<Rightarrow> nat \<Rightarrow> int \<Rightarrow> 'w \<Rightarrow> int \<times> 'w" where
  "pipe_attach os path write_only timeoutMs 0 descriptor w = (descriptor, w)"
| "pipe_attach os path write_only timeoutMs (Suc attempt) descriptor w =
     (let (d, w1) = sc_open os path write_only w in
      if -1 < d then (d, w1)
      else pipe_attach os path write_only timeoutMs attempt d (sc_sleep os timeoutMs w1))"

definition pipe_create ::
  "'w syscall \<Rightarrow> nat \<Rightarrow> int \<Rightarrow> named_pipe \<Rightarrow> 'w \<Rightarrow> bool \<times> named_pipe \<times> 'w" where
  "pipe_create os attempts timeoutMs p w =
     (if pipe_alive p then (False, p, w)
      else let (code, w1) = sc_mkfifo os (mNamedPipePath p) w in
        if code < 0 then (False, p, w1)
        else let (descriptor, w2) = pipe_attach os (mNamedPipePath p) True timeoutMs attempts (-1) w1 in
          if descriptor < 0 then (False, p, w2)
          else (True, p\<lparr>mNamedPipeDescriptor := Some descriptor\<rparr>, w2))"

definition pipe_open ::
  "'w syscall \<Rightarrow> nat \<Rightarrow> int \<Rightarrow> named_pipe \<Rightarrow> 'w \<Rightarrow> bool \<times> named_pipe \<times> 'w" where
  "pipe_open os attempts timeoutMs p w =
     (if pipe_alive p then (False, p, w)
      else let path = mNamedPipePath p;
               p1 = p\<lparr>mNamedPipePath := ''''\<rparr>;
               (descriptor, w1) = pipe_attach os path False timeoutMs attempts (-1) w in
          if descriptor < 0 then (False, p1, w1)
          else (True, p1\<lparr>mNamedPipeDescriptor := Some descriptor\<rparr>, w1))"

text \<open>The bytes read, which may be fewer than asked for, and none at the end of the pipe.\<close>

definition pipe_receive :: "'w syscall \<Rightarrow> named_pipe \<Rightarrow> 'w \<Rightarrow> (bool \<times> string \<times> 'w) option" where
  "pipe_receive os p w =
     (case mNamedPipeDescriptor p of
        None \<Rightarrow> None
      | Some fd \<Rightarrow>
          (let ((code, message), w1) = sc_read os fd (np_messageSize p) w in
           if code < 0 then Some (False, '''', w1) else Some (True, message, w1)))"

definition pipe_send :: "'w syscall \<Rightarrow> string \<Rightarrow> named_pipe \<Rightarrow> 'w \<Rightarrow> (bool \<times> 'w) option" where
  "pipe_send os message p w =
     (case mNamedPipeDescriptor p of
        None \<Rightarrow> None
      | Some fd \<Rightarrow>
          (let (code, w1) = sc_write os fd message (np_messageSize p) w in
           if code < 0 then Some (False, w1) else Some (True, w1)))"

subsection \<open>Who removes the pipe\<close>

text \<open>The documented effect on the paths that exist.\<close>

definition pipe_paths :: "'w syscall \<Rightarrow> ('w \<Rightarrow> string set) \<Rightarrow> bool" where
  "pipe_paths os paths \<longleftrightarrow>
     (\<forall>p w. paths (snd (sc_mkfifo os p w)) =
        (if fst (sc_mkfifo os p w) < 0 then paths w else insert p (paths w))) \<and>
     (\<forall>p w. paths (snd (sc_unlink os p w)) = paths w - {p}) \<and>
     (\<forall>p r w. paths (snd (sc_open os p r w)) = paths w) \<and>
     (\<forall>d w. paths (snd (sc_close os d w)) = paths w) \<and>
     (\<forall>t w. paths (sc_sleep os t w) = paths w)"

lemma pipe_pathsD:
  assumes "pipe_paths os paths"
  shows "sc_mkfifo os p w = (c, w1) \<Longrightarrow> paths w1 = (if c < 0 then paths w else insert p (paths w))"
    "paths (snd (sc_unlink os p w)) = paths w - {p}"
    "sc_open os p r w = (d, w1) \<Longrightarrow> paths w1 = paths w"
    "paths (snd (sc_close os fd w)) = paths w"
    "paths (sc_sleep os t w) = paths w"
  using assms unfolding pipe_paths_def by (metis fst_conv snd_conv)+

lemma pipe_attach_paths:
  assumes os: "pipe_paths os paths"
  shows "pipe_attach os path wo t n d w = (d1, w1) \<Longrightarrow> paths w1 = paths w"
proof (induction n arbitrary: d w)
  case (Suc n)
  obtain e wa where a: "sc_open os path wo w = (e, wa)"
    by (cases "sc_open os path wo w")
  show ?case
    using Suc.prems Suc.IH[of e "sc_sleep os t wa"] pipe_pathsD(3)[OF os a] pipe_pathsD(5)[OF os]
    by (simp add: a split: if_splits)
qed simp

lemma pipe_destruct_paths:
  assumes os: "pipe_paths os paths" and run: "pipe_destruct os p w = (p1, w1)"
  shows "paths w1 = paths w - (if mNamedPipePath p = [] then {} else {mNamedPipePath p})"
  using run pipe_pathsD(2)[OF os] pipe_pathsD(4)[OF os]
  by (auto simp: pipe_destruct_def split: option.splits if_splits)

lemma pipe_create_paths:
  assumes os: "pipe_paths os paths"
    and run: "pipe_create os attempts timeoutMs (new_named_pipe path bytes) w = (r, p, w1)"
  shows "mNamedPipePath p = path \<and> r = pipe_alive p \<and>
    (paths w1 = paths w \<or> paths w1 = insert path (paths w))"
proof -
  obtain c wa where a: "sc_mkfifo os path w = (c, wa)"
    by (cases "sc_mkfifo os path w")
  obtain fd wb where b: "pipe_attach os path True timeoutMs attempts (-1) wa = (fd, wb)"
    by (cases "pipe_attach os path True timeoutMs attempts (-1) wa")
  have "mNamedPipePath p = path \<and> r = pipe_alive p" "paths w1 = paths wa \<or> paths w1 = paths wb"
    using run by (auto simp: pipe_create_def pipe_alive_def new_named_pipe_def a b split: if_splits)
  moreover have "paths wa = paths w \<or> paths wa = insert path (paths w)" "paths wb = paths wa"
    using pipe_pathsD(1)[OF os a] pipe_attach_paths[OF os b] by (simp_all split: if_splits)
  ultimately show ?thesis
    by auto
qed

text \<open>
  The end that created the named pipe removes its path when it is destroyed, the end that opened it
  never does; and an end whose \<open>create\<close> failed because the path already existed removes it just
  the same, although it belongs to somebody else.
\<close>

theorem pipe_cleanup:
  assumes "pipe_paths os paths" "path \<noteq> []"
    and "pipe_destruct os p w1 = (p1, w2)"
  shows "(pipe_create os attempts timeoutMs (new_named_pipe path bytes) w = (r, p, w1) \<longrightarrow>
      paths w2 = paths w - {path}) \<and>
    (pipe_open os attempts timeoutMs (new_named_pipe path bytes) w = (r, p, w1) \<longrightarrow>
      paths w2 = paths w)"
proof (intro conjI impI)
  note d = pipe_destruct_paths[OF assms(1,3)]
  assume run: "pipe_create os attempts timeoutMs (new_named_pipe path bytes) w = (r, p, w1)"
  from pipe_create_paths[OF assms(1) run] d assms(2) show "paths w2 = paths w - {path}"
    by auto
next
  note d = pipe_destruct_paths[OF assms(1,3)]
  assume run: "pipe_open os attempts timeoutMs (new_named_pipe path bytes) w = (r, p, w1)"
  obtain fd wb where b: "pipe_attach os path False timeoutMs attempts (-1) w = (fd, wb)"
    by (cases "pipe_attach os path False timeoutMs attempts (-1) w")
  have "mNamedPipePath p = []" "w1 = wb"
    using run by (auto simp: pipe_open_def pipe_alive_def new_named_pipe_def Let_def b split: if_splits)
  with d pipe_attach_paths[OF assms(1) b] show "paths w2 = paths w"
    by simp
qed

text \<open>A file system on which a path can be made once.\<close>

definition paths_os :: "string list syscall" where
  "paths_os = failing_os\<lparr>
     sc_mkfifo := \<lambda>p w. if p \<in> set w then (-1, w) else (0, p # w),
     sc_unlink := \<lambda>p w. (0, removeAll p w)\<rparr>"

theorem pipe_cleanup_witness:
  "\<exists>p. pipe_create paths_os 5 1000 (new_named_pipe ''/tmp/x-pipe'' 2056) [''/tmp/x-pipe''] =
      (False, p, [''/tmp/x-pipe'']) \<and>
    set (snd (pipe_destruct paths_os p [''/tmp/x-pipe''])) = {}"
proof -
  let ?p = "new_named_pipe ''/tmp/x-pipe'' 2056" and ?w = "[''/tmp/x-pipe'']"
  have os: "pipe_paths paths_os set"
    by (auto simp: pipe_paths_def paths_os_def failing_os_def)
  have run: "pipe_create paths_os 5 1000 ?p ?w = (False, ?p, ?w)"
    by (simp add: pipe_create_def pipe_alive_def new_named_pipe_def paths_os_def)
  obtain p1 w2 where d: "pipe_destruct paths_os ?p ?w = (p1, w2)"
    by (cases "pipe_destruct paths_os ?p ?w")
  from pipe_cleanup[OF os _ d, of "''/tmp/x-pipe''" 5 1000 2056 ?w False] run
  have "set w2 = {}"
    by simp
  with run d show ?thesis
    by auto
qed

subsection \<open>Messages\<close>

text \<open>
  The documented effect on the bytes in the pipe, for the descriptors of its two ends: a write
  of a message no longer than \<open>PIPE_BUF\<close> writes all of it or fails, a read takes bytes from the
  front.  As every message has the same size, bytes are counted in messages.
\<close>

definition pipe_contents :: "'w syscall \<Rightarrow> int \<Rightarrow> int \<Rightarrow> nat \<Rightarrow> ('w \<Rightarrow> string list) \<Rightarrow> bool" where
  "pipe_contents os out_end in_end bytes contents \<longleftrightarrow>
     (\<forall>m w. length m = bytes \<longrightarrow> contents (snd (sc_write os out_end m bytes w)) =
        (if fst (sc_write os out_end m bytes w) < 0 then contents w else contents w @ [m])) \<and>
     (\<forall>w. if fst (fst (sc_read os in_end bytes w)) \<le> 0
        then contents (snd (sc_read os in_end bytes w)) = contents w \<and>
             snd (fst (sc_read os in_end bytes w)) = []
        else contents w = snd (fst (sc_read os in_end bytes w)) # contents (snd (sc_read os in_end bytes w)))"

text \<open>What the two ends do with the pipe; the messages sent, and what was read.\<close>

datatype pipe_op = PipeSend string | PipeReceive

fun pipe_calls ::
  "'w syscall \<Rightarrow> named_pipe \<Rightarrow> named_pipe \<Rightarrow> pipe_op list \<Rightarrow> 'w \<Rightarrow>
   (string list \<times> string list \<times> 'w) option" where
  "pipe_calls os out_end in_end [] w = Some ([], [], w)"
| "pipe_calls os out_end in_end (PipeSend m # xs) w = do {
     (r, w1) \<leftarrow> pipe_send os m out_end w;
     (sent, received, w2) \<leftarrow> pipe_calls os out_end in_end xs w1;
     Some (if r then m # sent else sent, received, w2)
   }"
| "pipe_calls os out_end in_end (PipeReceive # xs) w = do {
     (r, m, w1) \<leftarrow> pipe_receive os in_end w;
     (sent, received, w2) \<leftarrow> pipe_calls os out_end in_end xs w1;
     Some (sent, if r \<and> m \<noteq> [] then m # received else received, w2)
   }"

text \<open>
  The messages read from the named pipe are those for which \<open>send\<close> reported success, whole and in
  order, and \<open>send\<close> and \<open>receive\<close> on an open pipe never throw; what is left is still in the pipe.
\<close>

theorem pipe_in_order:
  assumes "pipe_contents os fd1 fd2 bytes contents" "0 < bytes"
    and "mNamedPipeDescriptor out_end = Some fd1" "np_messageSize out_end = bytes"
    and "mNamedPipeDescriptor in_end = Some fd2" "np_messageSize in_end = bytes"
    and "\<forall>m. PipeSend m \<in> set xs \<longrightarrow> length m = bytes" "[] \<notin> set (contents w)"
  shows "\<exists>sent received w1. pipe_calls os out_end in_end xs w = Some (sent, received, w1) \<and>
    contents w @ sent = received @ contents w1"
  using assms(7,8)
proof (induction xs arbitrary: w)
  case (Cons x xs)
  note os = assms(1)[unfolded pipe_contents_def]
  show ?case
  proof (cases x)
    case (PipeSend m)
    obtain c wa where a: "sc_write os fd1 m bytes w = (c, wa)"
      by (cases "sc_write os fd1 m bytes w")
    have m: "length m = bytes"
      using Cons.prems(1) PipeSend by simp
    then have c: "contents wa = (if c < 0 then contents w else contents w @ [m])"
      using os a by (metis fst_conv snd_conv)
    moreover have "[] \<notin> set (contents wa)"
      using c Cons.prems(2) m assms(2) by auto
    ultimately show ?thesis
      using Cons.IH[of wa] Cons.prems(1) PipeSend assms(3,4) a
      by (fastforce simp: pipe_send_def)
  next
    case PipeReceive
    obtain c m wa where a: "sc_read os fd2 bytes w = ((c, m), wa)"
      by (cases "sc_read os fd2 bytes w") force
    have c: "if c \<le> 0 then contents wa = contents w \<and> m = [] else contents w = m # contents wa"
      using os a by (metis fst_conv snd_conv)
    then have "[] \<notin> set (contents wa)" "0 < c \<longrightarrow> m \<noteq> []"
      using Cons.prems(2) by (auto split: if_splits)
    with c show ?thesis
      using Cons.IH[of wa] Cons.prems(1) PipeReceive assms(5,6) a
      by (fastforce simp: pipe_receive_def split: if_splits)
  qed
qed simp

text \<open>A system with one pipe, which holds at most one message.\<close>

definition pipe_os :: "string list syscall" where
  "pipe_os = failing_os\<lparr>
     sc_write := \<lambda>d m k w. if w = [] then (int k, [m]) else (-1, w),
     sc_read := \<lambda>d k w. case w of [] \<Rightarrow> ((0, ''''), []) | m # ms \<Rightarrow> ((int k, m), ms)\<rparr>"

theorem pipe_in_order_witness:
  "let p = (new_named_pipe ''/tmp/x-pipe'' 1)\<lparr>mNamedPipeDescriptor := Some 3\<rparr>;
       xs = [PipeReceive, PipeSend ''a'', PipeSend ''b'', PipeReceive, PipeSend ''c'']
   in pipe_calls pipe_os p p xs [] = Some ([''a'', ''c''], [''a''], [''c'']) \<and>
     (\<exists>sent received w1. pipe_calls pipe_os p p xs [] = Some (sent, received, w1) \<and>
       [] @ sent = received @ w1)"
proof -
  let ?p = "(new_named_pipe ''/tmp/x-pipe'' 1)\<lparr>mNamedPipeDescriptor := Some 3\<rparr>"
  let ?xs = "[PipeReceive, PipeSend ''a'', PipeSend ''b'', PipeReceive, PipeSend ''c'']"
  have os: "pipe_contents pipe_os 3 3 1 (\<lambda>w. w)"
    by (auto simp: pipe_contents_def pipe_os_def failing_os_def split: list.splits)
  have run: "pipe_calls pipe_os ?p ?p ?xs [] = Some ([''a'', ''c''], [''a''], [''c''])"
    by (simp add: pipe_send_def pipe_receive_def pipe_os_def failing_os_def new_named_pipe_def)
  have "\<exists>sent received w1. pipe_calls pipe_os ?p ?p ?xs [] = Some (sent, received, w1) \<and>
      [] @ sent = received @ w1"
    by (rule pipe_in_order[OF os]) (auto simp: new_named_pipe_def)
  with run show ?thesis
    unfolding Let_def by blast
qed

end
