(* ===== verification/Settings.thy ===== *)
theory Settings
  imports Cxx_Text Shared_Mem Message_Queue Named_Pipe
begin

text \<open>
  The command lines: \<open>TTContactsSettings\<close>, \<open>TTChatSettings\<close>, \<open>TTTextBoxSettings\<close> and, for the engine,
  \<open>TTEngineSettings\<close> with its \<open>TTNetworkInterface\<close>.  A constructor is a function from the
  arguments, with the program's name first; an exception is \<open>Inl\<close> with its text.  \<open>None\<close> is what C++
  leaves undefined, the first character of an empty string.  \<open>inet_pton\<close> is a parameter.

  The lemmas show which command lines are accepted, that numbers are read as they were
  printed, and that an engine and the windows started with its names use the same shared memory,
  queues and pipe.
\<close>

subsection \<open>\<open>TTContactsSettings\<close>\<close>

record contacts_settings =
  cst_width :: u64
  cst_height :: u64
  cst_name :: string

definition new_contacts_settings :: "string list \<Rightarrow> string + contacts_settings" where
  "new_contacts_settings argv =
     (if length argv \<noteq> 4 then Inl ''TTContactsSettings: Invalid number of arguments''
      else let widthStr = argv ! 1 in
        case stream_size widthStr of
          None \<Rightarrow> Inl (''TTContactsSettings: Invalid terminal emulator width='' @ widthStr)
        | Some width \<Rightarrow>
            let heightStr = argv ! 2 in
            case stream_size heightStr of
              None \<Rightarrow> Inl (''TTContactsSettings: Invalid terminal emulator height='' @ heightStr)
            | Some height \<Rightarrow> Inr \<lparr>cst_width = width, cst_height = height, cst_name = argv ! 3\<rparr>)"

text \<open>\<open>sizeof(TTContactsMessage)\<close> with the alignment of the x86-64 ABI.\<close>

definition sizeof_contacts_message :: nat where
  "sizeof_contacts_message = 288"

definition contacts_getSharedMemory :: "contacts_settings \<Rightarrow> shared_mem" where
  "contacts_getSharedMemory s =
     (let dataConsumedSemName = cst_name s @ ''-data-consumed'';
          dataProducedSemName = cst_name s @ ''-data-produced''
      in new_shared_mem (cst_name s) dataConsumedSemName dataProducedSemName sizeof_contacts_message)"

subsection \<open>\<open>TTChatSettings\<close>\<close>

record chat_settings =
  hst_width :: nat
  hst_height :: nat
  mMessageQueueName :: string

definition new_chat_settings :: "string list \<Rightarrow> (string + chat_settings) option" where
  "new_chat_settings argv =
     (if length argv \<noteq> 4 then Some (Inl ''TTChatSettings: Invalid number of arguments'')
      else case from_chars (argv ! 1) of
        Inl ec \<Rightarrow> Some (Inl (''TTChatSettings: Invalid terminal emulator width='' @ argv ! 1))
      | Inr width \<Rightarrow>
          (case from_chars (argv ! 2) of
             Inl ec \<Rightarrow> Some (Inl (''TTChatSettings: Invalid terminal emulator height='' @ argv ! 2))
           | Inr height \<Rightarrow>
               if argv ! 3 = [] then None
               else Some (Inr \<lparr>hst_width = width, hst_height = height,
                 mMessageQueueName =
                   (if hd (argv ! 3) \<noteq> CHR ''/'' then ''/'' @ argv ! 3 else argv ! 3)\<rparr>)))"

text \<open>\<open>sizeof(TTChatMessage)\<close> with the alignment of the x86-64 ABI.\<close>

definition sizeof_chat_message :: nat where
  "sizeof_chat_message = 2072"

definition getPrimaryMessageQueue :: "chat_settings \<Rightarrow> message_queue" where
  "getPrimaryMessageQueue s =
     new_message_queue (mMessageQueueName s @ ''-primary'') 8 sizeof_chat_message"

definition getSecondaryMessageQueue :: "chat_settings \<Rightarrow> message_queue" where
  "getSecondaryMessageQueue s =
     new_message_queue (mMessageQueueName s @ ''-secondary'') 8 sizeof_chat_message"

subsection \<open>\<open>TTTextBoxSettings\<close>\<close>

record textbox_settings =
  xst_width :: u64
  xst_height :: u64
  mUniquePath :: string

definition new_textbox_settings :: "string list \<Rightarrow> string + textbox_settings" where
  "new_textbox_settings argv =
     (if length argv \<noteq> 4 then Inl ''TTTextBoxSettings: Invalid number of arguments''
      else let widthStr = argv ! 1 in
        case stream_size widthStr of
          None \<Rightarrow> Inl (''TTTextBoxSettings: Invalid terminal emulator width='' @ widthStr)
        | Some width \<Rightarrow>
            let heightStr = argv ! 2 in
            case stream_size heightStr of
              None \<Rightarrow> Inl (''TTTextBoxSettings: Invalid terminal emulator height='' @ heightStr)
            | Some height \<Rightarrow>
                Inr \<lparr>xst_width = width, xst_height = height,
                     mUniquePath = ''/tmp/'' @ argv ! 3 @ ''-pipe''\<rparr>)"

text \<open>\<open>sizeof(TTTextBoxMessage)\<close>.\<close>

definition sizeof_textbox_message :: nat where
  "sizeof_textbox_message = 2056"

definition getNamedPipe :: "textbox_settings \<Rightarrow> named_pipe" where
  "getNamedPipe s = new_named_pipe (mUniquePath s) sizeof_textbox_message"

subsection \<open>\<open>TTEngineSettings\<close>\<close>

record network_interface =
  ni_name :: string
  ni_ipAddress :: string
  ni_port :: string

definition getIpAddressAndPort :: "network_interface \<Rightarrow> string" where
  "getIpAddressAndPort i = ni_ipAddress i @ '':'' @ ni_port i"

record engine_settings =
  est_contacts :: contacts_settings
  est_chat :: chat_settings
  est_textbox :: textbox_settings
  est_nickname :: string
  est_identity :: string
  est_interface :: network_interface
  est_neighbors :: "string list"

text \<open>The loop over the neighbors' addresses.\<close>

fun read_neighbors :: "(string \<Rightarrow> int) \<Rightarrow> string list \<Rightarrow> string + string list" where
  "read_neighbors inet_pton [] = Inr []"
| "read_neighbors inet_pton (neighbor # rest) =
     (if inet_pton neighbor = 0
      then Inl (''TTEngineSettings: Invalid neighbor IPv4 address='' @ neighbor)
      else case read_neighbors inet_pton rest of
        Inl err \<Rightarrow> Inl err | Inr ns \<Rightarrow> Inr (neighbor # ns))"

text \<open>The checks of the host's address and port.\<close>

definition read_interface :: "(string \<Rightarrow> int) \<Rightarrow> string list \<Rightarrow> string + network_interface" where
  "read_interface inet_pton argv =
     (let name = argv ! 6; ipAddress = argv ! 7 in
      if inet_pton ipAddress = 0 then Inl (''TTEngineSettings: Invalid IPv4 address='' @ ipAddress)
      else case from_chars (argv ! 8) of
        Inl ec \<Rightarrow> Inl (''TTEngineSettings: Invalid port='' @ argv ! 8)
      | Inr port \<Rightarrow>
          if port > 65535 then Inl (''TTEngineSettings: Invalid (out of range) port='' @ argv ! 8)
          else Inr \<lparr>ni_name = name, ni_ipAddress = ipAddress, ni_port = argv ! 8\<rparr>)"

definition new_engine_settings ::
  "(string \<Rightarrow> int) \<Rightarrow> string list \<Rightarrow> (string + engine_settings) option" where
  "new_engine_settings inet_pton argv =
     (if length argv < 9 then Some (Inl ''TTEngineSettings: Insufficient number of arguments'')
      else case new_contacts_settings [argv ! 0, ''0'', ''0'', argv ! 1] of
        Inl err \<Rightarrow> Some (Inl err)
      | Inr contacts \<Rightarrow>
          (case new_chat_settings [argv ! 0, ''0'', ''0'', argv ! 2] of
             None \<Rightarrow> None
           | Some (Inl err) \<Rightarrow> Some (Inl err)
           | Some (Inr chat) \<Rightarrow>
               (case new_textbox_settings [argv ! 0, ''0'', ''0'', argv ! 3] of
                  Inl err \<Rightarrow> Some (Inl err)
                | Inr textbox \<Rightarrow>
                    (case read_interface inet_pton argv of
                       Inl err \<Rightarrow> Some (Inl err)
                     | Inr interface \<Rightarrow>
                         (case read_neighbors inet_pton (drop 9 argv) of
                            Inl err \<Rightarrow> Some (Inl err)
                          | Inr neighbors \<Rightarrow>
                              Some (Inr \<lparr>est_contacts = contacts, est_chat = chat,
                                est_textbox = textbox, est_nickname = argv ! 4,
                                est_identity = argv ! 5, est_interface = interface,
                                est_neighbors = neighbors\<rparr>))))))"

subsection \<open>Reading numbers\<close>

lemma is_digit_not_space: "is_digit c \<Longrightarrow> \<not> is_space c"
  by (auto simp: is_digit_def is_space_def)

lemma is_digit_not_sign: "is_digit c \<Longrightarrow> c \<noteq> CHR ''-'' \<and> c \<noteq> CHR ''+''"
  by (auto simp: is_digit_def)

lemma stream_size_to_string: "n < SIZE_MAX1 \<Longrightarrow> stream_size (to_string n) = Some (of_nat n)"
proof -
  assume n: "n < SIZE_MAX1"
  obtain c s where s: "to_string n = c # s"
    using to_string_nonempty by (cases "to_string n") blast+
  have digits: "list_all is_digit (c # s)"
    using to_string_digits[of n] unfolding s .
  then have c: "is_digit c"
    by simp
  then have skip: "dropWhile is_space (c # s) = c # s"
    using is_digit_not_space by simp
  have "decimal (c # s) = n"
    using decimal_to_string[of n] unfolding s .
  with n is_digit_not_sign[OF c] show ?thesis
    unfolding s
    by (simp add: stream_size_def Let_def skip takeWhile_digits[OF digits] del: takeWhile.simps dropWhile.simps)
qed

lemma zero_arguments: "stream_size ''0'' = Some 0" "from_chars ''0'' = Inr 0"
proof -
  have "to_string 0 = ''0''"
    by code_simp
  then show "stream_size ''0'' = Some 0" "from_chars ''0'' = Inr 0"
    using stream_size_to_string[of 0] from_chars_to_string[of 0] by (simp_all add: SIZE_MAX1_def)
qed

lemma read_neighbors_eq:
  "read_neighbors inet_pton ns = Inr ms \<longleftrightarrow> ms = ns \<and> (\<forall>n \<in> set ns. inet_pton n \<noteq> 0)"
  by (induction ns arbitrary: ms) (auto split: sum.splits)

lemma read_interface_eq:
  "read_interface inet_pton argv = Inr i \<longleftrightarrow>
     i = \<lparr>ni_name = argv ! 6, ni_ipAddress = argv ! 7, ni_port = argv ! 8\<rparr> \<and> inet_pton (argv ! 7) \<noteq> 0 \<and>
     takeWhile is_digit (argv ! 8) \<noteq> [] \<and> decimal (takeWhile is_digit (argv ! 8)) \<le> 65535"
  by (auto simp: read_interface_def from_chars_def Let_def SIZE_MAX1_def split: sum.splits if_splits)

text \<open>What the engine accepts, and what it makes of it.\<close>

lemma new_engine_settings_eq:
  "new_engine_settings inet_pton argv = Some (Inr s) \<longleftrightarrow>
     9 \<le> length argv \<and> argv ! 2 \<noteq> [] \<and> inet_pton (argv ! 7) \<noteq> 0 \<and>
     takeWhile is_digit (argv ! 8) \<noteq> [] \<and> decimal (takeWhile is_digit (argv ! 8)) \<le> 65535 \<and>
     (\<forall>n \<in> set (drop 9 argv). inet_pton n \<noteq> 0) \<and>
     s = \<lparr>est_contacts = \<lparr>cst_width = 0, cst_height = 0, cst_name = argv ! 1\<rparr>,
          est_chat = \<lparr>hst_width = 0, hst_height = 0, mMessageQueueName =
            (if hd (argv ! 2) \<noteq> CHR ''/'' then ''/'' @ argv ! 2 else argv ! 2)\<rparr>,
          est_textbox = \<lparr>xst_width = 0, xst_height = 0,
            mUniquePath = ''/tmp/'' @ argv ! 3 @ ''-pipe''\<rparr>,
          est_nickname = argv ! 4, est_identity = argv ! 5,
          est_interface = \<lparr>ni_name = argv ! 6, ni_ipAddress = argv ! 7, ni_port = argv ! 8\<rparr>,
          est_neighbors = drop 9 argv\<rparr>"
proof -
  have c: "new_contacts_settings [argv ! 0, ''0'', ''0'', argv ! 1] =
      Inr \<lparr>cst_width = 0, cst_height = 0, cst_name = argv ! 1\<rparr>"
    by (simp add: new_contacts_settings_def zero_arguments)
  have x: "new_textbox_settings [argv ! 0, ''0'', ''0'', argv ! 3] =
      Inr \<lparr>xst_width = 0, xst_height = 0, mUniquePath = ''/tmp/'' @ argv ! 3 @ ''-pipe''\<rparr>"
    by (simp add: new_textbox_settings_def zero_arguments)
  have h: "new_chat_settings [argv ! 0, ''0'', ''0'', argv ! 2] =
      (if argv ! 2 = [] then None else Some (Inr \<lparr>hst_width = 0, hst_height = 0, mMessageQueueName =
         (if hd (argv ! 2) \<noteq> CHR ''/'' then ''/'' @ argv ! 2 else argv ! 2)\<rparr>))"
    by (simp add: new_chat_settings_def zero_arguments)
  let ?s = "\<lambda>i ns. \<lparr>est_contacts = \<lparr>cst_width = 0, cst_height = 0, cst_name = argv ! 1\<rparr>,
      est_chat = \<lparr>hst_width = 0, hst_height = 0, mMessageQueueName =
        (if hd (argv ! 2) \<noteq> CHR ''/'' then ''/'' @ argv ! 2 else argv ! 2)\<rparr>,
      est_textbox = \<lparr>xst_width = 0, xst_height = 0, mUniquePath = ''/tmp/'' @ argv ! 3 @ ''-pipe''\<rparr>,
      est_nickname = argv ! 4, est_identity = argv ! 5, est_interface = i, est_neighbors = ns\<rparr>"
  have "new_engine_settings inet_pton argv = Some (Inr s) \<longleftrightarrow>
      \<not> length argv < 9 \<and> argv ! 2 \<noteq> [] \<and> (\<exists>i ns. read_interface inet_pton argv = Inr i \<and>
        read_neighbors inet_pton (drop 9 argv) = Inr ns \<and> s = ?s i ns)"
    unfolding new_engine_settings_def c x h
    by (cases "length argv < 9"; cases "argv ! 2 = []"; cases "read_interface inet_pton argv";
        cases "read_neighbors inet_pton (drop 9 argv)") auto
  then show ?thesis
    unfolding read_neighbors_eq read_interface_eq by auto
qed

subsection \<open>Properties\<close>

text \<open>
  A window started with its size printed in decimal reads exactly that size, and the name as
  it was given, whichever of the three ways of parsing its program uses.
\<close>

theorem window_settings_round_trip:
  assumes "w < 2 ^ 64" "h < 2 ^ 64" "name \<noteq> []"
  shows "new_contacts_settings [p, to_string w, to_string h, name] =
      Inr \<lparr>cst_width = of_nat w, cst_height = of_nat h, cst_name = name\<rparr> \<and>
    new_textbox_settings [p, to_string w, to_string h, name] =
      Inr \<lparr>xst_width = of_nat w, xst_height = of_nat h, mUniquePath = ''/tmp/'' @ name @ ''-pipe''\<rparr> \<and>
    new_chat_settings [p, to_string w, to_string h, name] =
      Some (Inr \<lparr>hst_width = w, hst_height = h,
        mMessageQueueName = (if hd name = CHR ''/'' then name else ''/'' @ name)\<rparr>)"
proof -
  have "w < SIZE_MAX1" "h < SIZE_MAX1"
    using assms(1,2) by (simp_all add: SIZE_MAX1_def)
  then show ?thesis
    using assms(3) by (simp add: new_contacts_settings_def new_textbox_settings_def
      new_chat_settings_def stream_size_to_string from_chars_to_string)
qed

theorem window_settings_round_trip_witness:
  "new_chat_settings [''chat'', to_string 120, to_string 40, ''room''] =
    Some (Inr \<lparr>hst_width = 120, hst_height = 40, mMessageQueueName = ''/room''\<rparr>)"
  using window_settings_round_trip[of 120 40 "''room''" "''chat''"] by simp

text \<open>
  An engine and the three windows started with the names the engine was given connect: they
  use the same shared memory and semaphores, the same two queues and the same pipe, for messages of
  the same size; and no two of these objects share a name.
\<close>

theorem engine_and_windows_connect:
  assumes "new_engine_settings inet_pton argv = Some (Inr s)"
    and "new_contacts_settings [p, w, h, argv ! 1] = Inr c"
    and "new_chat_settings [p, w, h, argv ! 2] = Some (Inr t)"
    and "new_textbox_settings [p, w, h, argv ! 3] = Inr x"
  shows "contacts_getSharedMemory (est_contacts s) = contacts_getSharedMemory c \<and>
    getPrimaryMessageQueue (est_chat s) = getPrimaryMessageQueue t \<and>
    getSecondaryMessageQueue (est_chat s) = getSecondaryMessageQueue t \<and>
    getNamedPipe (est_textbox s) = getNamedPipe x \<and>
    mDataConsumedSemName (contacts_getSharedMemory c) \<noteq> mDataProducedSemName (contacts_getSharedMemory c) \<and>
    mq_name (getPrimaryMessageQueue t) \<noteq> mq_name (getSecondaryMessageQueue t) \<and>
    hd (mq_name (getPrimaryMessageQueue t)) = CHR ''/'' \<and> hd (mq_name (getSecondaryMessageQueue t)) = CHR ''/''"
proof -
  have "cst_name c = argv ! 1"
    using assms(2) by (auto simp: new_contacts_settings_def split: option.splits)
  moreover have "argv ! 2 \<noteq> []" "mMessageQueueName t =
      (if hd (argv ! 2) \<noteq> CHR ''/'' then ''/'' @ argv ! 2 else argv ! 2)"
    using assms(3) by (auto simp: new_chat_settings_def split: sum.splits if_splits)
  moreover have "mUniquePath x = ''/tmp/'' @ argv ! 3 @ ''-pipe''"
    using assms(4) by (auto simp: new_textbox_settings_def split: option.splits)
  ultimately show ?thesis
    using assms(1)[unfolded new_engine_settings_eq]
    by (auto simp: contacts_getSharedMemory_def getPrimaryMessageQueue_def getSecondaryMessageQueue_def
        getNamedPipe_def new_shared_mem_def new_message_queue_def Let_def)
qed

text \<open>A command line of an engine with one neighbor.\<close>

definition sample_argv :: "string list" where
  "sample_argv = [''engine'', ''con'', ''chat'', ''box'', ''ann'', ''id'', ''eth0'', ''10.0.0.1'', ''80'', ''10.0.0.2'']"

lemma sample_settings: "\<exists>s. new_engine_settings (\<lambda>a. 1) sample_argv = Some (Inr s)"
proof -
  have "takeWhile is_digit ''80'' = ''80''" "decimal ''80'' = 80"
    by (simp_all add: is_digit_def decimal_def digit_value_def)
  then show ?thesis
    unfolding new_engine_settings_eq by (simp add: sample_argv_def)
qed

theorem engine_and_windows_connect_witness:
  "\<exists>s c. new_engine_settings (\<lambda>a. 1) sample_argv = Some (Inr s) \<and>
    new_contacts_settings [''contacts'', to_string 80, to_string 24, ''con''] = Inr c \<and>
    contacts_getSharedMemory (est_contacts s) = contacts_getSharedMemory c"
proof -
  obtain s where s: "new_engine_settings (\<lambda>a. 1) sample_argv = Some (Inr s)"
    using sample_settings by blast
  have names: "sample_argv ! 1 = ''con''" "sample_argv ! 2 = ''chat''" "sample_argv ! 3 = ''box''"
    by (simp_all add: sample_argv_def)
  have n: "80 < SIZE_MAX1" "24 < SIZE_MAX1"
    by (simp_all add: SIZE_MAX1_def)
  obtain c t x where cs: "new_contacts_settings [''contacts'', to_string 80, to_string 24, ''con''] = Inr c"
    and rest: "new_chat_settings [''contacts'', to_string 80, to_string 24, ''chat''] = Some (Inr t)"
    "new_textbox_settings [''contacts'', to_string 80, to_string 24, ''box''] = Inr x"
    by (simp add: new_contacts_settings_def new_textbox_settings_def new_chat_settings_def
        stream_size_to_string[OF n(1)] stream_size_to_string[OF n(2)]
        from_chars_to_string[OF n(1)] from_chars_to_string[OF n(2)])
  from engine_and_windows_connect[OF s, unfolded names, OF cs rest] s cs show ?thesis
    by blast
qed

text \<open>
  The engine starts exactly with at least nine arguments, a chat name, addresses that
  \<open>inet_pton\<close> does not reject, and a port that begins with a number up to 65535; what follows the
  number is not looked at and becomes part of the port used.
\<close>

theorem engine_accepts:
  "(\<exists>s. new_engine_settings inet_pton argv = Some (Inr s) \<and>
      getIpAddressAndPort (est_interface s) = argv ! 7 @ '':'' @ argv ! 8) \<longleftrightarrow>
   9 \<le> length argv \<and> argv ! 2 \<noteq> [] \<and> inet_pton (argv ! 7) \<noteq> 0 \<and>
   takeWhile is_digit (argv ! 8) \<noteq> [] \<and> decimal (takeWhile is_digit (argv ! 8)) \<le> 65535 \<and>
   \<not> list_ex (\<lambda>n. inet_pton n = 0) (drop 9 argv)"
  unfolding new_engine_settings_eq by (auto simp: getIpAddressAndPort_def list_ex_iff)

end
