(* ===== verification/Wire.thy ===== *)
theory Wire
  imports Settings Contacts_Book Chat_Handler TextBox_Handler
begin

text \<open>
  What travels between the processes: a message is sent by its address (\<open>reinterpret_cast\<close>), so its bytes
  are those of the object in memory.  The layout is that of the x86-64 ABI: fields in the order
  of declaration, at a multiple of their alignment, the least significant byte first.  The bytes
  of the padding, and in a \<open>TTChatMessage\<close> those behind its data, are whatever the memory held; they
  are a parameter, \<open>junk\<close>.

  Reading the bytes back gives \<open>None\<close> where the code would look at memory outside the object, that
  is for a length that does not fit.  The lemmas show that a well-typed message has the size its
  queue, pipe or memory was made for and comes out as it went in, and that the three
  senders queue well-typed messages only.
\<close>

subsection \<open>Numbers\<close>

definition le_bytes :: "nat \<Rightarrow> nat \<Rightarrow> string" where
  "le_bytes k n = map (\<lambda>i. char_of (n div 256 ^ i mod 256)) [0..<k]"

definition le_value :: "string \<Rightarrow> nat" where
  "le_value bs = foldr (\<lambda>c a. of_char c + 256 * a) bs 0"

lemma length_le_bytes [simp]: "length (le_bytes k n) = k"
  by (simp add: le_bytes_def)

lemma le_value_bytes [simp]: "n < 256 ^ k \<Longrightarrow> le_value (le_bytes k n) = n"
  using bytes_fold[of n 0 k] by (simp add: le_value_def le_bytes_def)

text \<open>The field of \<open>k\<close> bytes at an offset.\<close>

definition field :: "nat \<Rightarrow> nat \<Rightarrow> string \<Rightarrow> string" where
  "field offset k bs = take k (drop offset bs)"

text \<open>Two's complement at a width of \<open>8 * k\<close> bits.\<close>

definition to_signed :: "nat \<Rightarrow> nat \<Rightarrow> int" where
  "to_signed k n = (if n < 2 ^ (8 * k - 1) then int n else int n - 2 ^ (8 * k))"

definition of_signed :: "nat \<Rightarrow> int \<Rightarrow> nat" where
  "of_signed k i = nat (i mod 2 ^ (8 * k))"

lemma of_signed_bound: "of_signed k i < 256 ^ k"
proof -
  have "i mod 2 ^ (8 * k) < 2 ^ (8 * k)"
    by simp
  then have "of_signed k i < 2 ^ (8 * k)"
    unfolding of_signed_def by (simp add: nat_less_iff)
  then show ?thesis
    by (simp add: power_mult)
qed

lemma to_of_signed:
  assumes "0 < k" "- (2 ^ (8 * k - 1)) \<le> i" "i < 2 ^ (8 * k - 1)"
  shows "to_signed k (of_signed k i) = i"
proof -
  have two: "(2 :: int) ^ (8 * k) = 2 * 2 ^ (8 * k - 1)"
    using assms(1) by (metis power_Suc Suc_diff_1 nat_0_less_mult_iff zero_less_numeral)
  show ?thesis
  proof (cases "0 \<le> i")
    case True
    then have "i mod 2 ^ (8 * k) = i"
      using assms(3) two by simp
    with True assms(3) show ?thesis
      by (simp add: to_signed_def of_signed_def nat_less_iff)
  next
    case False
    have "i mod 2 ^ (8 * k) = (i + 2 ^ (8 * k)) mod 2 ^ (8 * k)"
      by simp
    also have "\<dots> = i + 2 ^ (8 * k)"
      by (rule mod_pos_pos_trivial) (use assms(2) two False in linarith)+
    finally show ?thesis
      using assms(2) two False by (simp add: to_signed_def of_signed_def nat_less_iff)
  qed
qed

subsection \<open>\<open>TTContactsMessage\<close>\<close>

text \<open>Offsets 0, 8, 16, 24 and 28; 288 bytes with the padding before \<open>mState\<close> and at the end.\<close>

fun status_code :: "contacts_status \<Rightarrow> nat" where
  "status_code STATE = 0"
| "status_code CONTACTS_HEARTBEAT = 1"
| "status_code CONTACTS_GOODBYE = 2"
| "status_code (STATUS_OTHER n) = of_signed 4 n"

definition status_cast :: "nat \<Rightarrow> contacts_status" where
  "status_cast n =
     (if n = 0 then STATE else if n = 1 then CONTACTS_HEARTBEAT else if n = 2 then CONTACTS_GOODBYE
      else STATUS_OTHER (to_signed 4 n))"

text \<open>A value that names no enumerator of \<open>TTContactsState\<close> is \<open>None\<close>; the window would index with it.\<close>

definition state_cast :: "nat \<Rightarrow> contacts_state option" where
  "state_cast n = (if n < 8 then Some ([ACTIVE, INACTIVE, SELECTED_ACTIVE, SELECTED_INACTIVE,
     UNREAD_MSG_ACTIVE, UNREAD_MSG_INACTIVE, PENDING_MSG_INACTIVE,
     SELECTED_PENDING_MSG_INACTIVE] ! n) else None)"

definition contacts_bytes :: "(nat \<Rightarrow> char) \<Rightarrow> contacts_message \<Rightarrow> string" where
  "contacts_bytes junk m =
     le_bytes 4 (status_code (mStatus m)) @ map junk [0..<4] @
     le_bytes 8 (state_value (mState m)) @ le_bytes 8 (mIdentity m) @
     le_bytes 4 (mDataLength m) @ mData m @ map junk [4..<8]"

definition contacts_of_bytes :: "string \<Rightarrow> contacts_message option" where
  "contacts_of_bytes bs =
     (case state_cast (le_value (field 8 8 bs)) of
        None \<Rightarrow> None
      | Some st \<Rightarrow>
          let len = le_value (field 24 4 bs) in
          if TTCONTACTS_DATA_MAX_LENGTH < len then None
          else Some \<lparr>mStatus = status_cast (le_value (field 0 4 bs)), mState = st,
            mIdentity = le_value (field 16 8 bs), mDataLength = len,
            mData = field 28 TTCONTACTS_DATA_MAX_LENGTH bs\<rparr>)"

definition contacts_typed :: "contacts_message \<Rightarrow> bool" where
  "contacts_typed m \<longleftrightarrow> message_wf m \<and> mIdentity m < 2 ^ 64 \<and> (\<forall>n. mStatus m \<noteq> STATUS_OTHER n)"

lemma state_cast_value [simp]: "state_cast (state_value s) = Some s"
  by (cases s) (simp_all add: state_cast_def)

lemma fields_append:
  "length xs = n \<Longrightarrow> field n k (xs @ ys) = take k ys"
  by (simp add: field_def)

lemma contacts_bytes_length:
  "length (mData m) = TTCONTACTS_DATA_MAX_LENGTH \<Longrightarrow>
   length (contacts_bytes junk m) = sizeof_contacts_message"
  by (simp add: contacts_bytes_def sizeof_contacts_message_def TTCONTACTS_DATA_MAX_LENGTH_def)

lemma contacts_of_bytes_bytes:
  assumes "contacts_typed m"
  shows "contacts_of_bytes (contacts_bytes junk m) = Some m"
proof -
  let ?bs = "contacts_bytes junk m"
  have data: "length (mData m) = 256" "mDataLength m < 256"
    using assms by (simp_all add: contacts_typed_def message_wf_def TTCONTACTS_DATA_MAX_LENGTH_def)
  have fields: "field 0 4 ?bs = le_bytes 4 (status_code (mStatus m))"
    "field 8 8 ?bs = le_bytes 8 (state_value (mState m))"
    "field 16 8 ?bs = le_bytes 8 (mIdentity m)" "field 24 4 ?bs = le_bytes 4 (mDataLength m)"
    "field 28 256 ?bs = mData m"
    using data by (simp_all add: contacts_bytes_def field_def)
  have "status_code (mStatus m) < 256 ^ 4" "status_cast (status_code (mStatus m)) = mStatus m"
    using assms by (cases "mStatus m"; simp add: contacts_typed_def status_cast_def)+
  moreover have "state_value (mState m) < 256 ^ 8" "mIdentity m < 256 ^ 8" "mDataLength m < 256 ^ 4"
    using state_value_less[of "mState m"] assms data by (simp_all add: contacts_typed_def)
  ultimately show ?thesis
    using data by (simp add: contacts_of_bytes_def TTCONTACTS_DATA_MAX_LENGTH_def fields Let_def)
qed

subsection \<open>\<open>TTChatMessage\<close>\<close>

text \<open>Offsets 0, 8, 16 and 20; 2072 bytes.  The timestamp is the 64-bit count of its clock.\<close>

definition chat_bytes :: "(nat \<Rightarrow> char) \<Rightarrow> chat_message \<Rightarrow> string" where
  "chat_bytes junk m =
     le_bytes 4 (type_code (cm_type m)) @ map junk [0..<4] @
     le_bytes 8 (of_signed 8 (cm_timestamp m)) @ le_bytes 4 (length (cm_data m)) @
     cm_data m @ map junk [4..<MAX_DATA_LENGTH - length (cm_data m) + 8]"

definition chat_of_bytes :: "string \<Rightarrow> chat_message option" where
  "chat_of_bytes bs =
     (let len = le_value (field 16 4 bs) in
      if MAX_DATA_LENGTH < len then None
      else Some \<lparr>cm_type = type_cast (le_value (field 0 4 bs)),
        cm_timestamp = to_signed 8 (le_value (field 8 8 bs)), cm_data = field 20 len bs\<rparr>)"

definition chat_typed :: "chat_message \<Rightarrow> bool" where
  "chat_typed m \<longleftrightarrow> length (cm_data m) \<le> MAX_DATA_LENGTH \<and> (\<forall>n. cm_type m \<noteq> TYPE_OTHER n) \<and>
     - (2 ^ 63) \<le> cm_timestamp m \<and> cm_timestamp m < 2 ^ 63"

lemma chat_bytes_length:
  "length (cm_data m) \<le> MAX_DATA_LENGTH \<Longrightarrow> length (chat_bytes junk m) = sizeof_chat_message"
  by (simp add: chat_bytes_def sizeof_chat_message_def MAX_DATA_LENGTH_def)

lemma chat_of_bytes_bytes:
  assumes "chat_typed m"
  shows "chat_of_bytes (chat_bytes junk m) = Some m"
proof -
  let ?bs = "chat_bytes junk m"
  have len: "length (cm_data m) \<le> 2048"
    using assms by (simp add: chat_typed_def MAX_DATA_LENGTH_def)
  have fields: "field 0 4 ?bs = le_bytes 4 (type_code (cm_type m))"
    "field 8 8 ?bs = le_bytes 8 (of_signed 8 (cm_timestamp m))"
    "field 16 4 ?bs = le_bytes 4 (length (cm_data m))"
    "field 20 (length (cm_data m)) ?bs = cm_data m"
    by (simp_all add: chat_bytes_def field_def)
  have "type_code (cm_type m) < 256 ^ 4" "type_cast (type_code (cm_type m)) = cm_type m"
    using assms by (cases "cm_type m"; simp add: chat_typed_def type_cast_def)+
  moreover have "to_signed 8 (of_signed 8 (cm_timestamp m)) = cm_timestamp m"
    using assms by (intro to_of_signed) (simp_all add: chat_typed_def)
  ultimately show ?thesis
    using len of_signed_bound[of 8 "cm_timestamp m"]
    by (simp add: chat_of_bytes_def MAX_DATA_LENGTH_def fields Let_def)
qed

subsection \<open>\<open>TTTextBoxMessage\<close>\<close>

text \<open>Offsets 0, 4 and 8; 2056 bytes, no padding.\<close>

fun textbox_code :: "textbox_status \<Rightarrow> nat" where
  "textbox_code UNDEFINED = 0"
| "textbox_code TEXTBOX_HEARTBEAT = 1"
| "textbox_code CONTACTS_SELECT = 2"
| "textbox_code MESSAGE = 3"
| "textbox_code TEXTBOX_GOODBYE = 4"
| "textbox_code (TEXTBOX_OTHER n) = n"

definition textbox_cast :: "nat \<Rightarrow> textbox_status" where
  "textbox_cast n =
     (if n = 0 then UNDEFINED else if n = 1 then TEXTBOX_HEARTBEAT else if n = 2 then CONTACTS_SELECT
      else if n = 3 then MESSAGE else if n = 4 then TEXTBOX_GOODBYE else TEXTBOX_OTHER n)"

definition textbox_bytes :: "textbox_message \<Rightarrow> string" where
  "textbox_bytes m =
     le_bytes 4 (textbox_code (xm_status m)) @ le_bytes 4 (xm_dataLength m) @ xm_data m"

definition textbox_of_bytes :: "string \<Rightarrow> textbox_message" where
  "textbox_of_bytes bs =
     \<lparr>xm_status = textbox_cast (le_value (field 0 4 bs)), xm_dataLength = le_value (field 4 4 bs),
      xm_data = field 8 DATA_MAX_LENGTH bs\<rparr>"

definition textbox_typed :: "textbox_message \<Rightarrow> bool" where
  "textbox_typed m \<longleftrightarrow> xm_dataLength m \<le> DATA_MAX_LENGTH \<and> length (xm_data m) = DATA_MAX_LENGTH \<and>
     (\<forall>n. xm_status m \<noteq> TEXTBOX_OTHER n)"

lemma textbox_bytes_length:
  "length (xm_data m) = DATA_MAX_LENGTH \<Longrightarrow> length (textbox_bytes m) = sizeof_textbox_message"
  by (simp add: textbox_bytes_def sizeof_textbox_message_def DATA_MAX_LENGTH_def)

lemma textbox_of_bytes_bytes:
  assumes "textbox_typed m"
  shows "textbox_of_bytes (textbox_bytes m) = m"
proof -
  let ?bs = "textbox_bytes m"
  have len: "xm_dataLength m \<le> 2048" "length (xm_data m) = 2048"
    using assms by (simp_all add: textbox_typed_def DATA_MAX_LENGTH_def)
  have fields: "field 0 4 ?bs = le_bytes 4 (textbox_code (xm_status m))"
    "field 4 4 ?bs = le_bytes 4 (xm_dataLength m)" "field 8 2048 ?bs = xm_data m"
    using len by (simp_all add: textbox_bytes_def field_def)
  have "textbox_code (xm_status m) < 256 ^ 4" "textbox_cast (textbox_code (xm_status m)) = xm_status m"
    using assms by (cases "xm_status m"; simp add: textbox_typed_def textbox_cast_def)+
  then show ?thesis
    using len by (simp add: textbox_of_bytes_def DATA_MAX_LENGTH_def fields)
qed

subsection \<open>What the senders queue\<close>

definition contacts_queue_typed :: "contacts_handler \<Rightarrow> bool" where
  "contacts_queue_typed h \<longleftrightarrow> (\<forall>m \<in> set (mQueuedMessages h).
     message_wf m \<and> mStatus m = STATE \<and> mIdentity m < length (mContacts h))"

lemma contacts_queue_typed_frame [simp]:
  "contacts_queue_typed (h\<lparr>mCurrentContact := c\<rparr>) = contacts_queue_typed h"
  "contacts_queue_typed (h\<lparr>mPreviousContact := c\<rparr>) = contacts_queue_typed h"
  "contacts_queue_typed (set_state i s h) = contacts_queue_typed h"
  "contacts_queue_typed (h\<lparr>mContacts := (mContacts h)[i := e]\<rparr>) = contacts_queue_typed h"
  "contacts_queue_typed (contacts_stop h) = contacts_queue_typed h"
  by (simp_all add: contacts_queue_typed_def set_state_def contacts_stop_def)

lemma set_state_contacts_length [simp]: "length (mContacts (set_state i s h)) = length (mContacts h)"
  by (simp add: set_state_def)

lemma contacts_notify_typed:
  assumes "contacts_notify i h = Some (r, h')" "contacts_queue_typed h" "i < length (mContacts h)"
  shows "contacts_queue_typed h' \<and> length (mContacts h') = length (mContacts h)"
proof -
  obtain m where m: "setNickname (nickname (mContacts h ! i))
      (blank_message\<lparr>mStatus := STATE, mState := state (mContacts h ! i), mIdentity := i\<rparr>) = Some m"
    and h': "h' = snd (contacts_queue m h)"
    using assms(1) by (auto simp: contacts_notify_def bind_eq_Some_conv contacts_queue_def split: if_splits)
  have "message_wf m" "mStatus m = STATE" "mIdentity m = i"
    using setNickname_wf[OF m] setNickname_frame[OF m] by simp_all
  with assms(2,3) show ?thesis
    unfolding h' by (auto simp: contacts_queue_def contacts_queue_typed_def)
qed

lemma contacts_unselect_typed:
  assumes "contacts_unselect h = Some (r, h')" "contacts_queue_typed h"
  shows "contacts_queue_typed h' \<and> length (mContacts h') = length (mContacts h)"
proof (cases "mCurrentContact h")
  case None
  with assms show ?thesis
    by (auto simp: contacts_unselect_def Let_def)
next
  case (Some p)
  let ?h = "h\<lparr>mPreviousContact := Some p\<rparr>"
  have p: "p < length (mContacts h)"
    and cases: "h' = ?h \<or> (\<exists>s. contacts_notify p (set_state p s ?h) = Some (r, h'))"
    using assms(1) Some by (auto simp: contacts_unselect_def Let_def split: if_splits option.splits)
  have "contacts_queue_typed h' \<and> length (mContacts h') = length (mContacts h)"
    if "contacts_notify p (set_state p s ?h) = Some (r, h')" for s
    using contacts_notify_typed[OF that] p assms(2) by simp
  with cases assms(2) show ?thesis
    by auto
qed

lemma contacts_step_typed:
  assumes "contacts_step h x = Some (r, h')" "contacts_queue_typed h"
  shows "contacts_queue_typed h'"
proof (cases x)
  case (ContactsCreate n k a)
  let ?h = "h\<lparr>mContacts := mContacts h @ [new_handler_entry n k a],
      mIdentityMap := (mIdentityMap h)(k \<mapsto> length (mContacts h))\<rparr>"
  obtain m where m: "setNickname n (blank_message\<lparr>mStatus := STATE, mState := ACTIVE,
      mIdentity := length (mContacts h)\<rparr>) = Some m"
    and h': "h' = snd (contacts_queue m ?h)"
    using assms(1) ContactsCreate
    by (auto simp: contacts_create_def bind_eq_Some_conv Let_def setNickname_def contacts_queue_def
        split: if_splits)
  have "message_wf m" "mStatus m = STATE" "mIdentity m = length (mContacts h)"
    using setNickname_wf[OF m] setNickname_frame[OF m] by simp_all
  with assms(2) show ?thesis
    unfolding h' by (auto simp: contacts_queue_def contacts_queue_typed_def)
next
  case (ContactsSend i)
  then have "h' = h \<or> i < length (mContacts h) \<and> (\<exists>s e. let h2 = (set_state i s h)
      \<lparr>mContacts := (mContacts (set_state i s h))[i := e]\<rparr> in h' = h2 \<or> contacts_notify i h2 = Some (r, h'))"
    using assms(1) by (fastforce simp: contacts_send_def Let_def split: if_splits option.splits)
  then show ?thesis
    using assms(2) contacts_notify_typed[of i _ r h'] by (auto simp: Let_def set_state_def[of i])
next
  case (ContactsReceive i)
  then have "h' = h \<or> i < length (mContacts h) \<and> (\<exists>s e. let h2 = (set_state i s h)
      \<lparr>mContacts := (mContacts (set_state i s h))[i := e]\<rparr> in h' = h2 \<or> contacts_notify i h2 = Some (r, h'))"
    using assms(1) by (fastforce simp: contacts_receive_def Let_def split: if_splits option.splits)
  then show ?thesis
    using assms(2) contacts_notify_typed[of i _ r h'] by (auto simp: Let_def set_state_def[of i])
next
  case (ContactsActivate i)
  then have "h' = h \<or> i < length (mContacts h) \<and>
      (\<exists>s. h' = set_state i s h \<or> contacts_notify i (set_state i s h) = Some (r, h'))"
    using assms(1) by (auto simp: contacts_activate_def Let_def split: if_splits)
  then show ?thesis
    using assms(2) contacts_notify_typed[of i _ r h'] by (auto simp: set_state_def[of i])
next
  case (ContactsDeactivate i)
  then have "h' = h \<or> i < length (mContacts h) \<and>
      (\<exists>s. h' = set_state i s h \<or> contacts_notify i (set_state i s h) = Some (r, h'))"
    using assms(1) by (auto simp: contacts_deactivate_def Let_def split: if_splits)
  then show ?thesis
    using assms(2) contacts_notify_typed[of i _ r h'] by (auto simp: set_state_def[of i])
next
  case (ContactsSelect i)
  show ?thesis
  proof (cases "i < length (mContacts h)")
    case True
    then obtain c h1 where u: "contacts_unselect h = Some (c, h1)"
      and rest: "h' = h1 \<or> h' = h1\<lparr>mCurrentContact := Some i\<rparr> \<or>
        (\<exists>s. contacts_notify i (set_state i s (h1\<lparr>mCurrentContact := Some i\<rparr>)) = Some (r, h'))"
      using assms(1) ContactsSelect
      by (auto simp: contacts_select_def bind_eq_Some_conv Let_def split: if_splits option.splits)
    have "contacts_queue_typed h1" "length (mContacts h1) = length (mContacts h)"
      using contacts_unselect_typed[OF u assms(2)] by simp_all
    then show ?thesis
      using rest True contacts_notify_typed[of i _ r h'] by auto
  qed (use assms ContactsSelect in \<open>simp add: contacts_select_def\<close>)
qed (use assms in auto)

interpretation wire_contacts: machine contacts_step "\<lambda>h. contacts_inv h \<and> contacts_queue_typed h" contacts_op_ok
proof
  fix h x assume "contacts_inv h \<and> contacts_queue_typed h" "contacts_op_ok x"
  then show "\<exists>r h'. contacts_step h x = Some (r, h') \<and> contacts_inv h' \<and> contacts_queue_typed h'"
    using contacts.step_ok contacts_step_typed by blast
qed

text \<open>Clocks of 64 bits.\<close>

definition in_clock :: "timestamp \<Rightarrow> bool" where
  "in_clock t \<longleftrightarrow> - (2 ^ 63) \<le> t \<and> t < 2 ^ 63"

primrec chat_op_clock :: "chat_op \<Rightarrow> bool" where
  "chat_op_clock (ChatSend i m ts) = in_clock ts"
| "chat_op_clock (ChatReceive i m ts) = in_clock ts"
| "chat_op_clock (ChatSelect now i) = in_clock now"
| "chat_op_clock (ChatCreate i) = True"
| "chat_op_clock (ChatHeartbeat now) = in_clock now"
| "chat_op_clock ChatStop = True"

definition entry_typed :: "chat_entry \<Rightarrow> bool" where
  "entry_typed e \<longleftrightarrow> (te_type e = SENDER \<or> te_type e = RECEIVER) \<and> in_clock (te_timestamp e)"

definition chat_store_typed :: "chat_handler \<Rightarrow> bool" where
  "chat_store_typed h \<longleftrightarrow> (\<forall>m \<in> set (th_queue h). chat_typed m) \<and>
     (\<forall>es \<in> set (mMessages h). \<forall>e \<in> set es. entry_typed e)"

lemma typed_pieces_typed:
  assumes "in_clock ts" "ty = SENDER \<or> ty = RECEIVER \<or> ty = CLEAR \<or> ty = CHAT_HEARTBEAT"
    and "m \<in> set (typed_pieces ty ts (chunks_of s))"
  shows "chat_typed m"
proof -
  have "cm_data m \<in> set (chunks_of s)"
    using assms(3) chunks_of_ne[of s] by (auto simp: typed_pieces_def dest: in_set_butlastD)
  then have "length (cm_data m) \<le> MAX_DATA_LENGTH"
    by (rule chunks_of_bound)
  with assms show ?thesis
    by (auto simp: typed_pieces_def chat_typed_def in_clock_def type_cast_def)
qed

lemma entry_messages_typed: "entry_typed e \<Longrightarrow> m \<in> set (entry_messages e) \<Longrightarrow> chat_typed m"
  using typed_pieces_typed[of "te_timestamp e" "te_type e" m "te_data e"]
  by (auto simp: entry_messages_def entry_typed_def)

lemma chat_store_typed_store:
  assumes "chat_store_typed h" "i < length (mMessages h)" "entry_typed e"
  shows "chat_store_typed (h\<lparr>mMessages := (mMessages h)[i := mMessages h ! i @ [e]]\<rparr>)"
    "chat_store_typed (h\<lparr>mMessages := (mMessages h)[i := mMessages h ! i @ [e]],
       th_queue := th_queue h @ entry_messages e\<rparr>)"
proof -
  have "\<forall>e' \<in> set (mMessages h ! i @ [e]). entry_typed e'"
    using assms nth_mem[OF assms(2)] by (auto simp: chat_store_typed_def)
  then have "\<forall>es \<in> set ((mMessages h)[i := mMessages h ! i @ [e]]). \<forall>e' \<in> set es. entry_typed e'"
    using assms(1) set_update_append[OF assms(2)] unfolding chat_store_typed_def by blast
  then show "chat_store_typed (h\<lparr>mMessages := (mMessages h)[i := mMessages h ! i @ [e]]\<rparr>)"
    "chat_store_typed (h\<lparr>mMessages := (mMessages h)[i := mMessages h ! i @ [e]],
       th_queue := th_queue h @ entry_messages e\<rparr>)"
    using assms(1) entry_messages_typed[OF assms(3)] by (auto simp: chat_store_typed_def)
qed

lemma chat_step_typed:
  assumes "chat_store_typed h" "chat_op_clock x"
  shows "\<exists>r h'. chat_step h x = Some (r, h') \<and> chat_store_typed h'"
proof (cases x)
  case (ChatSend i m ts)
  with assms show ?thesis
    by (auto simp: chat_send_eq chat_store_typed_store entry_typed_def Let_def)
next
  case (ChatReceive i m ts)
  with assms show ?thesis
    by (auto simp: chat_receive_eq chat_store_typed_store entry_typed_def Let_def)
next
  case (ChatSelect now i)
  have clear: "chat_typed (clear_message now)"
    using assms(2) ChatSelect by (simp add: clear_message_def chat_typed_def in_clock_def)
  have "chat_typed m" if "i < length (mMessages h)" "e \<in> set (mMessages h ! i)" "m \<in> set (entry_messages e)" for e m
    using assms(1) nth_mem[OF that(1)] that(2,3) entry_messages_typed unfolding chat_store_typed_def by blast
  with assms(1) clear ChatSelect show ?thesis
    by (auto simp: chat_select_eq chat_store_typed_def)
next
  case (ChatCreate i)
  with assms(1) show ?thesis
    by (auto simp: chat_create_def chat_store_typed_def)
next
  case (ChatHeartbeat now)
  with assms typed_pieces_typed[of now CHAT_HEARTBEAT _ "''''"] show ?thesis
    by (auto simp: chat_queue_data_eq chat_store_typed_def)
qed (use assms in \<open>simp add: chat_store_typed_def chat_stop_def\<close>)

interpretation wire_chat: machine chat_step chat_store_typed chat_op_clock
  by standard (rule chat_step_typed)

lemma kind_messages_typed: "m \<in> set (kind_messages k) \<Longrightarrow> textbox_typed m"
proof (cases k)
  case (Text s)
  assume "m \<in> set (kind_messages k)"
  then obtain p where "p \<in> set (pieces s)" "m = data_message MESSAGE p"
    using Text by auto
  then show ?thesis
    using pieces_bound[of p s] by (simp add: data_message_def textbox_typed_def)
next
  case (Select n)
  assume "m \<in> set (kind_messages k)"
  then show ?thesis
    using Select by (simp add: select_message_def data_message_def textbox_typed_def DATA_MAX_LENGTH_def)
qed simp_all

lemma textbox_lines_typed:
  "textbox_lines ls t = Some t1 \<Longrightarrow> \<forall>m \<in> set (xb_queue t). textbox_typed m \<Longrightarrow>
   \<forall>m \<in> set (xb_queue t1). textbox_typed m"
proof (induction ls arbitrary: t)
  case (Cons l ls)
  show ?case
  proof (cases "xb_stopped t")
    case False
    then obtain r t2 where p: "textbox_parse l t = Some (r, t2)" and rest: "textbox_lines ls t2 = Some t1"
      using Cons.prems(1) by (auto simp: bind_eq_Some_conv)
    have "xb_queue t2 = xb_queue t @ kind_messages (classify l)"
      using p line_effect_queue(1)[of "classify l" "textbox_print CLEAR_SCREEN t" r t2]
      unfolding textbox_parse_classify by (simp add: textbox_print_def)
    then have "\<forall>m \<in> set (xb_queue t2). textbox_typed m"
      using Cons.prems(2) kind_messages_typed by auto
    then show ?thesis
      by (rule Cons.IH[OF rest])
  qed (use Cons.prems in simp)
qed simp

subsection \<open>The properties\<close>

lemma queued_contacts_typed:
  assumes "contacts_queue_typed h" "length (mContacts h) \<le> 2 ^ 64"
  shows "\<forall>m \<in> set (mQueuedMessages h). contacts_typed m"
proof
  fix m assume "m \<in> set (mQueuedMessages h)"
  then have "message_wf m" "mStatus m = STATE" "mIdentity m < length (mContacts h)"
    using assms(1) by (auto simp: contacts_queue_typed_def)
  with assms(2) show "contacts_typed m"
    by (simp add: contacts_typed_def)
qed

lemma text_box_queue_typed:
  assumes "textbox_read lines init_textbox = Some t"
  shows "\<forall>m \<in> set (xb_queue t). textbox_typed m"
  by (rule textbox_lines_typed[OF assms[unfolded textbox_read_def]])
    (simp add: textbox_print_def init_textbox_def)

text \<open>
  C38: the three senders queue messages whose fields fit the types they are declared with.  Whatever the
  contacts handler is asked (nicknames shorter than the buffer, at most 2^64 contacts), whatever the
  chat handler is asked (clocks of 64 bits) and whatever the user types, every queued message has
  an enumerator as its kind, a length within its array, data that fill the array, and numbers
  within their widths.
\<close>

theorem queued_messages_typed:
  assumes "list_all contacts_op_ok cs" "list_all chat_op_clock xs"
    and "textbox_read lines init_textbox = Some t"
  shows "(\<exists>rs h. run_ops contacts_step init_contacts_handler cs = Some (rs, h) \<and>
      (length (mContacts h) \<le> 2 ^ 64 \<longrightarrow> (\<forall>m \<in> set (mQueuedMessages h). contacts_typed m))) \<and>
    (\<exists>rs h. run_ops chat_step init_chat_handler xs = Some (rs, h) \<and> (\<forall>m \<in> set (th_queue h). chat_typed m)) \<and>
    (\<forall>m \<in> set (xb_queue t). textbox_typed m)"
proof (intro conjI)
  have "contacts_inv init_contacts_handler \<and> contacts_queue_typed init_contacts_handler"
    using contacts_inv_init by (simp add: contacts_queue_typed_def init_contacts_handler_def)
  from wire_contacts.run_total[OF this assms(1)]
  show "\<exists>rs h. run_ops contacts_step init_contacts_handler cs = Some (rs, h) \<and>
      (length (mContacts h) \<le> 2 ^ 64 \<longrightarrow> (\<forall>m \<in> set (mQueuedMessages h). contacts_typed m))"
    using queued_contacts_typed by blast
  have "chat_store_typed init_chat_handler"
    by (simp add: chat_store_typed_def init_chat_handler_def)
  from wire_chat.run_total[OF this assms(2)]
  show "\<exists>rs h. run_ops chat_step init_chat_handler xs = Some (rs, h) \<and> (\<forall>m \<in> set (th_queue h). chat_typed m)"
    unfolding chat_store_typed_def by blast
  show "\<forall>m \<in> set (xb_queue t). textbox_typed m"
    by (rule text_box_queue_typed[OF assms(3)])
qed

lemma text_box_sample: "\<exists>t. textbox_read [''#select 12''] init_textbox = Some t"
proof -
  have "\<exists>t. textbox_lines [''#select 12''] u = Some t" if "\<not> xb_stopped u" for u
    using that line_effect_total[of "Select 12" "textbox_print CLEAR_SCREEN u"]
    by (auto simp: textbox_parse_classify classify_select_sample)
  then show ?thesis
    unfolding textbox_read_def by (simp add: textbox_print_def init_textbox_def del: textbox_lines.simps)
qed

theorem queued_messages_typed_witness:
  "\<exists>rs h. run_ops chat_step init_chat_handler [ChatCreate 0, ChatSelect 17 0, ChatSend 0 ''hi'' 18] = Some (rs, h) \<and>
     (\<forall>m \<in> set (th_queue h). chat_typed m)"
proof -
  obtain t where t: "textbox_read [''#select 12''] init_textbox = Some t"
    using text_box_sample by blast
  have "list_all contacts_op_ok [ContactsCreate ''bob'' ''b'' ''10.0.0.2:80'', ContactsSelect 0]"
    by (simp add: TTCONTACTS_DATA_MAX_LENGTH_def)
  moreover have "list_all chat_op_clock [ChatCreate 0, ChatSelect 17 0, ChatSend 0 ''hi'' 18]"
    by (simp add: in_clock_def)
  ultimately show ?thesis
    using queued_messages_typed[OF _ _ t] by blast
qed

text \<open>
  C39: a well-typed message of each of the three kinds takes exactly the bytes its queue, its shared
  memory or its pipe was made for, and the receiver that reads these bytes as an
  object finds the message that was sent, whatever the padding holds.
\<close>

theorem messages_cross_wire:
  assumes "contacts_typed c" "chat_typed m" "textbox_typed x"
  shows "length (contacts_bytes junk c) = sizeof_contacts_message \<and>
      contacts_of_bytes (contacts_bytes junk c) = Some c \<and>
    length (chat_bytes junk m) = sizeof_chat_message \<and> chat_of_bytes (chat_bytes junk m) = Some m \<and>
    length (textbox_bytes x) = sizeof_textbox_message \<and> textbox_of_bytes (textbox_bytes x) = x"
  using assms contacts_bytes_length[of c junk] chat_bytes_length[of m junk] textbox_bytes_length[of x]
    contacts_of_bytes_bytes[of c junk] chat_of_bytes_bytes[of m junk] textbox_of_bytes_bytes[of x]
  by (simp add: contacts_typed_def message_wf_def chat_typed_def textbox_typed_def)

theorem messages_cross_wire_witness:
  "contacts_of_bytes (contacts_bytes (\<lambda>i. CHR ''?'') (blank_message\<lparr>mState := SELECTED_ACTIVE, mIdentity := 513\<rparr>)) =
     Some (blank_message\<lparr>mState := SELECTED_ACTIVE, mIdentity := 513\<rparr>) \<and>
   chat_of_bytes (chat_bytes (\<lambda>i. CHR ''?'') \<lparr>cm_type = SENDER, cm_timestamp = - 1, cm_data = ''hi''\<rparr>) =
     Some \<lparr>cm_type = SENDER, cm_timestamp = - 1, cm_data = ''hi''\<rparr> \<and>
   textbox_of_bytes (textbox_bytes (data_message MESSAGE ''hi'')) = data_message MESSAGE ''hi''"
proof -
  have "contacts_typed (blank_message\<lparr>mState := SELECTED_ACTIVE, mIdentity := 513\<rparr>)"
    by (simp add: contacts_typed_def message_wf_def blank_message_def TTCONTACTS_DATA_MAX_LENGTH_def)
  moreover have "chat_typed \<lparr>cm_type = SENDER, cm_timestamp = - 1, cm_data = ''hi''\<rparr>"
    by (simp add: chat_typed_def MAX_DATA_LENGTH_def)
  moreover have "textbox_typed (data_message MESSAGE ''hi'')"
    by (simp add: textbox_typed_def data_message_def DATA_MAX_LENGTH_def)
  ultimately show ?thesis
    using messages_cross_wire[of "blank_message\<lparr>mState := SELECTED_ACTIVE, mIdentity := 513\<rparr>"
        "\<lparr>cm_type = SENDER, cm_timestamp = - 1, cm_data = ''hi''\<rparr>" "data_message MESSAGE ''hi''"
        "\<lambda>i. CHR ''?''"] by blast
qed

end
