(* ===== verification/TextBox_Pipe.thy ===== *)
theory TextBox_Pipe
  imports Wire TextBox_Link
begin






subsection \<open>Whole messages\<close>




subsection \<open>The property\<close>





end
