(* ===== verification/Startup.thy ===== *)
theory Startup
  imports Settings Contacts_Window Contacts_Pump Chat_Link TextBox
begin

text \<open>
  The constructors of the six objects that communicate: \<open>TTContactsHandler\<close>, \<open>TTChatHandler\<close> and
  \<open>TTTextBoxHandler\<close> in the engine, \<open>TTContacts\<close>, \<open>TTChat\<close> and \<open>TTTextBox\<close> in the windows.  Each
  acquires its shared memory, queues or pipe over the operating system (Syscall); an exception is
  \<open>Inl\<close> with its text, and then the members constructed so far are destroyed, the last one
  first.  The threads a constructor starts are the subject of other theories and begin in the
  state it returns.  The bytes of a message are a parameter, \<open>layout\<close>.

  The lemmas show that a constructor that throws leaves no name behind in the system, and that one
  that returns has an open connection.
\<close>

subsection \<open>The contacts\<close>

definition establish ::
  "'w syscall \<Rightarrow> (contacts_message \<Rightarrow> string) \<Rightarrow> shared_mem \<Rightarrow> 'w \<Rightarrow> bool \<times> shared_mem \<times> 'w" where
  "establish os layout m w = shm_send os 5 1000 (layout heartbeat_message) m w"

definition new_TTContactsHandler ::
  "'w syscall \<Rightarrow> (contacts_message \<Rightarrow> string) \<Rightarrow> contacts_settings \<Rightarrow> 'w \<Rightarrow>
   (string + shared_mem \<times> contacts_handler) \<times> 'w" where
  "new_TTContactsHandler os layout settings w =
     (let (created, m, w1) = shm_create os (contacts_getSharedMemory settings) w in
      if \<not> created
      then (Inl ''TTContactsHandler: Failed to create shared memory!'', snd (snd (shm_destroy os m w1)))
      else let (established, m1, w2) = establish os layout m w1 in
        if \<not> established
        then (Inl ''TTContactsHandler: Failed to establish connection!'', snd (snd (shm_destroy os m1 w2)))
        else (Inr (m1, init_contacts_handler), w2))"

definition new_TTContacts ::
  "'w syscall \<Rightarrow> contacts_settings \<Rightarrow> 'w \<Rightarrow> (string + shared_mem \<times> contacts_window) \<times> 'w" where
  "new_TTContacts os settings w =
     (let (opened, m, w1) = shm_open os 5 1000 (contacts_getSharedMemory settings) w in
      if \<not> opened
      then (Inl ''TTContacts: Failed to open shared memory!'', snd (snd (shm_destroy os m w1)))
      else (Inr (m, init_contacts_window), w1))"

subsection \<open>The chat\<close>

text \<open>The secondary queue is the later member, so it is destroyed first.\<close>

definition release_queues :: "'w syscall \<Rightarrow> message_queue \<Rightarrow> message_queue \<Rightarrow> 'w \<Rightarrow> 'w" where
  "release_queues os primary secondary w = snd (mq_destruct os primary (snd (mq_destruct os secondary w)))"

definition new_TTChatHandler ::
  "'w syscall \<Rightarrow> chat_settings \<Rightarrow> 'w \<Rightarrow> (string + message_queue \<times> message_queue \<times> chat_handler) \<times> 'w" where
  "new_TTChatHandler os settings w =
     (let secondary = getSecondaryMessageQueue settings;
          (created, primary, w1) = mq_create os (getPrimaryMessageQueue settings) w in
      if \<not> created
      then (Inl ''TTChatHandler: Failed to create primary message queue!'',
            release_queues os primary secondary w1)
      else let (created2, secondary1, w2) = mq_create os secondary w1 in
        if \<not> created2
        then (Inl ''TTChatHandler: Failed to create secondary message queue!'',
              release_queues os primary secondary1 w2)
        else (Inr (primary, secondary1, init_chat_handler), w2))"

text \<open>The object of the window, with \<open>mSideWidth\<close>.\<close>

definition new_TTChat ::
  "'w syscall \<Rightarrow> chat_settings \<Rightarrow> 'w \<Rightarrow>
   (string + message_queue \<times> message_queue \<times> nat \<times> chat_window) \<times> 'w" where
  "new_TTChat os settings w =
     (let secondary = getSecondaryMessageQueue settings;
          (opened, primary, w1) = mq_open os 5 1000 (getPrimaryMessageQueue settings) w in
      if \<not> opened
      then (Inl ''TTChat: Failed to open primary message queue!'', release_queues os primary secondary w1)
      else let (opened2, secondary1, w2) = mq_open os 5 1000 secondary w1 in
        if \<not> opened2
        then (Inl ''TTChat: Failed to open secondary message queue!'',
              release_queues os primary secondary1 w2)
        else (Inr (primary, secondary1, side_width (hst_width settings), init_chat_window), w2))"

subsection \<open>The text box\<close>

definition new_TTTextBox ::
  "'w syscall \<Rightarrow> textbox_settings \<Rightarrow> 'w \<Rightarrow> (string + named_pipe \<times> textbox) \<times> 'w" where
  "new_TTTextBox os settings w =
     (let (created, p, w1) = pipe_create os 5 1000 (getNamedPipe settings) w in
      if \<not> created
      then (Inl ''TTTextBox: Failed to create named pipe!'', snd (pipe_destruct os p w1))
      else if \<not> pipe_alive p
      then (Inl ''TTTextBox: Failed to run, pipe is not alive!'', snd (pipe_destruct os p w1))
      else (Inr (p, init_textbox), w1))"

definition new_TTTextBoxHandler ::
  "'w syscall \<Rightarrow> textbox_settings \<Rightarrow> 'w \<Rightarrow> (string + named_pipe) \<times> 'w" where
  "new_TTTextBoxHandler os settings w =
     (let (opened, p, w1) = pipe_open os 5 1000 (getNamedPipe settings) w in
      if \<not> opened
      then (Inl ''TTTextBoxHandler: Failed to open named pipe!'', snd (pipe_destruct os p w1))
      else (Inr p, w1))"

subsection \<open>What they leave behind\<close>

text \<open>
  The documented behaviour on names (Shared_Mem, Message_Queue, Named_Pipe) with two additions:
  the name of an object that exists can be unlinked, and using an object touches no name.
\<close>

definition ipc_quiet :: "'w syscall \<Rightarrow> ('w \<Rightarrow> (bool \<times> string) set) \<Rightarrow> bool" where
  "ipc_quiet os names \<longleftrightarrow>
     (\<forall>n w. (True, n) \<in> names w \<longrightarrow> fst (sc_shm_unlink os n w) = 0) \<and>
     (\<forall>n w. (False, n) \<in> names w \<longrightarrow> fst (sc_sem_unlink os n w) = 0) \<and>
     (\<forall>a m w. names (sc_store os a m w) = names w) \<and>
     (\<forall>s w. names (snd (sc_sem_post os s w)) = names w) \<and>
     (\<forall>s t w. names (snd (sc_sem_timedwait os s t w)) = names w) \<and>
     (\<forall>w. names (snd (sc_clock_gettime os w)) = names w)"

definition queue_names :: "'w syscall \<Rightarrow> ('w \<Rightarrow> string set) \<Rightarrow> bool" where
  "queue_names os names \<longleftrightarrow>
     (\<forall>n k l w. names (snd (sc_mq_open os n True k l w)) =
        (if fst (sc_mq_open os n True k l w) = -1 then names w else insert n (names w))) \<and>
     (\<forall>n w. names (snd (sc_mq_unlink os n w)) = names w - {n})"

lemma ipc_quietD:
  assumes "ipc_quiet os names"
  shows "(True, n) \<in> names w \<Longrightarrow> fst (sc_shm_unlink os n w) = 0"
    "(False, n) \<in> names w \<Longrightarrow> fst (sc_sem_unlink os n w) = 0"
    "names (sc_store os a m w) = names w"
    "sc_sem_post os s w = (c, w1) \<Longrightarrow> names w1 = names w"
    "sc_sem_timedwait os s t w = (c, w1) \<Longrightarrow> names w1 = names w"
    "sc_clock_gettime os w = (d, w1) \<Longrightarrow> names w1 = names w"
  using assms unfolding ipc_quiet_def by (metis snd_conv)+

lemma shm_wait_names:
  assumes os: "ipc_quiet os names"
  shows "shm_wait os s t n w = (r, w1) \<Longrightarrow> names w1 = names w"
proof (induction n arbitrary: w)
  case (Suc n)
  obtain rc sec wa where a: "sc_clock_gettime os w = ((rc, sec), wa)"
    by (cases "sc_clock_gettime os w") force
  obtain c wb where b: "sc_sem_timedwait os s (sec + t) wa = (c, wb)"
    by (cases "sc_sem_timedwait os s (sec + t) wa")
  show ?case
    using Suc.prems Suc.IH[of wb] ipc_quietD(5)[OF os b] ipc_quietD(6)[OF os a]
    by (auto simp: a b split: if_splits)
qed simp

lemma shm_send_names:
  assumes os: "ipc_quiet os names" and run: "shm_send os n t x m w = (r, m1, w1)"
  shows "names w1 = names w \<and> holdings m1 = holdings m \<and> mAlive m1 = r \<and>
    mDataConsumedSemName m1 = mDataConsumedSemName m \<and> mDataProducedSemName m1 = mDataProducedSemName m"
proof -
  let ?w = "sc_store os (mSharedMessage m) (take (mSharedMessageSize m) x) w"
  obtain c wa where a: "sc_sem_post os (mDataProducedSemaphore m) ?w = (c, wa)"
    by (cases "sc_sem_post os (mDataProducedSemaphore m) ?w")
  obtain b wb where b: "shm_wait os (mDataConsumedSemaphore m) (t sdiv 1000) n wa = (b, wb)"
    by (cases "shm_wait os (mDataConsumedSemaphore m) (t sdiv 1000) n wa")
  have wa: "names wa = names w"
    using ipc_quietD(4)[OF os a] ipc_quietD(3)[OF os] by simp
  have wb: "names wb = names wa"
    by (rule shm_wait_names[OF os b])
  have "(r, m1, w1) = shm_send os n t x m w"
    using run by simp
  then show ?thesis
    by (cases "shm_alive m"; cases "c = -1") (simp_all add: shm_send_def holdings_def Let_def a b wa wb)
qed

lemma shm_destroy_holdings:
  assumes names: "ipc_names os names" and quiet: "ipc_quiet os names"
    and held: "holdings m \<subseteq> names w" and sems: "mDataConsumedSemName m \<noteq> mDataProducedSemName m"
  shows "names (snd (snd (shm_destroy os m w))) = names w - holdings m"
proof -
  obtain c1 wa where a: "sc_shm_unlink os (mSharedMemoryName m) w = (c1, wa)"
    by (cases "sc_shm_unlink os (mSharedMemoryName m) w")
  let ?wa = "if mSharedMemoryCreated m then wa else w"
  obtain c2 wb where b: "sc_sem_unlink os (mDataConsumedSemName m) ?wa = (c2, wb)"
    by (cases "sc_sem_unlink os (mDataConsumedSemName m) ?wa")
  let ?wb = "if mDataConsumedSemCreated m then wb else ?wa"
  obtain c3 wc where c: "sc_sem_unlink os (mDataProducedSemName m) ?wb = (c3, wc)"
    by (cases "sc_sem_unlink os (mDataProducedSemName m) ?wb")
  have c1: "c1 = 0" "names ?wa = names w - {(True, mSharedMemoryName m)}" if "mSharedMemoryCreated m"
    using ipc_quietD(1)[OF quiet, of "mSharedMemoryName m" w] ipc_namesD(3)[OF names a] held that
    by (auto simp: a holdings_def)
  have sem: "(False, x) \<in> names ?wa \<longleftrightarrow> (False, x) \<in> names w" for x
    using c1 by auto
  have c2: "c2 = 0" "names ?wb = names ?wa - {(False, mDataConsumedSemName m)}" if "mDataConsumedSemCreated m"
    using ipc_quietD(2)[OF quiet, of "mDataConsumedSemName m" ?wa] ipc_namesD(4)[OF names b] held that sem
    by (auto simp: b holdings_def)
  have "(False, mDataProducedSemName m) \<in> names ?wb" if "mDataProducedSemCreated m"
    using c2 sem held that sems by (auto simp: holdings_def)
  then have c3: "c3 = 0" if "mDataProducedSemCreated m"
    using ipc_quietD(2)[OF quiet, of "mDataProducedSemName m" ?wb] that by (simp add: c)
  obtain r m1 w1 where run: "shm_destroy os m w = (r, m1, w1)"
    by (cases "shm_destroy os m w") auto
  have "r = ((\<not> mSharedMemoryCreated m \<or> c1 = 0) \<and> (\<not> mDataConsumedSemCreated m \<or> c2 = 0) \<and>
      (\<not> mDataProducedSemCreated m \<or> c3 = 0))"
    using run[symmetric] a b c
    by (cases "mSharedMemoryCreated m"; cases "mDataConsumedSemCreated m"; cases "mDataProducedSemCreated m")
      (auto simp: shm_destroy_def)
  then have r
    using c1(1) c2(1) c3 by blast
  with run shm_destroy_releases[OF names, of m w m1 w1] show ?thesis
    by simp
qed

lemma new_TTContactsHandler_names:
  assumes names: "ipc_names os names" and quiet: "ipc_quiet os names"
    and run: "new_TTContactsHandler os layout settings w = (r, w1)"
  shows "case r of Inl err \<Rightarrow> names w1 \<subseteq> names w
    | Inr (m, h) \<Rightarrow> shm_alive m \<and> names w1 = names w \<union> holdings m \<and> h = init_contacts_handler"
proof -
  let ?m = "contacts_getSharedMemory settings"
  have fresh: "holdings ?m = {}" "\<not> mAlive ?m" "mDataConsumedSemName ?m \<noteq> mDataProducedSemName ?m"
    by (simp_all add: contacts_getSharedMemory_def new_shared_mem_def holdings_def Let_def)
  obtain created m wa where a: "shm_create os ?m w = (created, m, wa)"
    by (cases "shm_create os ?m w") auto
  note A = shm_create_holds[OF names a fresh(1,2)]
  obtain est m1 wb where b: "shm_send os 5 1000 (layout heartbeat_message) m wa = (est, m1, wb)"
    by (cases "shm_send os 5 1000 (layout heartbeat_message) m wa") auto
  note B = shm_send_names[OF quiet b]
  have ends: "names (snd (snd (shm_destroy os x v))) \<subseteq> names w"
    if "names v = names w \<union> holdings x" "mDataConsumedSemName x \<noteq> mDataProducedSemName x" for x v
    using shm_destroy_holdings[OF names quiet, of x v] that by auto
  show ?thesis
  proof (cases created)
    case False
    with run a ends[of wa m] A fresh(3) show ?thesis
      by (auto simp: new_TTContactsHandler_def)
  next
    case True
    with run a b ends[of wb m1] A B fresh(3) show ?thesis
      by (cases est) (auto simp: new_TTContactsHandler_def establish_def shm_alive_def)
  qed
qed

lemma queue_namesD:
  assumes "queue_names os names"
  shows "sc_mq_open os n True k l w = (d, w1) \<Longrightarrow>
      names w1 = (if d = -1 then names w else insert n (names w))"
    "names (snd (sc_mq_unlink os n w)) = names w - {n}"
  using assms unfolding queue_names_def by (metis fst_conv snd_conv)+

lemma mq_create_names:
  assumes os: "queue_names os names" and run: "mq_create os (new_message_queue n k l) w = (r, q, w1)"
  shows "mq_alive q = r \<and> mq_deleter q = r \<and> mq_name q = n \<and>
    names w1 = (if r then insert n (names w) else names w)"
proof -
  obtain d wa where a: "sc_mq_open os n True k l w = (d, wa)"
    by (cases "sc_mq_open os n True k l w")
  with run queue_namesD(1)[OF os a] show ?thesis
    by (auto simp: mq_create_def new_message_queue_def mq_alive_def split: if_splits)
qed

lemma release_queues_names:
  assumes "queue_names os names"
  shows "names (release_queues os p q w) = names w -
    ((if mq_deleter p then {mq_name p} else {}) \<union> (if mq_deleter q then {mq_name q} else {}))"
  using queue_namesD(2)[OF assms] by (auto simp: release_queues_def mq_destruct_def)

lemma new_TTChatHandler_names:
  assumes os: "queue_names os names" and run: "new_TTChatHandler os settings w = (r, w1)"
  shows "case r of Inl err \<Rightarrow> names w1 \<subseteq> names w
    | Inr (p, q, h) \<Rightarrow> mq_alive p \<and> mq_alive q \<and> h = init_chat_handler \<and>
        names w1 = names w \<union> {mq_name p, mq_name q}"
proof -
  let ?p = "getPrimaryMessageQueue settings" and ?q = "getSecondaryMessageQueue settings"
  obtain r1 p wa where a: "mq_create os ?p w = (r1, p, wa)"
    by (cases "mq_create os ?p w") auto
  note A = mq_create_names[OF os a[unfolded getPrimaryMessageQueue_def]]
  obtain r2 q wb where b: "mq_create os ?q wa = (r2, q, wb)"
    by (cases "mq_create os ?q wa") auto
  note B = mq_create_names[OF os b[unfolded getSecondaryMessageQueue_def]]
  have "\<not> mq_deleter ?q"
    by (simp add: getSecondaryMessageQueue_def new_message_queue_def)
  with run a b A B release_queues_names[OF os] show ?thesis
    by (cases r1; cases r2) (auto simp: new_TTChatHandler_def Let_def)
qed

lemma new_TTTextBox_paths:
  assumes os: "pipe_paths os paths" and run: "new_TTTextBox os settings w = (r, w1)"
    and path: "mUniquePath settings \<noteq> []"
  shows "case r of Inl err \<Rightarrow> paths w1 = paths w - {mUniquePath settings}
    | Inr (p, t) \<Rightarrow> pipe_alive p \<and> t = init_textbox"
proof -
  obtain created p wa where a: "pipe_create os 5 1000 (getNamedPipe settings) w = (created, p, wa)"
    by (cases "pipe_create os 5 1000 (getNamedPipe settings) w") auto
  obtain p1 wb where b: "pipe_destruct os p wa = (p1, wb)"
    by (cases "pipe_destruct os p wa")
  have "mNamedPipePath p = mUniquePath settings \<and> created = pipe_alive p \<and>
      (paths wa = paths w \<or> paths wa = insert (mUniquePath settings) (paths w))"
    using pipe_create_paths[OF os a[unfolded getNamedPipe_def]] .
  moreover from this have "paths wb = paths w - {mUniquePath settings}"
    using pipe_destruct_paths[OF os b] path by auto
  ultimately show ?thesis
    using run a b by (auto simp: new_TTTextBox_def split: if_splits)
qed

text \<open>
  C40: whatever fails while one of the connections is created, a constructor that throws leaves
  no name in the system that was not there before; one that returns has an open connection, its
  names exist, and its object is in its initial state.
\<close>

theorem failed_start_leaves_nothing:
  assumes "ipc_names os names" "ipc_quiet os names" "queue_names os queues" "pipe_paths os paths"
    and "new_TTContactsHandler os layout cs w = (c, w1)" "new_TTChatHandler os hs w = (h, w2)"
    and "new_TTTextBox os xs w = (x, w3)" "mUniquePath xs \<noteq> []"
  shows "(case c of Inl err \<Rightarrow> names w1 \<subseteq> names w
      | Inr (m, handler) \<Rightarrow> shm_alive m \<and> names w1 = names w \<union> holdings m \<and>
          handler = init_contacts_handler) \<and>
    (case h of Inl err \<Rightarrow> queues w2 \<subseteq> queues w
      | Inr (p, q, handler) \<Rightarrow> mq_alive p \<and> mq_alive q \<and> handler = init_chat_handler \<and>
          queues w2 = queues w \<union> {mq_name p, mq_name q}) \<and>
    (case x of Inl err \<Rightarrow> paths w3 \<subseteq> paths w
      | Inr (pipe, box) \<Rightarrow> pipe_alive pipe \<and> box = init_textbox)"
  using new_TTContactsHandler_names[OF assms(1,2,5)] new_TTChatHandler_names[OF assms(3,6)]
    new_TTTextBox_paths[OF assms(4,7,8)]
  by (cases x) auto

text \<open>A system on which one queue can be made, and nothing else.\<close>

definition scarce_os :: "string list syscall" where
  "scarce_os = failing_os\<lparr>
     sc_mq_open := \<lambda>n c k l w. if w = [] then (5, [n]) else (-1, w),
     sc_mq_unlink := \<lambda>n w. (0, removeAll n w)\<rparr>"

theorem failed_start_leaves_nothing_witness:
  "\<exists>w2. new_TTChatHandler scarce_os \<lparr>hst_width = 0, hst_height = 0, mMessageQueueName = ''/room''\<rparr> [] =
      (Inl ''TTChatHandler: Failed to create secondary message queue!'', w2) \<and> set w2 \<subseteq> {}"
proof -
  let ?hs = "\<lparr>hst_width = 0, hst_height = 0, mMessageQueueName = ''/room''\<rparr>"
  let ?xs = "\<lparr>xst_width = 0, xst_height = 0, mUniquePath = ''/tmp/x-pipe''\<rparr>"
  let ?cs = "\<lparr>cst_width = 0, cst_height = 0, cst_name = ''con''\<rparr>"
  have os: "ipc_names scarce_os (\<lambda>w. {})" "ipc_quiet scarce_os (\<lambda>w. {})" "pipe_paths scarce_os (\<lambda>w. {})"
    by (simp_all add: ipc_names_def ipc_quiet_def pipe_paths_def scarce_os_def failing_os_def)
  have queues: "queue_names scarce_os set"
    by (auto simp: queue_names_def scarce_os_def failing_os_def)
  obtain c w1 where c: "new_TTContactsHandler scarce_os (\<lambda>m. '''') ?cs [] = (c, w1)"
    by (cases "new_TTContactsHandler scarce_os (\<lambda>m. '''') ?cs []")
  obtain x w3 where x: "new_TTTextBox scarce_os ?xs [] = (x, w3)"
    by (cases "new_TTTextBox scarce_os ?xs []")
  have "fst (new_TTChatHandler scarce_os ?hs []) =
      Inl ''TTChatHandler: Failed to create secondary message queue!''"
    by (simp add: new_TTChatHandler_def mq_create_def mq_alive_def getPrimaryMessageQueue_def
        getSecondaryMessageQueue_def new_message_queue_def scarce_os_def Let_def)
  then obtain w2 where h: "new_TTChatHandler scarce_os ?hs [] =
      (Inl ''TTChatHandler: Failed to create secondary message queue!'', w2)"
    by (cases "new_TTChatHandler scarce_os ?hs []") simp
  from failed_start_leaves_nothing[OF os(1,2) queues os(3) c h x] h show ?thesis
    by simp
qed

end
