(* ===== verification/Programs.thy ===== *)
theory Programs
  imports Startup Wire Chat_Window
begin

text \<open>
  The programs of the two windows that show something (contacts/src/Main.cpp, chat/src/Main.cpp) and
  the signals of all four (utils/src/TTUtilsSignals.hpp).  A window's program reads its settings
  from the arguments, constructs its object, runs its loop on what arrives and destroys it; the
  stages are those of the other theories, put together here over the operating system (Syscall).
  An exception of any of them is caught, and the program returns 0 all the same.

  A program is a function of the stops it is subject to, one truth value for every evaluation of
  \<open>isStopped\<close>: whether \<open>stop\<close> was called since the one before, by the signal handler or another thread.
  When these are used up it is still in its loop (\<open>In_Loop\<close>).  \<open>None\<close> is behavior the code leaves
  undefined.

  The lemmas follow a message on its whole way: what the engine's handlers queue, laid out as
  bytes and handed over by the operating system, is what the window's program shows.
\<close>

subsection \<open>Signals\<close>

record 'h signal_action =
  sa_handler :: 'h
  sa_mask :: "int set"

text \<open>\<open>sg_mask\<close> is \<open>pthread_sigmask\<close>; its first argument tells \<open>SIG_BLOCK\<close> from \<open>SIG_UNBLOCK\<close>.\<close>

record ('h, 'w) signal_calls =
  sg_action :: "int \<Rightarrow> 'h signal_action \<Rightarrow> 'w \<Rightarrow> int \<times> 'w"
  sg_mask :: "bool \<Rightarrow> int set \<Rightarrow> 'w \<Rightarrow> int \<times> 'w"

definition SIGINT :: int where "SIGINT = 2"
definition SIGKILL :: int where "SIGKILL = 9"
definition SIGPIPE :: int where "SIGPIPE = 13"
definition SIGTERM :: int where "SIGTERM = 15"
definition SIGSTOP :: int where "SIGSTOP = 19"

lemmas signal_numbers = SIGINT_def SIGKILL_def SIGPIPE_def SIGTERM_def SIGSTOP_def

text \<open>The mask of the action is full (\<open>sigfillset\<close>); the result of \<open>sigaction\<close> is not looked at.\<close>

definition signals_setup :: "('h, 'w) signal_calls \<Rightarrow> 'h \<Rightarrow> int list \<Rightarrow> 'w \<Rightarrow> 'w" where
  "signals_setup os handler signums w =
     fold (\<lambda>signum w. snd (sg_action os signum \<lparr>sa_handler = handler, sa_mask = UNIV\<rparr> w)) signums w"

definition signals_block :: "('h, 'w) signal_calls \<Rightarrow> int list \<Rightarrow> 'w \<Rightarrow> 'w" where
  "signals_block os signums w = snd (sg_mask os True (fold insert signums {}) w)"

definition signals_unblock :: "('h, 'w) signal_calls \<Rightarrow> int list \<Rightarrow> 'w \<Rightarrow> 'w" where
  "signals_unblock os signums w = snd (sg_mask os False (fold insert signums {}) w)"

text \<open>The four programs handle the same three signals.\<close>

definition setup_program :: "('h, 'w) signal_calls \<Rightarrow> 'h \<Rightarrow> 'w \<Rightarrow> 'w" where
  "setup_program os handler w = signals_setup os handler [SIGINT, SIGTERM, SIGSTOP] w"

text \<open>
  The constructor of the text box starts its two threads, the sender while \<open>SIGPIPE\<close> is blocked.  A
  thread begins with the mask of the thread that creates it; the two masks are returned.
\<close>

definition start_textbox_threads ::
  "('h, 'w) signal_calls \<Rightarrow> ('w \<Rightarrow> int set) \<Rightarrow> 'w \<Rightarrow> int set \<times> int set \<times> 'w" where
  "start_textbox_threads os blocked w =
     (let w1 = signals_block os [SIGPIPE] w;
          sender = blocked w1;
          w2 = signals_unblock os [SIGPIPE] w1;
          reader = blocked w2
      in (sender, reader, w2))"

text \<open>
  The documented behavior: the action of every signal but \<open>SIGKILL\<close> and \<open>SIGSTOP\<close> can be changed, and every
  signal but these can be blocked.
\<close>

definition signal_laws ::
  "('h, 'w) signal_calls \<Rightarrow> ('w \<Rightarrow> int \<Rightarrow> 'h signal_action) \<Rightarrow> ('w \<Rightarrow> int set) \<Rightarrow> bool" where
  "signal_laws os actions blocked \<longleftrightarrow>
     (\<forall>s a w. actions (snd (sg_action os s a w)) =
        (if s = SIGKILL \<or> s = SIGSTOP then actions w else (actions w)(s := a)) \<and>
        blocked (snd (sg_action os s a w)) = blocked w) \<and>
     (\<forall>b S w. actions (snd (sg_mask os b S w)) = actions w \<and>
        blocked (snd (sg_mask os b S w)) =
          (if b then blocked w \<union> (S - {SIGKILL, SIGSTOP}) else blocked w - S))"

subsection \<open>The window of the contacts\<close>

datatype ('a, 'w) program =
    In_Loop 'a 'w
  | Finished int string 'w    \<comment> \<open>the exit code and all that was printed\<close>

definition contacts_interrupt :: "contacts_window \<Rightarrow> contacts_window" where
  "contacts_interrupt cw = cw\<lparr>cw_stopped := True\<rparr>"

fun contacts_loop ::
  "'w syscall \<Rightarrow> bool list \<Rightarrow> shared_mem \<Rightarrow> contacts_window \<Rightarrow> 'w \<Rightarrow>
   (shared_mem \<times> contacts_window \<times> 'w) option" where
  "contacts_loop os [] m cw w = Some (m, cw, w)"
| "contacts_loop os (b # bs) m cw w =
     (let cw0 = if b then contacts_interrupt cw else cw in
      if cw_stopped cw0 \<or> \<not> shm_alive m then Some (m, contacts_interrupt cw0, w)
      else let (received, bytes, m1, w1) = shm_receive os 3 1000 m w in
        if \<not> received then Some (m1, contacts_interrupt cw0, w1)
        else case bytes of
          None \<Rightarrow> None
        | Some x \<Rightarrow>
            (case contacts_of_bytes x of
               None \<Rightarrow> None
             | Some newMessage \<Rightarrow>
                 (case contacts_handle newMessage cw0 of
                    None \<Rightarrow> None
                  | Some (False, cw1) \<Rightarrow> Some (m1, contacts_interrupt cw1, w1)
                  | Some (True, cw1) \<Rightarrow> contacts_loop os bs m1 cw1 w1)))"

definition contacts_program ::
  "'w syscall \<Rightarrow> string list \<Rightarrow> bool \<Rightarrow> bool list \<Rightarrow> 'w \<Rightarrow>
   (shared_mem \<times> contacts_window, 'w) program option" where
  "contacts_program os argv early stops w =
     (case new_contacts_settings argv of
        Inl what \<Rightarrow> Some (Finished 0 '''' w)
      | Inr settings \<Rightarrow>
          (case new_TTContacts os settings w of
             (Inl what, w1) \<Rightarrow> Some (Finished 0 '''' w1)
           | (Inr (m, cw), w1) \<Rightarrow>
               if early then Some (Finished 0 (cw_out cw) (snd (snd (shm_destroy os m w1))))
               else (case contacts_loop os stops m cw w1 of
                  None \<Rightarrow> None
                | Some (m2, cw2, w2) \<Rightarrow>
                    if cw_stopped cw2
                    then Some (Finished 0 (cw_out cw2) (snd (snd (shm_destroy os m2 w2))))
                    else Some (In_Loop (m2, cw2) w2))))"

subsection \<open>The window of the chat\<close>

definition chat_interrupt :: "chat_window \<Rightarrow> chat_window" where
  "chat_interrupt cw = cw\<lparr>tw_stopped := True\<rparr>"

fun chat_loop ::
  "'w syscall \<Rightarrow> (timestamp \<Rightarrow> string) \<Rightarrow> nat \<Rightarrow> bool list \<Rightarrow> message_queue \<Rightarrow> chat_window \<Rightarrow> 'w \<Rightarrow>
   (chat_window \<times> 'w) option" where
  "chat_loop os fmt width [] primary cw w = Some (cw, w)"
| "chat_loop os fmt width (b # bs) primary cw w =
     (let cw0 = if b then chat_interrupt cw else cw in
      if tw_stopped cw0 then Some (chat_interrupt cw0, w)
      else let (received, bytes, w1) = mq_receive os 3 1000 primary w in
        if \<not> received then Some (chat_interrupt cw0, w1)
        else case bytes of
          None \<Rightarrow> None
        | Some x \<Rightarrow>
            (case chat_of_bytes x of
               None \<Rightarrow> None
             | Some message \<Rightarrow>
                 (case chat_handle fmt width message cw0 of
                    None \<Rightarrow> None
                  | Some (False, cw1) \<Rightarrow> Some (chat_interrupt cw1, w1)
                  | Some (True, cw1) \<Rightarrow> chat_loop os fmt width bs primary cw1 w1)))"

definition chat_primary_loop ::
  "'w syscall \<Rightarrow> (timestamp \<Rightarrow> string) \<Rightarrow> nat \<Rightarrow> bool list \<Rightarrow> message_queue \<Rightarrow> message_queue \<Rightarrow>
   chat_window \<Rightarrow> 'w \<Rightarrow> (chat_window \<times> 'w) option" where
  "chat_primary_loop os fmt width stops primary secondary cw w =
     (if \<not> mq_alive primary \<or> \<not> mq_alive secondary then Some (chat_interrupt cw, w)
      else chat_loop os fmt width stops primary cw w)"

definition chat_program ::
  "'w syscall \<Rightarrow> (timestamp \<Rightarrow> string) \<Rightarrow> string list \<Rightarrow> bool \<Rightarrow> bool list \<Rightarrow> 'w \<Rightarrow>
   (message_queue \<times> message_queue \<times> chat_window, 'w) program option" where
  "chat_program os fmt argv early stops w =
     (case new_chat_settings argv of
        None \<Rightarrow> None
      | Some (Inl what) \<Rightarrow> Some (Finished 0 '''' w)
      | Some (Inr settings) \<Rightarrow>
          (case new_TTChat os settings w of
             (Inl what, w1) \<Rightarrow> Some (Finished 0 '''' w1)
           | (Inr (primary, secondary, side, cw), w1) \<Rightarrow>
               if early then Some (Finished 0 (tw_out cw) (release_queues os primary secondary w1))
               else (case chat_primary_loop os fmt (hst_width settings) stops primary secondary cw w1 of
                  None \<Rightarrow> None
                | Some (cw2, w2) \<Rightarrow>
                    if tw_stopped cw2
                    then Some (Finished 0 (tw_out cw2) (release_queues os primary secondary w2))
                    else Some (In_Loop (primary, secondary, cw2) w2))))"

subsection \<open>Signals: lemmas\<close>

lemma signal_lawsD:
  assumes "signal_laws os actions blocked"
  shows "actions (snd (sg_action os s a w)) =
      (if s = SIGKILL \<or> s = SIGSTOP then actions w else (actions w)(s := a))"
    "blocked (snd (sg_action os s a w)) = blocked w"
    "actions (snd (sg_mask os b S w)) = actions w"
    "blocked (snd (sg_mask os b S w)) =
      (if b then blocked w \<union> (S - {SIGKILL, SIGSTOP}) else blocked w - S)"
  using assms unfolding signal_laws_def by blast+

lemma setup_program_signals:
  assumes "signal_laws os actions blocked"
  shows "actions (setup_program os h w) = (actions w)
      (SIGINT := \<lparr>sa_handler = h, sa_mask = UNIV\<rparr>, SIGTERM := \<lparr>sa_handler = h, sa_mask = UNIV\<rparr>)"
    "blocked (setup_program os h w) = blocked w"
  by (simp_all add: setup_program_def signals_setup_def signal_lawsD[OF assms] signal_numbers)

lemma textbox_threads_signals:
  assumes "signal_laws os actions blocked" "start_textbox_threads os blocked w = (sender, reader, w1)"
  shows "sender = insert SIGPIPE (blocked w)" "reader = blocked w - {SIGPIPE}" "blocked w1 = reader"
    "actions w1 = actions w"
  using assms(2)
  by (auto simp: start_textbox_threads_def signals_block_def signals_unblock_def Let_def
      signal_lawsD[OF assms(1)] signal_numbers)

subsection \<open>Bytes that are handed over\<close>

text \<open>The operating system hands the bytes over one receive after the other.\<close>

fun shm_hands_over :: "'w syscall \<Rightarrow> shared_mem \<Rightarrow> 'w \<Rightarrow> string list \<Rightarrow> bool" where
  "shm_hands_over os m w [] = True"
| "shm_hands_over os m w (x # xs) =
     (let (received, bytes, m1, w1) = shm_receive os 3 1000 m w
      in received \<and> bytes = Some x \<and> shm_hands_over os m1 w1 xs)"

fun mq_hands_over :: "'w syscall \<Rightarrow> message_queue \<Rightarrow> 'w \<Rightarrow> string list \<Rightarrow> bool" where
  "mq_hands_over os q w [] = True"
| "mq_hands_over os q w (x # xs) =
     (let (received, bytes, w1) = mq_receive os 3 1000 q w
      in received \<and> bytes = Some x \<and> mq_hands_over os q w1 xs)"

text \<open>Messages laid out as bytes, each with a padding of its own.\<close>

definition contacts_laid_out :: "contacts_message list \<Rightarrow> string list \<Rightarrow> bool" where
  "contacts_laid_out = list_all2 (\<lambda>m x. contacts_typed m \<and> (\<exists>junk. x = contacts_bytes junk m))"

definition chat_laid_out :: "chat_message list \<Rightarrow> string list \<Rightarrow> bool" where
  "chat_laid_out = list_all2 (\<lambda>m x. chat_typed m \<and> (\<exists>junk. x = chat_bytes junk m))"

lemma shm_receive_alive:
  "shm_receive os n t m w = (r, x, m1, w1) \<Longrightarrow> r \<Longrightarrow> shm_alive m1 \<and> shm_alive m"
  by (auto simp: shm_receive_def shm_alive_def split: if_splits prod.splits)

lemma entries_handle_state:
  "mStatus m = STATE \<Longrightarrow> entries_handle (mEntries cw) m = Some es \<Longrightarrow>
   \<exists>cw1. contacts_handle m cw = Some (True, cw1) \<and> mEntries cw1 = es"
proof -
  assume st: "mStatus m = STATE" and es: "entries_handle (mEntries cw) m = Some es"
  then obtain r cw1 where run: "contacts_handle m cw = Some (r, cw1)"
    using contacts_handle_entries(1)[of m cw] by (cases "contacts_handle m cw") auto
  then have "r"
    using st by (auto simp: contacts_handle_def contacts_refresh_def split: if_splits)
  with run contacts_handle_entries(2)[OF run] es show ?thesis
    by simp
qed

text \<open>The loop after messages of contacts: the entries they leave are on the screen.\<close>

lemma contacts_loop_delivers:
  assumes "contacts_laid_out ms xs" "\<forall>m \<in> set ms. mStatus m = STATE"
    and "entries_after (mEntries cw) ms = Some es" "\<not> cw_stopped cw" "shm_hands_over os m w (xs @ ys)"
    and "mEntries cw = [] \<or> (\<exists>p. cw_out cw = p @ contacts_screen (mEntries cw))"
  shows "\<exists>m1 cw1 w1. contacts_loop os (replicate (length ms) False @ bs) m cw w = contacts_loop os bs m1 cw1 w1 \<and>
    mEntries cw1 = es \<and> \<not> cw_stopped cw1 \<and> shm_hands_over os m1 w1 ys \<and>
    (es = [] \<or> (\<exists>p. cw_out cw1 = p @ contacts_screen es))"
  using assms unfolding contacts_laid_out_def
proof (induction arbitrary: cw m w rule: list_all2_induct)
  case Nil
  then show ?case
    by (intro exI[of _ m] exI[of _ cw] exI[of _ w]) auto
next
  case (Cons c ms x xs)
  obtain r b m1 w1 where rec: "shm_receive os 3 1000 m w = (r, b, m1, w1)"
    by (cases "shm_receive os 3 1000 m w") auto
  with Cons.prems(4) have b: "r" "b = Some x" "shm_hands_over os m1 w1 (xs @ ys)"
    by simp_all
  obtain es1 where es1: "entries_handle (mEntries cw) c = Some es1" "entries_after es1 ms = Some es"
    using Cons.prems(2) by (auto split: option.splits)
  obtain cw1 where cw1: "contacts_handle c cw = Some (True, cw1)" "mEntries cw1 = es1"
    using entries_handle_state[OF _ es1(1)] Cons.prems(1) by auto
  have "\<not> cw_stopped cw1" "cw_out cw1 = cw_out cw @ contacts_screen (mEntries cw1)"
    using contacts_handle_frame[OF cw1(1)] contacts_handle_screen[OF cw1(1)] Cons.prems(1,3) by simp_all
  with Cons.IH[of cw1 m1 w1] Cons.prems(1) es1(2) cw1(2) b(3) obtain m2 cw2 w2 where
    "contacts_loop os (replicate (length ms) False @ bs) m1 cw1 w1 = contacts_loop os bs m2 cw2 w2"
    "mEntries cw2 = es" "\<not> cw_stopped cw2" "shm_hands_over os m2 w2 ys"
    "es = [] \<or> (\<exists>p. cw_out cw2 = p @ contacts_screen es)"
    by auto
  moreover have "contacts_of_bytes x = Some c"
    using Cons.hyps(1) contacts_of_bytes_bytes by blast
  ultimately show ?case
    using rec b(1,2) cw1(1) Cons.prems(3) shm_receive_alive[OF rec b(1)]
    by (intro exI[of _ m2] exI[of _ cw2] exI[of _ w2]) simp
qed

lemma contacts_loop_goodbye:
  assumes "\<not> cw_stopped cw" "shm_hands_over os m w [contacts_bytes junk goodbye_message]"
  shows "\<exists>m1 w1. contacts_loop os (False # bs) m cw w = Some (m1, contacts_interrupt cw, w1)"
proof -
  obtain r b m1 w1 where rec: "shm_receive os 3 1000 m w = (r, b, m1, w1)"
    by (cases "shm_receive os 3 1000 m w") auto
  have "contacts_typed goodbye_message"
    by (simp add: goodbye_message_def contacts_typed_def message_wf_def blank_message_def
        TTCONTACTS_DATA_MAX_LENGTH_def)
  then have "contacts_of_bytes (contacts_bytes junk goodbye_message) = Some goodbye_message"
    by (rule contacts_of_bytes_bytes)
  moreover have "contacts_handle goodbye_message cw = Some (False, cw)"
    by (simp add: contacts_handle_def goodbye_message_def)
  ultimately show ?thesis
    using rec assms shm_receive_alive[OF rec] by auto
qed

lemma chat_handle_frame: "chat_handle fmt width m cw = Some (True, cw1) \<Longrightarrow> tw_stopped cw1 = tw_stopped cw"
  by (auto simp: chat_handle_def bind_eq_Some_conv split: chat_message_type.splits if_splits)

lemma chat_loop_delivers:
  assumes "chat_laid_out ms xs" "window_after fmt width cw ms = Some cw1" "\<not> tw_stopped cw"
    and "mq_hands_over os q w (xs @ ys)"
  shows "\<exists>w1. chat_loop os fmt width (replicate (length ms) False @ bs) q cw w =
      chat_loop os fmt width bs q cw1 w1 \<and> \<not> tw_stopped cw1 \<and> mq_hands_over os q w1 ys"
  using assms unfolding chat_laid_out_def
proof (induction arbitrary: cw w rule: list_all2_induct)
  case Nil
  then show ?case
    by (intro exI[of _ w]) auto
next
  case (Cons c ms x xs)
  obtain r b w1 where rec: "mq_receive os 3 1000 q w = (r, b, w1)"
    by (cases "mq_receive os 3 1000 q w") auto
  with Cons.prems(3) have b: "r" "b = Some x" "mq_hands_over os q w1 (xs @ ys)"
    by simp_all
  obtain cw2 where cw2: "chat_handle fmt width c cw = Some (True, cw2)"
    "window_after fmt width cw2 ms = Some cw1"
    using Cons.prems(1) by (auto split: option.splits prod.splits bool.splits)
  obtain w2 where
    "chat_loop os fmt width (replicate (length ms) False @ bs) q cw2 w1 = chat_loop os fmt width bs q cw1 w2"
    "\<not> tw_stopped cw1" "mq_hands_over os q w2 ys"
    using Cons.IH[OF cw2(2) _ b(3)] chat_handle_frame[OF cw2(1)] Cons.prems(2) by auto
  moreover have "chat_of_bytes x = Some c"
    using Cons.hyps(1) chat_of_bytes_bytes by blast
  ultimately show ?case
    using rec b(1,2) cw2(1) Cons.prems(2) by (intro exI[of _ w2]) simp
qed

lemma chat_loop_goodbye:
  assumes "\<not> tw_stopped cw" "mq_hands_over os q w [chat_bytes junk chat_goodbye]"
  shows "\<exists>w1. chat_loop os fmt width (False # bs) q cw w = Some (chat_interrupt cw, w1)"
proof -
  obtain r b w1 where rec: "mq_receive os 3 1000 q w = (r, b, w1)"
    by (cases "mq_receive os 3 1000 q w") auto
  have "chat_typed chat_goodbye"
    by (simp add: chat_goodbye_def chat_typed_def blank_chat_message_def)
  then have "chat_of_bytes (chat_bytes junk chat_goodbye) = Some chat_goodbye"
    by (rule chat_of_bytes_bytes)
  moreover have "chat_handle fmt width chat_goodbye cw = Some (False, chat_interrupt cw)"
    by (simp add: chat_handle_def chat_goodbye_def chat_interrupt_def)
  ultimately show ?thesis
    using rec assms by (auto simp: chat_interrupt_def)
qed

subsection \<open>What the handlers have queued\<close>

definition contacts_shown :: "contacts_handler \<Rightarrow> bool" where
  "contacts_shown h \<longleftrightarrow> contacts_inv h \<and> contacts_queue_typed h \<and>
     (\<exists>es. entries_after [] (mQueuedMessages h) = Some es \<and> (ch_stopped h \<or> es = mirror h))"

definition chat_shown :: "(timestamp \<Rightarrow> string) \<Rightarrow> nat \<Rightarrow> chat_handler \<Rightarrow> bool" where
  "chat_shown fmt width h \<longleftrightarrow> 2 \<le> width \<and> chat_inv h \<and> chat_store_typed h \<and>
     queue_shows fmt width init_chat_window h"

interpretation shown_contacts: machine contacts_step contacts_shown contacts_op_ok
proof
  fix h x assume h: "contacts_shown h" and x: "contacts_op_ok x"
  then obtain r h' where st: "contacts_step h x = Some (r, h')" "contacts_inv h'" "contacts_queue_typed h'"
    using wire_contacts.step_ok[of h x] by (auto simp: contacts_shown_def)
  moreover have "\<exists>es. entries_after [] (mQueuedMessages h') = Some es \<and> (ch_stopped h' \<or> es = mirror h')"
    using h entries_after_queue[OF _ x st(1)] unfolding contacts_shown_def by blast
  ultimately show "\<exists>r h'. contacts_step h x = Some (r, h') \<and> contacts_shown h'"
    by (simp add: contacts_shown_def)
qed

interpretation shown_chat: machine chat_step "chat_shown fmt width" chat_op_clock
  for fmt width
proof
  fix h x assume h: "chat_shown fmt width h" and x: "chat_op_clock x"
  then obtain r h' where st: "chat_step h x = Some (r, h')" "chat_store_typed h'"
    using wire_chat.step_ok[of h x] unfolding chat_shown_def by blast
  moreover have "chat_inv h'" "queue_shows fmt width init_chat_window h'"
    using h chat.step_inv[OF _ _ st(1)] queue_shows_step[OF _ _ _ st(1)] by (simp_all add: chat_shown_def)
  ultimately show "\<exists>r h'. chat_step h x = Some (r, h') \<and> chat_shown fmt width h'"
    using h by (simp add: chat_shown_def)
qed

lemma contacts_shown_init: "contacts_shown init_contacts_handler"
  using contacts_inv_init
  by (simp add: contacts_shown_def contacts_queue_typed_def init_contacts_handler_def mirror_def)

lemma chat_shown_init: "2 \<le> width \<Longrightarrow> chat_shown fmt width init_chat_handler"
  using chat_inv_init chat_system_inv_init[of width fmt]
  by (simp add: chat_shown_def chat_system_inv_def init_chat_system_def)
    (simp add: chat_store_typed_def init_chat_handler_def)

lemma laid_out_goodbye:
  assumes "list_all2 (\<lambda>m x. \<exists>junk. x = f junk m) (ms @ [g]) xs"
  obtains ys junk where "xs = ys @ [f junk g]" "list_all2 (\<lambda>m x. \<exists>junk. x = f junk m) ms ys"
proof -
  obtain ys zs where "xs = ys @ zs" "list_all2 (\<lambda>m x. \<exists>junk. x = f junk m) ms ys"
    "list_all2 (\<lambda>m x. \<exists>junk. x = f junk m) [g] zs"
    using assms by (auto simp: list_all2_append1)
  with that show ?thesis
    by (auto simp: list_all2_Cons1)
qed

lemma laid_out_typed:
  "list_all2 (\<lambda>m x. \<exists>junk. x = f junk m) ms xs \<Longrightarrow> \<forall>m \<in> set ms. P m \<Longrightarrow>
   list_all2 (\<lambda>m x. P m \<and> (\<exists>junk. x = f junk m)) ms xs"
  by (induction rule: list_all2_induct) auto

text \<open>An operating system that hands over the strings of a list, and one that keeps signals.\<close>

definition relay_os :: "string list syscall" where
  "relay_os = failing_os\<lparr>
     sc_sem_open := \<lambda>n c w. (1, w), sc_shm_open := \<lambda>n c w. (3, w), sc_mmap := \<lambda>k fd w. (4, w),
     sc_clock_gettime := \<lambda>w. ((0, 0), w), sc_sem_timedwait := \<lambda>s t w. (0, w),
     sc_sem_post := \<lambda>s w. (0, tl w), sc_memory := \<lambda>a w. hd w,
     sc_mq_open := \<lambda>n c k l w. (3, w),
     sc_mq_timedreceive := \<lambda>d k t w. ((int (length (hd w)), EAGAIN, hd w), tl w)\<rparr>"

lemma relay_shm:
  "shm_alive m \<Longrightarrow> \<forall>x \<in> set xs. length x = mSharedMessageSize m \<Longrightarrow> shm_hands_over relay_os m xs xs"
proof (induction xs arbitrary: m)
  case (Cons x xs)
  have "shm_receive relay_os 3 1000 m (x # xs) = (True, Some x, m\<lparr>mAlive := True\<rparr>, xs)"
    using Cons.prems by (simp add: shm_receive_def shm_alive_def relay_os_def Let_def numeral_3_eq_3)
  with Cons.IH[of "m\<lparr>mAlive := True\<rparr>"] Cons.prems show ?case
    by (simp add: shm_alive_def)
qed simp

lemma relay_mq: "mq_alive q \<Longrightarrow> mq_hands_over relay_os q xs xs"
  by (induction xs) (simp_all add: mq_receive_def relay_os_def Let_def numeral_3_eq_3)

lemma relay_contacts:
  "\<exists>m. new_TTContacts relay_os settings w = (Inr (m, init_contacts_window), w) \<and> shm_alive m \<and>
    mSharedMessageSize m = sizeof_contacts_message"
  by (simp add: new_TTContacts_def contacts_getSharedMemory_def new_shared_mem_def shm_open_def
      shm_alive_def relay_os_def Let_def eval_nat_numeral)

lemma relay_chat:
  "\<exists>p s side. new_TTChat relay_os settings w = (Inr (p, s, side, init_chat_window), w) \<and> mq_alive p"
  by (simp add: new_TTChat_def getPrimaryMessageQueue_def getSecondaryMessageQueue_def
      new_message_queue_def mq_open_def mq_alive_def relay_os_def Let_def eval_nat_numeral)

definition keeping_signals :: "('h, (int \<Rightarrow> 'h signal_action) \<times> int set) signal_calls" where
  "keeping_signals =
     \<lparr>sg_action = \<lambda>s a (acts, mask).
        if s = SIGKILL \<or> s = SIGSTOP then (-1, (acts, mask)) else (0, (acts(s := a), mask)),
      sg_mask = \<lambda>b S (acts, mask).
        (0, (acts, if b then mask \<union> (S - {SIGKILL, SIGSTOP}) else mask - S))\<rparr>"

lemma keeping_signals_laws: "signal_laws keeping_signals fst snd"
  by (auto simp: signal_laws_def keeping_signals_def)

lemma list_all2_map_bytes: "list_all2 (\<lambda>m x. \<exists>junk. x = f junk m) ms (map (f j) ms)"
  by (induction ms) auto

lemma sizes_read: "stream_size (to_string 80) = Some 80" "stream_size (to_string 24) = Some 24"
  "from_chars (to_string 80) = Inr 80" "from_chars (to_string 24) = Inr 24"
  using stream_size_to_string[of 80] stream_size_to_string[of 24] from_chars_to_string[of 80]
    from_chars_to_string[of 24] by (simp_all add: SIZE_MAX1_def)

subsection \<open>Properties\<close>

text \<open>
  C15: whatever the contacts handler was asked, the program of the contacts window, given the bytes of the
  messages it queued and of its goodbye, decodes and handles them all and exits, and the last screen it
  printed shows exactly the handler's contacts.
\<close>

theorem contacts_program_shows:
  assumes "list_all contacts_op_ok cs" "run_ops contacts_step init_contacts_handler cs = Some (rs, h)"
    and "\<not> ch_stopped h" "length (mContacts h) \<le> 2 ^ 64"
    and "new_contacts_settings argv = Inr settings" "new_TTContacts os settings w = (Inr (m, cw), w1)"
    and "list_all2 (\<lambda>m x. \<exists>junk. x = contacts_bytes junk m) (mQueuedMessages h @ [goodbye_message]) xs"
    and "shm_hands_over os m w1 xs"
  shows "\<exists>out w2. contacts_program os argv False (replicate (length xs) False) w = Some (Finished 0 out w2) \<and>
    (mContacts h = [] \<or> (\<exists>p. out = p @ contacts_screen (mirror h)))"
proof -
  have h: "contacts_shown h"
    by (rule shown_contacts.run_inv[OF contacts_shown_init assms(1,2)])
  then have es: "entries_after [] (mQueuedMessages h) = Some (mirror h)"
    using assms(3) by (auto simp: contacts_shown_def)
  have typed: "\<forall>m \<in> set (mQueuedMessages h). contacts_typed m" "\<forall>m \<in> set (mQueuedMessages h). mStatus m = STATE"
    using h queued_contacts_typed[OF _ assms(4)] by (auto simp: contacts_shown_def contacts_queue_typed_def)
  obtain ys junk where xs: "xs = ys @ [contacts_bytes junk goodbye_message]"
    "list_all2 (\<lambda>m x. \<exists>junk. x = contacts_bytes junk m) (mQueuedMessages h) ys"
    using laid_out_goodbye[OF assms(7)] .
  then have laid: "contacts_laid_out (mQueuedMessages h) ys" and len: "length (mQueuedMessages h) = length ys"
    using laid_out_typed[OF _ typed(1)] list_all2_lengthD by (auto simp: contacts_laid_out_def)
  have cw: "cw = init_contacts_window"
    using assms(6) by (auto simp: new_TTContacts_def split: if_splits prod.splits)
  obtain m1 cw1 w2 where run: "contacts_loop os (replicate (length ys) False @ [False]) m cw w1 =
      contacts_loop os [False] m1 cw1 w2" "\<not> cw_stopped cw1"
    "shm_hands_over os m1 w2 [contacts_bytes junk goodbye_message]"
    "mirror h = [] \<or> (\<exists>p. cw_out cw1 = p @ contacts_screen (mirror h))"
    using contacts_loop_delivers[OF laid typed(2), of cw "mirror h" os m w1
        "[contacts_bytes junk goodbye_message]" "[False]"] es assms(8) xs(1) len
    by (auto simp: cw init_contacts_window_def)
  obtain m2 w3 where "contacts_loop os [False] m1 cw1 w2 = Some (m2, contacts_interrupt cw1, w3)"
    using contacts_loop_goodbye[OF run(2,3)] by blast
  moreover have "mirror h = [] \<longleftrightarrow> mContacts h = []"
    by (metis length_mirror length_0_conv)
  ultimately show ?thesis
    using run(1,4) xs(1) assms(5,6)
    by (auto simp: contacts_program_def contacts_interrupt_def replicate_append_same
        simp del: contacts_loop.simps)
qed

theorem contacts_program_shows_witness:
  "\<exists>h xs out w2. run_ops contacts_step init_contacts_handler
      [ContactsCreate ''ann'' ''a'' ''10.0.0.1:80'', ContactsSelect 0] = Some ([True, True], h) \<and>
    contacts_program relay_os [''contacts'', to_string 80, to_string 24, ''con''] False
      (replicate (length xs) False) xs = Some (Finished 0 out w2) \<and>
    (mContacts h = [] \<or> (\<exists>p. out = p @ contacts_screen (mirror h)))"
proof -
  let ?cs = "[ContactsCreate ''ann'' ''a'' ''10.0.0.1:80'', ContactsSelect 0]"
  have ok: "list_all contacts_op_ok ?cs"
    by (simp add: TTCONTACTS_DATA_MAX_LENGTH_def)
  obtain h where run: "run_ops contacts_step init_contacts_handler ?cs = Some ([True, True], h)"
    "\<not> ch_stopped h" "length (mContacts h) = 1"
    by (simp add: contacts_create_def contacts_select_def contacts_unselect_def contacts_notify_def
        setNickname_def TTCONTACTS_DATA_MAX_LENGTH_def init_contacts_handler_def contacts_queue_def
        new_handler_entry_def set_state_def Let_def)
  obtain s where s: "new_contacts_settings [''contacts'', to_string 80, to_string 24, ''con''] = Inr s"
    by (simp add: new_contacts_settings_def sizes_read)
  let ?ms = "mQueuedMessages h @ [goodbye_message]"
  let ?xs = "map (contacts_bytes (\<lambda>i. CHR ''?'')) ?ms"
  obtain m where m: "new_TTContacts relay_os s ?xs = (Inr (m, init_contacts_window), ?xs)" "shm_alive m"
    "mSharedMessageSize m = sizeof_contacts_message"
    using relay_contacts by blast
  have "contacts_shown h"
    by (rule shown_contacts.run_inv[OF contacts_shown_init ok run(1)])
  then have "\<forall>m \<in> set ?ms. length (mData m) = TTCONTACTS_DATA_MAX_LENGTH"
    by (auto simp: contacts_shown_def contacts_queue_typed_def message_wf_def goodbye_message_def
        blank_message_def)
  then have "\<forall>x \<in> set ?xs. length x = mSharedMessageSize m"
    using contacts_bytes_length m(3) by auto
  note bytes = relay_shm[OF m(2) this]
  have "length (mContacts h) \<le> 2 ^ 64"
    using run(3) by simp
  from contacts_program_shows[OF ok run(1,2) this s m(1) list_all2_map_bytes bytes] run(1)
  show ?thesis
    by blast
qed

text \<open>
  C16: whatever the chat handler was asked, the program of the chat window, on a terminal of at least two
  columns and given the bytes of the queued messages and of the goodbye, exits, and since the terminal
  was last cleared it has printed exactly the current conversation.
\<close>

theorem chat_program_shows:
  assumes "list_all chat_op_clock cs" "run_ops chat_step init_chat_handler cs = Some (rs, h)"
    and "new_chat_settings argv = Some (Inr settings)" "2 \<le> hst_width settings"
    and "new_TTChat os settings w = (Inr (primary, secondary, side, cw), w1)"
    and "list_all2 (\<lambda>m x. \<exists>junk. x = chat_bytes junk m) (th_queue h @ [chat_goodbye]) xs"
    and "mq_hands_over os primary w1 xs"
  shows "\<exists>pre outs w2. chat_program os fmt argv False (replicate (length xs) False) w =
      Some (Finished 0 (pre @ concat outs) w2) \<and>
    (pre = [] \<or> (\<exists>q. pre = q @ CLEAR_SCREEN)) \<and>
    map (\<lambda>e. chat_print fmt (hst_width settings) (te_type e) (te_timestamp e) (te_data e)) (conversation h) =
      map Some outs"
proof -
  let ?width = "hst_width settings"
  have h: "chat_shown fmt ?width h"
    by (rule shown_chat.run_inv[OF chat_shown_init[OF assms(4)] assms(1,2)])
  then obtain cw1 where cw1: "window_after fmt ?width init_chat_window (th_queue h) = Some cw1"
    "on_screen fmt ?width (conversation h) (tw_out cw1)"
    by (auto simp: chat_shown_def queue_shows_def)
  have typed: "\<forall>m \<in> set (th_queue h). chat_typed m"
    using h by (simp add: chat_shown_def chat_store_typed_def)
  obtain ys junk where xs: "xs = ys @ [chat_bytes junk chat_goodbye]"
    "list_all2 (\<lambda>m x. \<exists>junk. x = chat_bytes junk m) (th_queue h) ys"
    using laid_out_goodbye[OF assms(6)] .
  then have laid: "chat_laid_out (th_queue h) ys" and len: "length (th_queue h) = length ys"
    using laid_out_typed[OF _ typed] list_all2_lengthD by (auto simp: chat_laid_out_def)
  have cw: "cw = init_chat_window" "mq_alive primary" "mq_alive secondary"
    using assms(5) by (auto simp: new_TTChat_def mq_open_def mq_alive_def Let_def split: if_splits prod.splits)
  have fresh: "\<not> tw_stopped init_chat_window"
    by (simp add: init_chat_window_def)
  obtain w2 where run: "chat_loop os fmt ?width (replicate (length ys) False @ [False]) primary cw w1 =
      chat_loop os fmt ?width [False] primary cw1 w2" "\<not> tw_stopped cw1"
    "mq_hands_over os primary w2 [chat_bytes junk chat_goodbye]"
    using chat_loop_delivers[OF laid cw1(1) fresh assms(7)[unfolded xs(1)], where bs = "[False]"]
    unfolding cw(1) len by blast
  obtain w3 where "chat_loop os fmt ?width [False] primary cw1 w2 = Some (chat_interrupt cw1, w3)"
    using chat_loop_goodbye[OF run(2,3)] by blast
  with run(1) xs(1) assms(3,5) cw(2,3)
  have "chat_program os fmt argv False (replicate (length xs) False) w =
      Some (Finished 0 (tw_out cw1) (release_queues os primary secondary w3))"
    by (simp add: chat_program_def chat_primary_loop_def chat_interrupt_def replicate_append_same
        del: chat_loop.simps)
  moreover have "map (\<lambda>e. chat_print fmt ?width (te_type e) (te_timestamp e) (te_data e)) es =
      map Some (map (rendering fmt ?width) es)" for es
    by (simp add: rendering_eq[OF assms(4)])
  ultimately show ?thesis
    using cw1(2) unfolding on_screen_def by metis
qed

theorem chat_program_shows_witness:
  "\<exists>rs h xs out w2. run_ops chat_step init_chat_handler
      [ChatCreate 0, ChatSelect 17 0, ChatSend 0 ''hi'' 18] = Some (rs, h) \<and>
    xs = map (chat_bytes (\<lambda>i. CHR ''?'')) (th_queue h @ [chat_goodbye]) \<and>
    chat_program relay_os (\<lambda>t. ''now'') [''chat'', to_string 80, to_string 24, ''room''] False
      (replicate (length xs) False) xs = Some (Finished 0 out w2)"
proof -
  let ?cs = "[ChatCreate 0, ChatSelect 17 0, ChatSend 0 ''hi'' 18]"
  have ok: "list_all chat_op_clock ?cs"
    by (simp add: in_clock_def)
  obtain rs h where run: "run_ops chat_step init_chat_handler ?cs = Some (rs, h)"
    using shown_chat.run_total[OF chat_shown_init[of 80 "\<lambda>t. ''now''"] ok] by auto
  obtain s where s: "new_chat_settings [''chat'', to_string 80, to_string 24, ''room''] = Some (Inr s)"
    "hst_width s = 80"
    by (simp add: new_chat_settings_def sizes_read)
  let ?xs = "map (chat_bytes (\<lambda>i. CHR ''?'')) (th_queue h @ [chat_goodbye])"
  obtain p q side where p: "new_TTChat relay_os s ?xs = (Inr (p, q, side, init_chat_window), ?xs)" "mq_alive p"
    using relay_chat by blast
  have "2 \<le> hst_width s"
    using s(2) by simp
  from chat_program_shows[OF ok run s(1) this p(1) list_all2_map_bytes relay_mq[OF p(2)], of "\<lambda>t. ''now''"]
    run
  show ?thesis
    by blast
qed

text \<open>
  The programs handle \<open>SIGINT\<close> and \<open>SIGTERM\<close>, with all signals blocked meanwhile, and change the action of
  no other signal, \<open>SIGSTOP\<close> included, which they ask for as well; of the text box's threads
  the sender, and only the sender, runs with \<open>SIGPIPE\<close> blocked, so that a pipe without a reader fails
  its writes instead of killing the process.
\<close>

theorem signals_arranged:
  assumes "signal_laws os actions blocked" "SIGPIPE \<notin> blocked w"
    and "start_textbox_threads os blocked (setup_program os handler w) = (sender, reader, w1)"
  shows "actions w1 = (\<lambda>s. if s = SIGINT \<or> s = SIGTERM then \<lparr>sa_handler = handler, sa_mask = UNIV\<rparr>
      else actions w s) \<and>
    sender = insert SIGPIPE (blocked w) \<and> reader = blocked w \<and> blocked w1 = blocked w"
  using textbox_threads_signals[OF assms(1,3)] assms(2) setup_program_signals[OF assms(1), of handler w]
  by auto

theorem signals_arranged_witness:
  "fst (start_textbox_threads keeping_signals snd (setup_program keeping_signals True
     ((\<lambda>s. \<lparr>sa_handler = False, sa_mask = {}\<rparr>), {}))) = {SIGPIPE}"
proof -
  let ?w = "((\<lambda>s. \<lparr>sa_handler = False, sa_mask = {}\<rparr>), {}) :: (int \<Rightarrow> bool signal_action) \<times> int set"
  obtain sender reader w1 where
    t: "start_textbox_threads keeping_signals snd (setup_program keeping_signals True ?w) = (sender, reader, w1)"
    by (cases "start_textbox_threads keeping_signals snd (setup_program keeping_signals True ?w)") auto
  from signals_arranged[OF keeping_signals_laws _ t] show ?thesis
    unfolding t by simp
qed

end
