(* ===== verification/Engine_Program.thy ===== *)
theory Engine_Program
  imports Programs Engine
begin

text \<open>
  The program of the engine (engine/src/Main.cpp): the objects \<open>TTAbstractFactory\<close> makes, the
  constructor of \<open>TTEngine\<close> with its failures, \<open>TTServer\<close>, the supervision loop and the end; and the
  program of the text box (textbox/src/Main.cpp).  The stages are those of Settings, Startup and
  Engine over the operating system of Syscall.

  What the threads of the objects do to the operating system until they have ended is a parameter;
  \<open>None\<close> is behavior the code leaves undefined, or an abort.
\<close>

subsection \<open>\<open>TTServer\<close>\<close>

text \<open>
  \<open>BuildAndStart\<close> gives a null pointer when the server cannot be started, for instance because the address is
  not one of the host; the constructor does not look.
\<close>

record server =
  sv_grpc :: bool
  sv_stopped :: bool

definition new_TTServer :: "bool \<Rightarrow> server" where
  "new_TTServer built = \<lparr>sv_grpc = built, sv_stopped = False\<rparr>"

text \<open>\<open>run\<close> returns after \<open>Shutdown\<close>; both go through the pointer.\<close>

definition server_run :: "server \<Rightarrow> server option" where
  "server_run s = (if sv_grpc s then Some s else None)"

definition server_onStop :: "server \<Rightarrow> server option" where
  "server_onStop s = (if sv_grpc s then Some (s\<lparr>sv_stopped := True\<rparr>) else None)"

subsection \<open>The factory\<close>

text \<open>A \<open>create\<close> function throws, or returns a pointer, which may be null.\<close>

datatype 'a made =
    Thrown string
  | Made "'a option"

record 'w factory =
  createContactsHandler :: "'w \<Rightarrow> shared_mem made \<times> 'w"
  createChatHandler :: "'w \<Rightarrow> (message_queue \<times> message_queue) made \<times> 'w"
  createTextBoxHandler :: "'w \<Rightarrow> named_pipe made \<times> 'w"
  createNeighborsStub :: bool
  createBroadcasterChat :: bool
  createBroadcasterDiscovery :: bool
  createNeighborsServiceChat :: bool
  createNeighborsServiceDiscovery :: bool
  createServer :: "server option"

text \<open>
  \<open>TTAbstractFactory\<close>: \<open>make_unique\<close> never returns null.  The stub, the broadcasters and the services
  have constructors that cannot fail.
\<close>

definition abstract_factory ::
  "'w syscall \<Rightarrow> (contacts_message \<Rightarrow> string) \<Rightarrow> bool \<Rightarrow> engine_settings \<Rightarrow> 'w factory" where
  "abstract_factory os layout built s =
     \<lparr>createContactsHandler = (\<lambda>w. case new_TTContactsHandler os layout (est_contacts s) w of
        (Inl what, w1) \<Rightarrow> (Thrown what, w1) | (Inr (m, h), w1) \<Rightarrow> (Made (Some m), w1)),
      createChatHandler = (\<lambda>w. case new_TTChatHandler os (est_chat s) w of
        (Inl what, w1) \<Rightarrow> (Thrown what, w1) | (Inr (p, q, h), w1) \<Rightarrow> (Made (Some (p, q)), w1)),
      createTextBoxHandler = (\<lambda>w. case new_TTTextBoxHandler os (est_textbox s) w of
        (Inl what, w1) \<Rightarrow> (Thrown what, w1) | (Inr x, w1) \<Rightarrow> (Made (Some x), w1)),
      createNeighborsStub = True, createBroadcasterChat = True, createBroadcasterDiscovery = True,
      createNeighborsServiceChat = True, createNeighborsServiceDiscovery = True,
      createServer = Some (new_TTServer built)\<rparr>"

subsection \<open>Construction and destruction\<close>

text \<open>The handlers that exist are destroyed in the reverse order of their declaration.\<close>

definition destroy_handlers ::
  "'w syscall \<Rightarrow> shared_mem option \<Rightarrow> (message_queue \<times> message_queue) option \<Rightarrow> named_pipe option \<Rightarrow> 'w \<Rightarrow> 'w" where
  "destroy_handlers os c h x w =
     (let w1 = (case x of None \<Rightarrow> w | Some p \<Rightarrow> snd (pipe_destruct os p w));
          w2 = (case h of None \<Rightarrow> w1 | Some (p, q) \<Rightarrow> release_queues os p q w1)
      in case c of None \<Rightarrow> w2 | Some m \<Rightarrow> snd (snd (shm_destroy os m w2)))"

text \<open>The handlers of an engine, and its server.\<close>

record connections =
  cn_contacts :: shared_mem
  cn_chat :: "message_queue \<times> message_queue"
  cn_textbox :: named_pipe
  cn_server :: server

text \<open>
  The constructor: \<open>busy\<close> is what the threads of the handlers do between an exception and their end, and
  \<open>draw\<close> what the timer factory and the clock give for a neighbor.
\<close>

definition construct_engine ::
  "'w syscall \<Rightarrow> 'w factory \<Rightarrow> engine_settings \<Rightarrow> (string \<Rightarrow> int \<times> int) \<Rightarrow> timestamp \<Rightarrow> ('w \<Rightarrow> 'w) \<Rightarrow> 'w \<Rightarrow>
   ((string + connections \<times> engine) \<times> 'w) option" where
  "construct_engine os fa s draw now busy w =
     (case createContactsHandler fa w of
        (Thrown what, w1) \<Rightarrow> Some (Inl what, w1)
      | (Made c, w1) \<Rightarrow>
     (case createChatHandler fa w1 of
        (Thrown what, w2) \<Rightarrow> Some (Inl what, destroy_handlers os c None None (busy w2))
      | (Made h, w2) \<Rightarrow>
     (case createTextBoxHandler fa w2 of
        (Thrown what, w3) \<Rightarrow> Some (Inl what, destroy_handlers os c h None (busy w3))
      | (Made x, w3) \<Rightarrow>
          let throw = (\<lambda>what. Some (Inl what, destroy_handlers os c h x (busy w3))) in
          if c = None \<or> h = None \<or> x = None then throw ''TTEngine: Failed to create handlers!''
          else (case new_engine (est_nickname s) (est_identity s) (ni_ipAddress (est_interface s))
              (ni_port (est_interface s)) (map (\<lambda>a. (a, draw a)) (est_neighbors s)) now of
             None \<Rightarrow> None
           | Some e \<Rightarrow>
               if \<not> createNeighborsStub fa then throw ''TTEngine: Failed to create neighbors stub!''
               else if \<not> createBroadcasterChat fa \<or> \<not> createBroadcasterDiscovery fa
               then throw ''TTEngine: Failed to create broadcasters!''
               else if \<not> createNeighborsServiceChat fa \<or> \<not> createNeighborsServiceDiscovery fa
               then throw ''TTEngine: Failed to create services!''
               else (case createServer fa of
                  None \<Rightarrow> throw ''TTEngine: Failed to create gRPC server!''
                | Some sv \<Rightarrow> Some (Inr (\<lparr>cn_contacts = the c, cn_chat = the h, cn_textbox = the x,
                    cn_server = sv\<rparr>, e), w3))))))"

subsection \<open>The programs\<close>

text \<open>
  \<open>run\<close>: every turn meets what callbacks, requests and loops did since the one before.  The
  result tells whether the loop has ended.
\<close>

fun engine_run :: "engine \<Rightarrow> engine_op list list \<Rightarrow> (bool \<times> engine) option" where
  "engine_run e [] = Some (False, e)"
| "engine_run e (xs # xss) = do {
     (rs, e1) \<leftarrow> run_ops engine_step e xs;
     let (running, e2) = engine_watch e1;
     if running then engine_run e2 xss else Some (True, e2)
   }"

text \<open>
  \<open>main\<close>.  The thread of the server runs as soon as the engine is constructed; \<open>early\<close> tells whether
  the engine was stopped by then.
\<close>

definition engine_program ::
  "'w syscall \<Rightarrow> (contacts_message \<Rightarrow> string) \<Rightarrow> (string \<Rightarrow> int) \<Rightarrow> bool \<Rightarrow> (string \<Rightarrow> int \<times> int) \<Rightarrow> timestamp \<Rightarrow>
   ('w \<Rightarrow> 'w) \<Rightarrow> string list \<Rightarrow> bool \<Rightarrow> engine_op list list \<Rightarrow> 'w \<Rightarrow> (connections \<times> engine, 'w) program option" where
  "engine_program os layout inet_pton built draw now busy argv early turns w =
     (case new_engine_settings inet_pton argv of
        None \<Rightarrow> None
      | Some (Inl what) \<Rightarrow> Some (Finished 0 '''' w)
      | Some (Inr s) \<Rightarrow>
          (case construct_engine os (abstract_factory os layout built s) s draw now busy w of
             None \<Rightarrow> None
           | Some (Inl what, w1) \<Rightarrow> Some (Finished 0 '''' w1)
           | Some (Inr (cn, e), w1) \<Rightarrow>
               let finish = Finished 0 '''' (destroy_handlers os (Some (cn_contacts cn)) (Some (cn_chat cn))
                 (Some (cn_textbox cn)) (busy w1))
               in (case server_run (cn_server cn) of
                  None \<Rightarrow> None
                | Some sv \<Rightarrow>
                    if early then Some finish
                    else (case engine_run e turns of
                       None \<Rightarrow> None
                     | Some (True, e1) \<Rightarrow> Some finish
                     | Some (False, e1) \<Rightarrow> Some (In_Loop (cn, e1) w1)))))"

text \<open>
  \<open>main\<close> of the text box, which waits in \<open>wait\<close> until the text box is stopped: \<open>work\<close> is what its
  threads have done to it.
\<close>

definition textbox_program ::
  "'w syscall \<Rightarrow> (named_pipe \<times> textbox \<times> 'w \<Rightarrow> named_pipe \<times> textbox \<times> 'w) \<Rightarrow> string list \<Rightarrow> bool \<Rightarrow> 'w \<Rightarrow>
   (named_pipe \<times> textbox, 'w) program" where
  "textbox_program os work argv early w =
     (case new_textbox_settings argv of
        Inl what \<Rightarrow> Finished 0 '''' w
      | Inr settings \<Rightarrow>
          (case new_TTTextBox os settings w of
             (Inl what, w1) \<Rightarrow> Finished 0 '''' w1
           | (Inr (p, t), w1) \<Rightarrow>
               let (p2, t2, w2) = work (p, t, w1) in
               if early \<or> xb_stopped t2 then Finished 0 (xb_out t2) (snd (pipe_destruct os p2 w2))
               else In_Loop (p2, t2) w2))"

subsection \<open>The loop\<close>



subsection \<open>Properties\<close>


text \<open>
  An engine whose gRPC server cannot be started, for instance because the address is not one of
  the host, is constructed all the same, and its server thread then calls \<open>Wait\<close> through a
  null pointer.
\<close>

theorem engine_without_server:
  assumes "new_engine_settings inet_pton argv = Some (Inr s)"
    and "new_TTContactsHandler os layout (est_contacts s) w = (Inr (m, c), w1)"
    and "new_TTChatHandler os (est_chat s) w1 = (Inr (p, q, h), w2)"
    and "new_TTTextBoxHandler os (est_textbox s) w2 = (Inr x, w3)"
  shows "engine_program os layout inet_pton False draw now busy argv early turns w = None"
  using assms
  by (simp add: engine_program_def construct_engine_def abstract_factory_def server_run_def new_TTServer_def
      Let_def split: option.split)

text \<open>A system that grants every connection, and an engine on it.\<close>

definition granting_os :: "unit syscall" where
  "granting_os = failing_os\<lparr>
     sc_shm_open := \<lambda>n c w. (3, w), sc_ftruncate := \<lambda>fd k w. (0, w), sc_mmap := \<lambda>k fd w. (5, w),
     sc_sem_open := \<lambda>n c w. (7, w), sc_sem_post := \<lambda>s w. (0, w), sc_sem_timedwait := \<lambda>s t w. (0, w),
     sc_clock_gettime := \<lambda>w. ((0, 0), w), sc_mq_open := \<lambda>n c k l w. (4, w), sc_open := \<lambda>p r w. (6, w)\<rparr>"

definition program_argv :: "string list" where
  "program_argv = [''tteams-engine'', ''c'', ''h'', ''x'', ''ann'', ''id-ann'', ''lo'', ''127.0.0.1'', ''8080'']"

definition program_settings :: engine_settings where
  "program_settings = \<lparr>est_contacts = \<lparr>cst_width = 0, cst_height = 0, cst_name = ''c''\<rparr>,
     est_chat = \<lparr>hst_width = 0, hst_height = 0, mMessageQueueName = ''/h''\<rparr>,
     est_textbox = \<lparr>xst_width = 0, xst_height = 0, mUniquePath = ''/tmp/x-pipe''\<rparr>,
     est_nickname = ''ann'', est_identity = ''id-ann'',
     est_interface = \<lparr>ni_name = ''lo'', ni_ipAddress = ''127.0.0.1'', ni_port = ''8080''\<rparr>, est_neighbors = []\<rparr>"

lemma program_settings_read: "new_engine_settings (\<lambda>a. 1) program_argv = Some (Inr program_settings)"
  unfolding new_engine_settings_eq
  by (simp add: program_argv_def program_settings_def is_digit_def decimal_def digit_value_def)

lemma program_connections:
  "\<exists>m c w1 p q h w2 x w3. new_TTContactsHandler granting_os (\<lambda>m. '''') (est_contacts program_settings) () = (Inr (m, c), w1) \<and>
    new_TTChatHandler granting_os (est_chat program_settings) w1 = (Inr (p, q, h), w2) \<and>
    new_TTTextBoxHandler granting_os (est_textbox program_settings) w2 = (Inr x, w3)"
proof -
  have "\<exists>m c w1. new_TTContactsHandler granting_os (\<lambda>m. '''') (est_contacts program_settings) () = (Inr (m, c), w1)"
    by (simp add: new_TTContactsHandler_def contacts_getSharedMemory_def new_shared_mem_def shm_create_def
        establish_def shm_send_def shm_alive_def granting_os_def failing_os_def Let_def eval_nat_numeral)
  moreover have "\<exists>p q h w2. new_TTChatHandler granting_os (est_chat program_settings) w1 = (Inr (p, q, h), w2)" for w1
    by (simp add: new_TTChatHandler_def getPrimaryMessageQueue_def getSecondaryMessageQueue_def mq_create_def
        mq_alive_def new_message_queue_def granting_os_def Let_def)
  moreover have "\<exists>x w3. new_TTTextBoxHandler granting_os (est_textbox program_settings) w2 = (Inr x, w3)" for w2
    by (simp add: new_TTTextBoxHandler_def getNamedPipe_def new_named_pipe_def pipe_open_def pipe_alive_def
        granting_os_def Let_def eval_nat_numeral)
  ultimately show ?thesis
    by meson
qed


theorem engine_without_server_witness:
  "engine_program granting_os (\<lambda>m. '''') (\<lambda>a. 1) False (\<lambda>a. (5000, 0)) 0 id program_argv False [] () = None"
proof -
  obtain m c w1 p q h w2 x w3 where
    conns: "new_TTContactsHandler granting_os (\<lambda>m. '''') (est_contacts program_settings) () = (Inr (m, c), w1)"
      "new_TTChatHandler granting_os (est_chat program_settings) w1 = (Inr (p, q, h), w2)"
      "new_TTTextBoxHandler granting_os (est_textbox program_settings) w2 = (Inr x, w3)"
    using program_connections by blast
  show ?thesis
    by (rule engine_without_server[OF program_settings_read conns])
qed

end
