(* ===== verification/Spec2Isabelle.thy ===== *)
theory Spec2Isabelle
  imports Contacts_Window Contacts_Pump Chat_Link Chat_Timestamp TextBox_Link TextBox_Input Network_Delivery
    Discovery_Bounds Timer_Pace Contact_Race Engine_Life TextBox_Pipe Engine_Program
begin

text \<open>
  TerminalTeams (directory src/) is a chat for the terminal without a central server.  A user runs four
  processes: the \<^emph>\<open>engine\<close> (engine/src), which keeps the contacts and the conversations and talks
  to the engines of other users by gRPC, and three windows, one each for the \<^emph>\<open>contacts\<close>, the
  \<^emph>\<open>chat\<close> and the \<^emph>\<open>text box\<close> (contacts/src, chat/src, textbox/src).  The handler of a window lives in
  the engine and is built from the same directory.  The handler of the contacts reaches its
  window through a shared memory of one message with two semaphores, that of the chat through two message queues
  (one for the messages, one for the window's heartbeats), and the text box reaches its handler through
  a named pipe (utils/src).

  The definitions are functions and step relations translated from the C++ code; they
  compute, so that the witnesses evaluate them.  A function that can run into an assertion or
  into undefined behavior returns \<open>None\<close> there; an exception is \<open>Inl\<close> with its text; a refusal is
  \<open>False\<close>, as in the code.

  \<^bold>\<open>The theories.\<close>

  \<^item> Prelude: lists and options, running a list of operations (\<open>run_ops\<close>), and the locales \<open>partial_machine\<close>
    (operations that keep an invariant), \<open>machine\<close> (and that never abort) and \<open>refined_machine\<close> (and that an
    abstract machine simulates).  Pump_Spec: the locales \<open>worker\<close>, \<open>pump\<close> (a thread that moves a queue to
    a channel: nothing lost, nothing out of order) and \<open>stoppable\<close> (a thread that leaves within a
    number of its own steps after a stop), over any interleaving with others.
  \<^item> Cxx_Text: \<open>from_chars\<close>, \<open>operator>>\<close>, \<open>to_string\<close>, \<open>getline\<close> and the output stream.
  \<^item> Contacts_Data, Contacts_Handler, Contacts_Book, Contacts_Window: \<open>TTContactsMessage\<close> and its
    parts; the store of \<open>TTContactsHandler\<close>, one function for each public method; its abstract
    specification, a book of four flags for each contact, which it refines; \<open>TTContacts\<close>,
    which in step with the handler shows exactly its contacts.  Contacts_Pump: the handler's
    two threads with their lock and condition variable.
  \<^item> Chat_Data, Chat_Handler, Chat_Format, Chat_Window: the same for the chat: messages, the
    store of conversations with the cutting into chunks, refined from an abstract log; the breaking
    of a text into lines, which ends, fits and loses nothing; the window, which shows the current
    conversation.  Chat_Timestamp: the text of a timestamp, nineteen characters that can be read back
    to the second, and so the layout of a message.  Chat_Link: the four threads on both ends of
    the two queues.
  \<^item> TextBox, TextBox_Input, TextBox_Handler, TextBox_Link, TextBox_Pipe: parsing of the lines typed, the
    reading of the standard input up to its end and after, the messages made of the lines, and the
    callbacks the handler makes of the messages; the threads of the text box; the handler's thread on
    the bytes of the pipe.
  \<^item> Node, Node_Stores, Broadcaster_Chat, Broadcaster_Discovery, Discovery_Bounds, Services:
    what the two broadcasters share; the contract of the two stores side by side as
    the locale \<open>stores\<close>; sending, pending and receiving messages; finding and watching
    neighbors, with bounds on the calls; the gRPC services and the stub around them.  Contact_Race:
    what requests meet between the two stages of \<open>addNeighbor\<close>.  Timer_Pace: \<open>TTUtilsTimerFactory\<close>,
    and how often the chat loop can call a neighbor.
  \<^item> Engine, Inbox, Engine_Life: \<open>TTEngine\<close> as a machine of callbacks, requests and turns of the
    broadcasters, in which stores stay in step and no message is lost, invented or reordered;
    then its threads from the constructor to the destructor, with what a stop reaches in
    each phase.
  \<^item> Node_History, Network, Network_Delivery: engines at their addresses and the calls between them, each
    of which may be lost, cut short or left without a reply.  Two hosts read the same conversation
    as long as no reply is lost, at least once whatever is lost, and one good turn completes it.
  \<^item> Syscall, Shared_Mem, Message_Queue, Named_Pipe: the operating system as a record of functions and
    the three kinds of communication over it, with every retry and failure.  Settings: the command
    lines.  Startup: the six constructors that acquire a connection.  Wire: the
    messages as bytes.  Programs: signals, and the programs of the contacts and the chat
    window from the arguments to the exit code, put together from all these layers.  Engine_Program: the
    same for the engine, with \<open>TTServer\<close>, \<open>TTAbstractFactory\<close> and every failure of the
    engine's constructor, and for the text box.

  \<^bold>\<open>State and operations.\<close>  A record holds the data members of a class under their names in the code, with
  a prefix where two classes share one; the flag, the once-only hook and the subscribers of
  \<open>TTUtilsStopable\<close> are fields of the record.  A method is a function of the same name, with the
  name of its class in front where it clashes; the manifest names the lines of each.  What a class asks of
  the world (clocks, random thresholds, \<open>inet_pton\<close>, responses of gRPC, results of system calls) is
  an argument.  A loop over time is a function of the list of what its turns meet, or
  a step relation; a retry loop recurses on the attempts left, as its C++ counter does.  At the
  end of such a list the loop waits, and the theorems that it ends (\<open>static_discovery_ends\<close>, the bounds after a
  stop) show it for every list or give the number of steps.  There is no fuel: the one loop of the
  code that need not end, the filling of lines in \<open>TTChat::print\<close>, is a partial function, with \<open>chat_lines_fit\<close>
  and \<open>chat_lines_stuck\<close> to say when it does.

  \<^bold>\<open>Interfaces.\<close>  \<open>partial_machine\<close> is interpreted for the network (\<open>lossy\<close>, \<open>exact\<close>).  \<open>machine\<close> is interpreted for the engine (\<open>eng\<close>), for handler and window together (\<open>contacts_pair\<close>,
  \<open>chat_pair\<close>), for the typing of the queues (\<open>wire_contacts\<close>, \<open>wire_chat\<close>) and for what they show
  (\<open>shown_contacts\<close>, \<open>shown_chat\<close>); \<open>refined_machine\<close> for the two handlers (\<open>contacts\<close>, \<open>chat\<close>); \<open>stores\<close> for the
  two handlers side by side (\<open>pair\<close>), on which everything about the engine rests; \<open>pump\<close> and \<open>stoppable\<close> for the
  threads of the three connections and of the engine (\<open>contacts_pump\<close>, \<open>chat_pump\<close>, \<open>textbox_pump\<close>,
  \<open>life_server\<close> and their like).

  \<^bold>\<open>Idealisations.\<close>  An operation of a store is atomic (it holds the store's mutex), and so are a turn of
  a broadcaster's loop and \<open>addNeighbor\<close> (they hold the broadcaster's mutex).  The other requests and
  the callbacks of the text box take no lock of their own around their calls on the two stores; in
  the engine's machine they are one step all the same; Contact_Race shows what this hides, requests about a contact
  that has no conversation yet.  In the network a call is handled by the callee in one step, the
  calls to a neighbor are made one after the other, as the chat loop makes them, and engines are not
  started anew; a call to an engine that has stopped is one that is lost.  Memory is sequentially
  consistent.  Layouts are those of the x86-64 ABI.  An identifier is a natural number until it is
  written as eight bytes.  The time zone of the host and the hash by which the identities in a
  narration are compared are parameters; where the window and its program print a message, so is the
  whole text of its timestamp, for which Chat_Timestamp puts what the code computes.

  \<^bold>\<open>Not modelled.\<close>  Logging and tracing (diagnostics/src) with the rotating of log files, which only
  write files; the inside of gRPC, of which the server's start, its flag and the results of calls appear;
  the random numbers themselves, of which only the bounds are used; what happens after an assertion
  fails or a null pointer is followed; unit tests, automatic tests and mocks.
\<close>

end
